(* ===== verification/Rusnel_Prelude.thy ===== *)
theory Rusnel_Prelude
  imports Main "HOL-Library.Word" "HOL-Library.Multiset" "HOL-Library.Sublist"
begin

text \<open>
  Shared vocabulary of the development: the machine-integer types, Rust's
  \<^verbatim>\<open>Result\<close> as a sum type with its early-return bind, Rust strings, the
  list searches of \<^verbatim>\<open>core::str\<close> and \<^verbatim>\<open>core::slice\<close> that the program uses,
  big- and little-endian integer bytes, and a byte-oriented connection on which
  \<^verbatim>\<open>read_exact\<close> and \<^verbatim>\<open>write_all\<close> act.

  A Rust \<^verbatim>\<open>str\<close> is a HOL \<^typ>\<open>string\<close>: HOL characters are bytes, so a string
  is its UTF-8 encoding and \<^term>\<open>length\<close> is Rust's \<^verbatim>\<open>len()\<close>.
\<close>

section \<open>Types\<close>

type_synonym u8 = "8 word"
type_synonym u16 = "16 word"
type_synonym u32 = "32 word"
type_synonym u64 = "64 word"
type_synonym bytes = "8 word list"

named_theorems result_simps \<open>unfolding of the result and connection combinators\<close>
named_theorems text_simps \<open>round-trip and inversion facts of text functions\<close>

section \<open>Results\<close>

text \<open>\<^verbatim>\<open>?\<close> on a \<^verbatim>\<open>Result\<close>: stop at the first error.\<close>

definition and_then :: "'e + 'a \<Rightarrow> ('a \<Rightarrow> 'e + 'b) \<Rightarrow> 'e + 'b" where
  "and_then r f = (case r of Inl e \<Rightarrow> Inl e | Inr a \<Rightarrow> f a)"

definition map_err :: "('e \<Rightarrow> 'f) \<Rightarrow> 'e + 'a \<Rightarrow> 'f + 'a" where
  "map_err h r = (case r of Inl e \<Rightarrow> Inl (h e) | Inr a \<Rightarrow> Inr a)"

definition ok_or :: "'e \<Rightarrow> 'a option \<Rightarrow> 'e + 'a" where
  "ok_or e x = (case x of None \<Rightarrow> Inl e | Some a \<Rightarrow> Inr a)"

definition is_ok :: "'e + 'a \<Rightarrow> bool" where
  "is_ok r = (case r of Inl _ \<Rightarrow> False | Inr _ \<Rightarrow> True)"

lemma and_then_simps [simp]:
  "and_then (Inl e) f = Inl e" "and_then (Inr a) f = f a"
  by (simp_all add: and_then_def)

lemma map_err_simps [simp]:
  "map_err h (Inl e) = Inl (h e)" "map_err h (Inr a) = Inr a"
  by (simp_all add: map_err_def)

lemma ok_or_simps [simp]:
  "ok_or e None = Inl e" "ok_or e (Some a) = Inr a"
  by (simp_all add: ok_or_def)

lemma is_ok_simps [simp]: "\<not> is_ok (Inl e)" "is_ok (Inr a)"
  by (simp_all add: is_ok_def)

lemma and_then_Inr_iff: "and_then r f = Inr b \<longleftrightarrow> (\<exists>a. r = Inr a \<and> f a = Inr b)"
  by (cases r) simp_all

lemma map_err_Inr_iff [simp]: "map_err h r = Inr b \<longleftrightarrow> r = Inr b"
  by (cases r) simp_all

lemma ok_or_Inr_iff [simp]: "ok_or e x = Inr b \<longleftrightarrow> x = Some b"
  by (cases x) simp_all

lemma is_ok_iff: "is_ok r \<longleftrightarrow> (\<exists>a. r = Inr a)"
  by (cases r) simp_all

section \<open>Searching and splitting\<close>

text \<open>\<^verbatim>\<open>str::strip_prefix\<close>.\<close>

definition strip_prefix :: "'a list \<Rightarrow> 'a list \<Rightarrow> 'a list option" where
  "strip_prefix p s = (if take (length p) s = p then Some (drop (length p) s) else None)"

lemma strip_prefix_Some_iff: "strip_prefix p s = Some r \<longleftrightarrow> s = p @ r"
  by (auto simp: strip_prefix_def) (metis append_take_drop_id)

lemma strip_prefix_append [simp]: "strip_prefix p (p @ r) = Some r"
  by (simp add: strip_prefix_Some_iff)

lemma strip_prefix_None_iff: "strip_prefix p s = None \<longleftrightarrow> \<not> prefix p s"
  by (metis not_Some_eq prefix_def strip_prefix_Some_iff)

text \<open>\<^verbatim>\<open>str::split_once\<close> and \<^verbatim>\<open>str::rsplit_once\<close> on a one-byte pattern.\<close>

fun split_once :: "'a \<Rightarrow> 'a list \<Rightarrow> ('a list \<times> 'a list) option" where
  "split_once c [] = None"
| "split_once c (x # xs) =
     (if x = c then Some ([], xs) else map_option (\<lambda>(a, b). (x # a, b)) (split_once c xs))"

definition rsplit_once :: "'a \<Rightarrow> 'a list \<Rightarrow> ('a list \<times> 'a list) option" where
  "rsplit_once c s = map_option (\<lambda>(a, b). (rev b, rev a)) (split_once c (rev s))"

lemma split_once_Some_iff:
  "split_once c s = Some (a, b) \<longleftrightarrow> s = a @ c # b \<and> c \<notin> set a"
proof (induction s arbitrary: a)
  case (Cons x xs)
  then show ?case by (cases a) auto
qed simp

lemma split_once_None_iff: "split_once c s = None \<longleftrightarrow> c \<notin> set s"
  by (induction s) auto

lemma rsplit_once_Some_iff:
  "rsplit_once c s = Some (a, b) \<longleftrightarrow> s = a @ c # b \<and> c \<notin> set b"
proof -
  have "rsplit_once c s = Some (a, b) \<longleftrightarrow> split_once c (rev s) = Some (rev b, rev a)"
    by (auto simp: rsplit_once_def)
  also have "\<dots> \<longleftrightarrow> s = a @ c # b \<and> c \<notin> set b"
    unfolding split_once_Some_iff
    by (metis append.assoc append_Cons append_Nil rev.simps(2) rev_append rev_rev_ident set_rev)
  finally show ?thesis .
qed

lemma rsplit_once_None_iff: "rsplit_once c s = None \<longleftrightarrow> c \<notin> set s"
  by (simp add: rsplit_once_def split_once_None_iff)

lemma rsplit_once_append: "c \<notin> set b \<Longrightarrow> rsplit_once c (a @ c # b) = Some (a, b)"
  by (simp add: rsplit_once_Some_iff)

text \<open>Slice element access: \<^verbatim>\<open>None\<close> is the panic of an out-of-range index.\<close>

definition index_opt :: "'a list \<Rightarrow> nat \<Rightarrow> 'a option" where
  "index_opt xs i = (if i < length xs then Some (xs ! i) else None)"

lemma index_opt_simps [simp]: "i < length xs \<Longrightarrow> index_opt xs i = Some (xs ! i)"
  by (simp add: index_opt_def)

lemma index_opt_None_iff: "index_opt xs i = None \<longleftrightarrow> length xs \<le> i"
  by (simp add: index_opt_def)

text \<open>Joining with a separator, \<^verbatim>\<open>[T]::join\<close>.\<close>

fun join :: "'a list \<Rightarrow> 'a list list \<Rightarrow> 'a list" where
  "join sep [] = []"
| "join sep [x] = x"
| "join sep (x # y # ys) = x @ sep @ join sep (y # ys)"

lemma join_Cons: "join sep (x # xs) = x @ (if xs = [] then [] else sep @ join sep xs)"
  by (cases xs) simp_all

section \<open>Bytes\<close>

text \<open>\<^verbatim>\<open>to_be_bytes\<close>, \<^verbatim>\<open>from_be_bytes\<close> and the little-endian forms at the widths used.\<close>

definition be_bytes16 :: "u16 \<Rightarrow> bytes" where
  "be_bytes16 w = [word_of_nat (unat w div 256), word_of_nat (unat w)]"

definition from_be_bytes16 :: "u8 \<Rightarrow> u8 \<Rightarrow> u16" where
  "from_be_bytes16 hi lo = word_of_nat (256 * unat hi + unat lo)"

definition le_bytes :: "nat \<Rightarrow> nat \<Rightarrow> bytes" where
  "le_bytes k n = map (\<lambda>i. word_of_nat (n div 256 ^ i)) [0..<k]"

fun from_le_bytes :: "bytes \<Rightarrow> nat" where
  "from_le_bytes [] = 0"
| "from_le_bytes (b # bs) = unat b + 256 * from_le_bytes bs"

lemma length_be_bytes16 [simp]: "length (be_bytes16 w) = 2"
  by (simp add: be_bytes16_def)

lemma length_le_bytes [simp]: "length (le_bytes k n) = k"
  by (simp add: le_bytes_def)

lemma le_bytes_Suc: "le_bytes (Suc k) n = word_of_nat n # le_bytes k (n div 256)"
  by (simp add: le_bytes_def upt_rec [of 0] map_Suc_upt [symmetric] div_mult2_eq comp_def
      del: upt_Suc)

lemma from_le_bytes_le_bytes: "n < 256 ^ k \<Longrightarrow> from_le_bytes (le_bytes k n) = n"
proof (induction k arbitrary: n)
  case (Suc k)
  then have "n div 256 < 256 ^ k" by (simp add: less_mult_imp_div_less)
  with Suc.IH show ?case by (simp add: le_bytes_Suc unat_of_nat)
qed (simp add: le_bytes_def)

lemma from_le_bytes_bound: "from_le_bytes bs < 256 ^ length bs"
proof (induction bs)
  case (Cons b bs)
  have "unat b < 256" using unsigned_less [of b] by simp
  with Cons show ?case by simp
qed simp

lemma unat_u8_bound [simp]: "unat (b :: u8) < 256"
  using unsigned_less [of b] by simp

lemma unat_u16_bound [simp]: "unat (w :: u16) < 65536"
  using unsigned_less [of w] by simp

lemma unat_u8_le [simp]: "unat (b :: u8) \<le> 255"
  using unat_u8_bound [of b] by linarith

lemma unat_u16_le [simp]: "unat (w :: u16) \<le> 65535"
  using unat_u16_bound [of w] by linarith

lemma le_bytes_from_le_bytes: "length bs = k \<Longrightarrow> le_bytes k (from_le_bytes bs) = bs"
proof (induction bs arbitrary: k)
  case (Cons b bs)
  have "(word_of_nat (unat b + 256 * x) :: u8) = b" for x
    unfolding word_unat_eq_iff by (subst unat_of_nat) (simp add: mod_less [OF unat_u8_bound])
  moreover have "(unat b + 256 * x) div 256 = x" for x
    using unat_u8_bound [of b] by (simp del: unat_u8_bound)
  ultimately show ?case using Cons by (auto simp: le_bytes_Suc)
qed (simp add: le_bytes_def)

lemma unat_from_be_bytes16: "unat (from_be_bytes16 hi lo) = 256 * unat hi + unat lo"
proof -
  have "256 * unat hi + unat lo < 65536"
    using unat_u8_bound [of hi] unat_u8_bound [of lo] by linarith
  then show ?thesis
    unfolding from_be_bytes16_def by (subst unat_of_nat) simp
qed

lemma from_be_bytes16_be_bytes16:
  "from_be_bytes16 (word_of_nat (unat w div 256)) (word_of_nat (unat w)) = w"
proof -
  have "unat w div 256 < 256" by (simp add: less_mult_imp_div_less)
  then have "unat (word_of_nat (unat w div 256) :: u8) = unat w div 256"
    by (subst unat_of_nat) simp
  moreover have "unat (word_of_nat (unat w) :: u8) = unat w mod 256"
    by (subst unat_of_nat) simp
  ultimately show ?thesis
    unfolding word_unat_eq_iff unat_from_be_bytes16 by simp
qed

lemma be_bytes16_from_be_bytes16: "be_bytes16 (from_be_bytes16 hi lo) = [hi, lo]"
proof -
  have "word_of_nat (256 * unat hi + unat lo) = lo"
    unfolding word_unat_eq_iff by (subst unat_of_nat) (simp add: mod_less [OF unat_u8_bound])
  then show ?thesis
    unfolding be_bytes16_def unat_from_be_bytes16 by simp
qed

section \<open>A byte connection\<close>

text \<open>
  The two directions of a stream as one task sees them: \<^verbatim>\<open>inb\<close> is everything the
  peer still sends before it closes, \<^verbatim>\<open>outb\<close> what this side has written, \<^verbatim>\<open>wleft\<close> how
  many more bytes the transport accepts before it reports an error, and \<^verbatim>\<open>fin\<close> whether
  this side has finished its direction. Reading past the end is \<^verbatim>\<open>UnexpectedEof\<close>, as
  \<^verbatim>\<open>read_exact\<close> reports it; a write that fails may have written a prefix.
\<close>

record conn =
  inb :: bytes
  outb :: bytes
  wleft :: nat
  fin :: bool

datatype io_error = UnexpectedEof | BrokenPipe

definition read_exact :: "nat \<Rightarrow> conn \<Rightarrow> (io_error + bytes) \<times> conn" where
  "read_exact n c =
     (if n \<le> length (inb c) then (Inr (take n (inb c)), c\<lparr>inb := drop n (inb c)\<rparr>)
      else (Inl UnexpectedEof, c\<lparr>inb := []\<rparr>))"

definition write_all :: "bytes \<Rightarrow> conn \<Rightarrow> (io_error + unit) \<times> conn" where
  "write_all bs c =
     (if bs = [] then (Inr (), c)
      else if fin c then (Inl BrokenPipe, c)
      else if length bs \<le> wleft c
      then (Inr (), c\<lparr>outb := outb c @ bs, wleft := wleft c - length bs\<rparr>)
      else (Inl BrokenPipe, c\<lparr>outb := outb c @ take (wleft c) bs, wleft := 0\<rparr>))"

definition shutdown :: "conn \<Rightarrow> (io_error + unit) \<times> conn" where
  "shutdown c = (if fin c then (Inl BrokenPipe, c) else (Inr (), c\<lparr>fin := True\<rparr>))"

text \<open>Sequencing of connection actions with \<^verbatim>\<open>?\<close>, and lifting of an I/O error.\<close>

definition io_bind ::
  "(conn \<Rightarrow> ('e + 'a) \<times> conn) \<Rightarrow> ('a \<Rightarrow> conn \<Rightarrow> ('e + 'b) \<times> conn) \<Rightarrow> conn \<Rightarrow> ('e + 'b) \<times> conn" where
  "io_bind m f c = (case m c of (Inl e, c') \<Rightarrow> (Inl e, c') | (Inr a, c') \<Rightarrow> f a c')"

definition io_err :: "'e \<Rightarrow> conn \<Rightarrow> ('e + 'a) \<times> conn" where
  "io_err e c = (Inl e, c)"

definition io_ok :: "'a \<Rightarrow> conn \<Rightarrow> ('e + 'a) \<times> conn" where
  "io_ok a c = (Inr a, c)"

definition io_lift :: "(io_error \<Rightarrow> 'e) \<Rightarrow> (conn \<Rightarrow> (io_error + 'a) \<times> conn) \<Rightarrow> conn \<Rightarrow> ('e + 'a) \<times> conn" where
  "io_lift h m c = (case m c of (r, c') \<Rightarrow> (map_err h r, c'))"

declare io_bind_def [result_simps] io_err_def [result_simps] io_ok_def [result_simps]
  io_lift_def [result_simps]

lemma read_exact_enough [result_simps]:
  "n \<le> length (inb c) \<Longrightarrow> read_exact n c = (Inr (take n (inb c)), c\<lparr>inb := drop n (inb c)\<rparr>)"
  by (simp add: read_exact_def)

lemma read_exact_short [result_simps]:
  "length (inb c) < n \<Longrightarrow> read_exact n c = (Inl UnexpectedEof, c\<lparr>inb := []\<rparr>)"
  by (simp add: read_exact_def)

lemma read_exact_append:
  "inb c = bs @ rest \<Longrightarrow> length bs = n \<Longrightarrow> read_exact n c = (Inr bs, c\<lparr>inb := rest\<rparr>)"
  by (simp add: read_exact_def)

lemma read_exact_outb [simp]: "outb (snd (read_exact n c)) = outb c"
  by (simp add: read_exact_def)

lemma read_exact_length: "fst (read_exact n c) = Inr bs \<Longrightarrow> length bs = n"
  by (auto simp: read_exact_def split: if_splits)

lemma write_all_ok [result_simps]:
  "\<not> fin c \<Longrightarrow> length bs \<le> wleft c \<Longrightarrow>
   write_all bs c = (Inr (), c\<lparr>outb := outb c @ bs, wleft := wleft c - length bs\<rparr>)"
  by (simp add: write_all_def)

lemma write_all_Inr:
  "write_all bs c = (Inr u, c') \<Longrightarrow>
   c' = c\<lparr>outb := outb c @ bs, wleft := wleft c - length bs\<rparr>"
  by (auto simp: write_all_def split: if_splits)

end
