(* ===== verification/Rust_Text.thy ===== *)
theory Rust_Text
  imports Rusnel_Prelude "HOL-Library.Monad_Syntax"
begin

text \<open>
  The text functions of Rust's standard library that the program calls: integer
  parsing and printing (\<^verbatim>\<open>core::num\<close>), \<^verbatim>\<open>String::from_utf8_lossy\<close>, and the parser
  and \<^verbatim>\<open>Display\<close> of \<^verbatim>\<open>Ipv4Addr\<close>, \<^verbatim>\<open>Ipv6Addr\<close>, \<^verbatim>\<open>IpAddr\<close> and \<^verbatim>\<open>SocketAddr\<close>
  (\<^verbatim>\<open>core::net\<close>). The facts the program rests on are collected in the locale
  \<^verbatim>\<open>addr_text\<close> (printing then parsing gives the address back) and interpreted for
  both address families.
\<close>

section \<open>Integers\<close>

datatype int_error = Empty | InvalidDigit | PosOverflow

definition to_digit :: "nat \<Rightarrow> char \<Rightarrow> nat option" where
  "to_digit radix c =
     (let n = of_char c :: nat;
          d = (if 48 \<le> n \<and> n \<le> 57 then n - 48
               else if 97 \<le> n \<and> n \<le> 122 then n - 87
               else if 65 \<le> n \<and> n \<le> 90 then n - 55 else radix)
      in if d < radix then Some d else None)"

definition digit_char :: "nat \<Rightarrow> char" where
  "digit_char d = char_of (if d < 10 then 48 + d else 87 + d)"

fun parse_loop :: "nat \<Rightarrow> nat \<Rightarrow> nat \<Rightarrow> string \<Rightarrow> int_error + nat" where
  "parse_loop radix mx acc [] = Inr acc"
| "parse_loop radix mx acc (c # cs) =
     (case to_digit radix c of
        None \<Rightarrow> Inl InvalidDigit
      | Some d \<Rightarrow>
          if acc * radix + d > mx then Inl PosOverflow
          else parse_loop radix mx (acc * radix + d) cs)"

text \<open>\<^verbatim>\<open>from_str_radix\<close> of an unsigned type with largest value \<^verbatim>\<open>mx\<close>: one leading plus
  sign is skipped, a minus sign is not a digit.\<close>

definition parse_uint :: "nat \<Rightarrow> nat \<Rightarrow> string \<Rightarrow> int_error + nat" where
  "parse_uint radix mx s =
     (case s of
        [] \<Rightarrow> Inl Empty
      | c # cs \<Rightarrow>
          if cs = [] \<and> (c = CHR ''+'' \<or> c = CHR ''-'') then Inl InvalidDigit
          else if c = CHR ''+'' then parse_loop radix mx 0 cs
          else parse_loop radix mx 0 s)"

definition parse_u16 :: "string \<Rightarrow> int_error + u16" where
  "parse_u16 s = and_then (parse_uint 10 65535 s) (\<lambda>n. Inr (word_of_nat n))"

fun show_radix :: "nat \<Rightarrow> nat \<Rightarrow> string" where
  "show_radix r n =
     (if r < 2 \<or> n < r then [digit_char n] else show_radix r (n div r) @ [digit_char (n mod r)])"

declare show_radix.simps [simp del]

definition show_nat :: "nat \<Rightarrow> string" where
  "show_nat n = show_radix 10 n"

abbreviation show_word :: "'a::len word \<Rightarrow> string" where
  "show_word w \<equiv> show_nat (unat w)"

subsection \<open>Round trip\<close>

lemma digit_char_simps [simp]:
  "digit_char 0 = CHR ''0''" "digit_char (Suc 0) = CHR ''1''" "digit_char 2 = CHR ''2''"
  "digit_char 3 = CHR ''3''" "digit_char 4 = CHR ''4''" "digit_char 5 = CHR ''5''"
  "digit_char 6 = CHR ''6''" "digit_char 7 = CHR ''7''" "digit_char 8 = CHR ''8''"
  "digit_char 9 = CHR ''9''" "digit_char 10 = CHR ''a''" "digit_char 11 = CHR ''b''"
  "digit_char 12 = CHR ''c''" "digit_char 13 = CHR ''d''" "digit_char 14 = CHR ''e''"
  "digit_char 15 = CHR ''f''"
  by (simp_all add: digit_char_def char_of_eq_iff)

lemma of_char_digit_char: "d < 16 \<Longrightarrow> of_char (digit_char d) = (if d < 10 then 48 + d else 87 + d :: nat)"
  by (auto simp: digit_char_def)

lemma to_digit_digit_char [simp]: "d < r \<Longrightarrow> r \<le> 16 \<Longrightarrow> to_digit r (digit_char d) = Some d"
  by (auto simp: to_digit_def of_char_digit_char Let_def)

lemma to_digit_radix_mono: "to_digit r c = Some d \<Longrightarrow> r \<le> r' \<Longrightarrow> to_digit r' c = Some d"
  by (auto simp: to_digit_def Let_def split: if_splits)

definition is_digit :: "nat \<Rightarrow> char \<Rightarrow> bool" where
  "is_digit r c \<longleftrightarrow> to_digit r c \<noteq> None"

lemma is_digit_digit_char [simp]: "d < r \<Longrightarrow> r \<le> 16 \<Longrightarrow> is_digit r (digit_char d)"
  by (simp add: is_digit_def)

lemma is_digit_mono: "is_digit r c \<Longrightarrow> r \<le> r' \<Longrightarrow> is_digit r' c"
  by (auto simp: is_digit_def dest: to_digit_radix_mono)

lemma not_digit_punct [simp]:
  "\<not> is_digit 16 (CHR '':'')" "\<not> is_digit 16 (CHR ''.'')" "\<not> is_digit 16 (CHR ''/'')"
  "\<not> is_digit 16 (CHR ''['')" "\<not> is_digit 16 (CHR '']'')" "\<not> is_digit 16 (CHR ''+'')"
  "\<not> is_digit 16 (CHR ''-'')" "\<not> is_digit 16 (CHR ''%'')"
  "\<not> is_digit 10 (CHR '':'')" "\<not> is_digit 10 (CHR ''.'')" "\<not> is_digit 10 (CHR ''/'')"
  "\<not> is_digit 10 (CHR ''['')" "\<not> is_digit 10 (CHR '']'')" "\<not> is_digit 10 (CHR ''+'')"
  "\<not> is_digit 10 (CHR ''-'')" "\<not> is_digit 10 (CHR ''%'')"
  by (simp_all add: is_digit_def to_digit_def Let_def)

lemma show_radix_digits:
  "2 \<le> r \<Longrightarrow> r \<le> 16 \<Longrightarrow> c \<in> set (show_radix r n) \<Longrightarrow> is_digit r c"
proof (induction r n rule: show_radix.induct)
  case (1 r n)
  then show ?case
    by (cases "n < r") (auto simp: show_radix.simps [of r n])
qed

lemma show_radix_nonempty [simp]: "show_radix r n \<noteq> []"
  by (subst show_radix.simps) simp

lemma parse_loop_show_radix:
  "2 \<le> r \<Longrightarrow> r \<le> 16 \<Longrightarrow> n \<le> mx \<Longrightarrow> parse_loop r mx 0 (show_radix r n @ ds) = parse_loop r mx n ds"
proof (induction r n arbitrary: ds rule: show_radix.induct)
  case (1 r n)
  show ?case
  proof (cases "n < r")
    case True
    with 1 show ?thesis by (simp add: show_radix.simps [of r n])
  next
    case False
    with 1 have "n div r \<le> mx"
      by (meson div_le_dividend le_trans)
    with False 1 have "parse_loop r mx 0 (show_radix r (n div r) @ digit_char (n mod r) # ds)
        = parse_loop r mx (n div r) (digit_char (n mod r) # ds)" by simp
    also have "\<dots> = parse_loop r mx n ds"
      using 1 by simp
    finally show ?thesis using False 1 by (simp add: show_radix.simps [of r n])
  qed
qed

lemma parse_uint_show_radix:
  assumes "2 \<le> r" "r \<le> 16" "n \<le> mx"
  shows "parse_uint r mx (show_radix r n) = Inr n"
proof -
  obtain c cs where s: "show_radix r n = c # cs"
    by (cases "show_radix r n") simp_all
  have "is_digit r c" using show_radix_digits [OF assms(1,2), of c n] s by simp
  then have "is_digit 16 c" using assms by (blast intro: is_digit_mono)
  then have "c \<noteq> CHR ''+''" "c \<noteq> CHR ''-''" by auto
  with s show ?thesis
    using parse_loop_show_radix [OF assms, of "[]"] by (simp add: parse_uint_def)
qed

lemma parse_u16_show_word [simp, text_simps]: "parse_u16 (show_word (p :: u16)) = Inr p"
proof -
  have "unat p \<le> 65535" using unat_u16_bound [of p] by linarith
  then show ?thesis by (simp add: parse_u16_def show_nat_def parse_uint_show_radix)
qed

lemma show_nat_digits: "c \<in> set (show_nat n) \<Longrightarrow> is_digit 10 c"
  by (auto simp: show_nat_def intro: show_radix_digits)

lemma show_nat_nonempty [simp]: "show_nat n \<noteq> []"
  by (simp add: show_nat_def)

lemma show_nat_no_punct [simp]:
  "CHR '':'' \<notin> set (show_nat n)" "CHR ''/'' \<notin> set (show_nat n)" "CHR ''['' \<notin> set (show_nat n)"
  "CHR '']'' \<notin> set (show_nat n)" "CHR ''.'' \<notin> set (show_nat n)"
  by (auto dest: show_nat_digits)

lemma length_show_radix:
  "2 \<le> r \<Longrightarrow> n < r ^ k \<Longrightarrow> 0 < k \<Longrightarrow> length (show_radix r n) \<le> k"
proof (induction r n arbitrary: k rule: show_radix.induct)
  case (1 r n)
  show ?case
  proof (cases "n < r")
    case True
    with 1 show ?thesis by (simp add: show_radix.simps [of r n])
  next
    case False
    from 1 obtain j where j: "k = Suc j" by (cases k) auto
    with 1 False have "0 < j" by (cases j) auto
    with j have k: "k = Suc j" "0 < j" by auto
    with 1 have "n div r < r ^ j" by (simp add: less_mult_imp_div_less mult.commute)
    with False 1 k have "length (show_radix r (n div r)) \<le> j" by simp
    with False 1 k show ?thesis by (simp add: show_radix.simps [of r n])
  qed
qed

lemma hd_show_radix_zero:
  "2 \<le> r \<Longrightarrow> r \<le> 16 \<Longrightarrow> hd (show_radix r n) = CHR ''0'' \<Longrightarrow> n = 0"
proof (induction r n rule: show_radix.induct)
  case (1 r n)
  show ?case
  proof (cases "n < r")
    case True
    with 1 have "of_char (digit_char n) = (48 :: nat)" by (simp add: show_radix.simps [of r n])
    with True 1 show ?thesis by (auto simp: of_char_digit_char split: if_splits)
  next
    case False
    with 1 have "n div r = 0" by (simp add: show_radix.simps [of r n])
    with False 1 show ?thesis by (simp add: div_eq_0_iff)
  qed
qed

section \<open>Lossy UTF-8 decoding\<close>

text \<open>
  \<^verbatim>\<open>String::from_utf8_lossy\<close>: \<^verbatim>\<open>utf8_step\<close> is one round of the decoder of
  \<^verbatim>\<open>core::str::lossy\<close>, returning how many bytes it consumed and whether they are a
  valid scalar value; an invalid run becomes one replacement character.
\<close>

definition is_cont :: "u8 \<Rightarrow> bool" where
  "is_cont b \<longleftrightarrow> 128 \<le> unat b \<and> unat b < 192"

definition safe_get :: "bytes \<Rightarrow> nat \<Rightarrow> u8" where
  "safe_get bs i = (if i < length bs then bs ! i else 0)"

definition utf8_char_width :: "u8 \<Rightarrow> nat" where
  "utf8_char_width b =
     (let n = unat b in
      if n < 128 then 1 else if n < 194 then 0 else if n < 224 then 2
      else if n < 240 then 3 else if n < 245 then 4 else 0)"

definition second3_ok :: "u8 \<Rightarrow> u8 \<Rightarrow> bool" where
  "second3_ok b c =
     (let n = unat b; m = unat c in
      if n = 224 then 160 \<le> m \<and> m \<le> 191
      else if n = 237 then 128 \<le> m \<and> m \<le> 159
      else 128 \<le> m \<and> m \<le> 191)"

definition second4_ok :: "u8 \<Rightarrow> u8 \<Rightarrow> bool" where
  "second4_ok b c =
     (let n = unat b; m = unat c in
      if n = 240 then 144 \<le> m \<and> m \<le> 191
      else if n = 244 then 128 \<le> m \<and> m \<le> 143
      else 128 \<le> m \<and> m \<le> 191)"

definition utf8_step :: "bytes \<Rightarrow> bool \<times> nat" where
  "utf8_step bs =
     (let b = safe_get bs 0; w = utf8_char_width b in
      if w = 1 then (True, 1)
      else if w = 2 then
        (if is_cont (safe_get bs 1) then (True, 2) else (False, 1))
      else if w = 3 then
        (if \<not> second3_ok b (safe_get bs 1) then (False, 1)
         else if is_cont (safe_get bs 2) then (True, 3) else (False, 2))
      else if w = 4 then
        (if \<not> second4_ok b (safe_get bs 1) then (False, 1)
         else if \<not> is_cont (safe_get bs 2) then (False, 2)
         else if is_cont (safe_get bs 3) then (True, 4) else (False, 3))
      else (False, 1))"

lemma utf8_step_pos: "0 < snd (utf8_step bs)"
  by (simp add: utf8_step_def Let_def)

definition replacement_char :: bytes where
  "replacement_char = [239, 191, 189]"

function utf8_lossy :: "bytes \<Rightarrow> bytes" where
  "utf8_lossy bs =
     (if bs = [] then []
      else let (ok, n) = utf8_step bs in
        (if ok then take n bs else replacement_char) @ utf8_lossy (drop n bs))"
  by pat_completeness auto
termination
proof (relation "measure length", goal_cases)
  case (2 bs x ok n)
  then have "0 < n" using utf8_step_pos [of bs] by (metis snd_conv)
  with 2 show ?case by simp
qed simp

declare utf8_lossy.simps [simp del]

definition string_of_bytes :: "bytes \<Rightarrow> string" where
  "string_of_bytes bs = map (\<lambda>b. char_of (unat b)) bs"

definition as_bytes :: "string \<Rightarrow> bytes" where
  "as_bytes s = map (\<lambda>c. word_of_nat (of_char c)) s"

definition from_utf8_lossy :: "bytes \<Rightarrow> string" where
  "from_utf8_lossy bs = string_of_bytes (utf8_lossy bs)"

text \<open>Valid UTF-8: every decoding round succeeds.\<close>

function utf8_valid :: "bytes \<Rightarrow> bool" where
  "utf8_valid bs =
     (if bs = [] then True
      else let (ok, n) = utf8_step bs in if ok then utf8_valid (drop n bs) else False)"
  by pat_completeness auto
termination
proof (relation "measure length", goal_cases)
  case (2 bs x ok n)
  then have "0 < n" using utf8_step_pos [of bs] by (metis snd_conv)
  with 2 show ?case by simp
qed simp

declare utf8_valid.simps [simp del]

lemma utf8_lossy_valid: "utf8_valid bs \<Longrightarrow> utf8_lossy bs = bs"
proof (induction bs rule: utf8_valid.induct)
  case (1 bs)
  show ?case
  proof (cases "bs = []")
    case False
    obtain ok n where st: "utf8_step bs = (ok, n)" by (cases "utf8_step bs")
    with False 1 have "ok" "utf8_lossy (drop n bs) = drop n bs"
      by (auto simp: utf8_valid.simps [of bs] split: if_splits)
    with False st show ?thesis by (simp add: utf8_lossy.simps [of bs])
  qed (simp add: utf8_lossy.simps)
qed

lemma unat_of_char [simp]: "unat (word_of_nat (of_char c) :: u8) = of_char c"
  by (subst unat_of_nat) simp

lemma string_of_bytes_as_bytes [simp]: "string_of_bytes (as_bytes s) = s"
  by (induction s) (simp_all add: string_of_bytes_def as_bytes_def)

lemma word_of_char_of [simp]: "word_of_nat (of_char (char_of (unat b))) = (b :: u8)"
  by simp

lemma as_bytes_string_of_bytes [simp]: "as_bytes (string_of_bytes bs) = bs"
  by (induction bs) (simp_all add: string_of_bytes_def as_bytes_def)

lemma length_as_bytes [simp]: "length (as_bytes s) = length s"
  by (simp add: as_bytes_def)

lemma from_utf8_lossy_as_bytes [text_simps]:
  "utf8_valid (as_bytes s) \<Longrightarrow> from_utf8_lossy (as_bytes s) = s"
  by (simp add: from_utf8_lossy_def utf8_lossy_valid)

lemma utf8_valid_ascii: "\<forall>b\<in>set bs. unat b < 128 \<Longrightarrow> utf8_valid bs"
proof (induction bs)
  case (Cons b bs)
  then show ?case
    by (simp add: utf8_valid.simps [of "b # bs"] utf8_step_def safe_get_def utf8_char_width_def Let_def)
qed (simp add: utf8_valid.simps)

section \<open>IP addresses\<close>

datatype ipv4 = Ipv4 u8 u8 u8 u8

datatype ipv6 = Ipv6 u16 u16 u16 u16 u16 u16 u16 u16

datatype ip_addr = V4 ipv4 | V6 ipv6

text \<open>\<^verbatim>\<open>SocketAddr\<close>; the IPv6 form carries a flow label and a scope id.\<close>

datatype socket_addr =
  SocketAddrV4 ipv4 u16
| SocketAddrV6 ipv6 u16 u32 u32

fun sock_new :: "ip_addr \<Rightarrow> u16 \<Rightarrow> socket_addr" where
  "sock_new (V4 a) p = SocketAddrV4 a p"
| "sock_new (V6 a) p = SocketAddrV6 a p 0 0"

fun sock_ip :: "socket_addr \<Rightarrow> ip_addr" where
  "sock_ip (SocketAddrV4 a p) = V4 a"
| "sock_ip (SocketAddrV6 a p f s) = V6 a"

fun sock_port :: "socket_addr \<Rightarrow> u16" where
  "sock_port (SocketAddrV4 a p) = p"
| "sock_port (SocketAddrV6 a p f s) = p"

fun is_ipv6 :: "socket_addr \<Rightarrow> bool" where
  "is_ipv6 (SocketAddrV4 a p) = False"
| "is_ipv6 (SocketAddrV6 a p f s) = True"

fun octets4 :: "ipv4 \<Rightarrow> bytes" where
  "octets4 (Ipv4 a b c d) = [a, b, c, d]"

fun segments :: "ipv6 \<Rightarrow> u16 list" where
  "segments (Ipv6 a b c d e f g h) = [a, b, c, d, e, f, g, h]"

definition of_segments :: "u16 list \<Rightarrow> ipv6" where
  "of_segments xs = Ipv6 (xs ! 0) (xs ! 1) (xs ! 2) (xs ! 3) (xs ! 4) (xs ! 5) (xs ! 6) (xs ! 7)"

definition octets6 :: "ipv6 \<Rightarrow> bytes" where
  "octets6 a = concat (map be_bytes16 (segments a))"

definition of_octets6 :: "bytes \<Rightarrow> ipv6" where
  "of_octets6 bs = of_segments (map (\<lambda>i. from_be_bytes16 (bs ! (2 * i)) (bs ! (2 * i + 1))) [0..<8])"

fun is_unspecified :: "ip_addr \<Rightarrow> bool" where
  "is_unspecified (V4 a) = (octets4 a = [0, 0, 0, 0])"
| "is_unspecified (V6 a) = (segments a = [0, 0, 0, 0, 0, 0, 0, 0])"

subsection \<open>Display\<close>

definition show_ipv4 :: "ipv4 \<Rightarrow> string" where
  "show_ipv4 a = join ''.'' (map show_word (octets4 a))"

fun to_ipv4_mapped :: "ipv6 \<Rightarrow> ipv4 option" where
  "to_ipv4_mapped (Ipv6 a b c d e f g h) =
     (if [a, b, c, d, e, f] = [0, 0, 0, 0, 0, 65535]
      then Some (Ipv4 (be_bytes16 g ! 0) (be_bytes16 g ! 1) (be_bytes16 h ! 0) (be_bytes16 h ! 1))
      else None)"

text \<open>The first longest run of zero segments: \<^verbatim>\<open>cs\<close>, \<^verbatim>\<open>cl\<close> is the current run and
  \<^verbatim>\<open>ls\<close>, \<^verbatim>\<open>ll\<close> the longest so far.\<close>

fun zero_span :: "nat \<Rightarrow> nat \<Rightarrow> nat \<Rightarrow> nat \<Rightarrow> nat \<Rightarrow> u16 list \<Rightarrow> nat \<times> nat" where
  "zero_span i cs cl ls ll [] = (ls, ll)"
| "zero_span i cs cl ls ll (x # xs) =
     (if x = 0 then
        let cs' = (if cl = 0 then i else cs); cl' = Suc cl in
        if cl' > ll then zero_span (Suc i) cs' cl' cs' cl' xs
        else zero_span (Suc i) cs' cl' ls ll xs
      else zero_span (Suc i) 0 0 ls ll xs)"

definition show_hex :: "u16 \<Rightarrow> string" where
  "show_hex w = show_radix 16 (unat w)"

definition fmt_subslice :: "u16 list \<Rightarrow> string" where
  "fmt_subslice gs = join '':'' (map show_hex gs)"

definition show_ipv6 :: "ipv6 \<Rightarrow> string" where
  "show_ipv6 a =
     (case to_ipv4_mapped a of
        Some v4 \<Rightarrow> ''::ffff:'' @ show_ipv4 v4
      | None \<Rightarrow>
          let (start, len) = zero_span 0 0 0 0 0 (segments a) in
          if 1 < len then
            fmt_subslice (take start (segments a)) @ ''::'' @
            fmt_subslice (drop (start + len) (segments a))
          else fmt_subslice (segments a))"

fun show_ip :: "ip_addr \<Rightarrow> string" where
  "show_ip (V4 a) = show_ipv4 a"
| "show_ip (V6 a) = show_ipv6 a"

fun show_sock :: "socket_addr \<Rightarrow> string" where
  "show_sock (SocketAddrV4 a p) = show_ipv4 a @ '':'' @ show_word p"
| "show_sock (SocketAddrV6 a p f s) =
     ''['' @ show_ipv6 a @ (if s = 0 then [] else ''%'' @ show_word s) @ '']:'' @ show_word p"

subsection \<open>Parser\<close>

text \<open>Parser actions return the value with the remaining input, or \<^term>\<open>None\<close> with the
  input not consumed (\<^verbatim>\<open>read_atomically\<close>).\<close>

definition digits_value :: "nat \<Rightarrow> string \<Rightarrow> nat" where
  "digits_value r s = foldl (\<lambda>a c. a * r + (case to_digit r c of Some d \<Rightarrow> d | None \<Rightarrow> 0)) 0 s"

definition read_number ::
  "nat \<Rightarrow> nat option \<Rightarrow> bool \<Rightarrow> nat \<Rightarrow> string \<Rightarrow> (nat \<times> string) option" where
  "read_number r max_digits allow_zero_prefix bound s =
     (let ds = takeWhile (is_digit r) s; rest = dropWhile (is_digit r) s; v = digits_value r ds in
      if (case max_digits of Some k \<Rightarrow> k < length ds | None \<Rightarrow> False) then None
      else if ds = [] then None
      else if \<not> allow_zero_prefix \<and> hd ds = CHR ''0'' \<and> 1 < length ds then None
      else if bound < v then None
      else Some (v, rest))"

fun read_given_char :: "char \<Rightarrow> string \<Rightarrow> string option" where
  "read_given_char c [] = None"
| "read_given_char c (x # xs) = (if x = c then Some xs else None)"

definition read_separator ::
  "char \<Rightarrow> nat \<Rightarrow> (string \<Rightarrow> ('a \<times> string) option) \<Rightarrow> string \<Rightarrow> ('a \<times> string) option" where
  "read_separator sep i p s =
     (if 0 < i then Option.bind (read_given_char sep s) p else p s)"

definition read_octet :: "string \<Rightarrow> (nat \<times> string) option" where
  "read_octet = read_number 10 (Some 3) False 255"

definition read_ipv4_addr :: "string \<Rightarrow> (ipv4 \<times> string) option" where
  "read_ipv4_addr s = do {
     (a, s) \<leftarrow> read_separator (CHR ''.'') 0 read_octet s;
     (b, s) \<leftarrow> read_separator (CHR ''.'') 1 read_octet s;
     (c, s) \<leftarrow> read_separator (CHR ''.'') 2 read_octet s;
     (d, s) \<leftarrow> read_separator (CHR ''.'') 3 read_octet s;
     Some (Ipv4 (word_of_nat a) (word_of_nat b) (word_of_nat c) (word_of_nat d), s)
   }"

definition read_group :: "string \<Rightarrow> (nat \<times> string) option" where
  "read_group = read_number 16 (Some 4) True 65535"

fun read_groups :: "nat \<Rightarrow> nat \<Rightarrow> string \<Rightarrow> u16 list \<times> bool \<times> string" where
  "read_groups i 0 s = ([], False, s)"
| "read_groups i (Suc k) s =
     (case (if 0 < k then read_separator (CHR '':'') i read_ipv4_addr s else None) of
        Some (Ipv4 a b c d, s') \<Rightarrow> ([from_be_bytes16 a b, from_be_bytes16 c d], True, s')
      | None \<Rightarrow>
          (case read_separator (CHR '':'') i read_group s of
             None \<Rightarrow> ([], False, s)
           | Some (g, s') \<Rightarrow>
               (case read_groups (Suc i) k s' of
                  (gs, v4, rest) \<Rightarrow> (word_of_nat g # gs, v4, rest))))"

definition read_ipv6_addr :: "string \<Rightarrow> (ipv6 \<times> string) option" where
  "read_ipv6_addr s =
     (case read_groups 0 8 s of
        (head, head_ipv4, s1) \<Rightarrow>
          if length head = 8 then Some (of_segments head, s1)
          else if head_ipv4 then None
          else do {
            s2 \<leftarrow> read_given_char (CHR '':'') s1;
            s3 \<leftarrow> read_given_char (CHR '':'') s2;
            (case read_groups 0 (8 - (length head + 1)) s3 of
               (tail, _, s4) \<Rightarrow>
                 Some (of_segments (head @ replicate (8 - length head - length tail) 0 @ tail), s4))
          })"

text \<open>\<^verbatim>\<open>parse_with\<close>: the whole input must be consumed.\<close>

definition parse_with :: "(string \<Rightarrow> ('a \<times> string) option) \<Rightarrow> string \<Rightarrow> 'a option" where
  "parse_with p s = (case p s of Some (a, []) \<Rightarrow> Some a | _ \<Rightarrow> None)"

definition parse_ipv4 :: "string \<Rightarrow> ipv4 option" where
  "parse_ipv4 s = (if 15 < length s then None else parse_with read_ipv4_addr s)"

definition parse_ipv6 :: "string \<Rightarrow> ipv6 option" where
  "parse_ipv6 s = parse_with read_ipv6_addr s"

definition read_ip_addr :: "string \<Rightarrow> (ip_addr \<times> string) option" where
  "read_ip_addr s =
     (case read_ipv4_addr s of
        Some (a, r) \<Rightarrow> Some (V4 a, r)
      | None \<Rightarrow> map_option (\<lambda>(a, r). (V6 a, r)) (read_ipv6_addr s))"

definition parse_ip_addr :: "string \<Rightarrow> ip_addr option" where
  "parse_ip_addr s = parse_with read_ip_addr s"

definition read_port :: "string \<Rightarrow> (u16 \<times> string) option" where
  "read_port s = do {
     s \<leftarrow> read_given_char (CHR '':'') s;
     (n, s) \<leftarrow> read_number 10 None True 65535 s;
     Some (word_of_nat n, s)
   }"

definition read_scope_id :: "string \<Rightarrow> (u32 \<times> string) option" where
  "read_scope_id s = do {
     s \<leftarrow> read_given_char (CHR ''%'') s;
     (n, s) \<leftarrow> read_number 10 None True 4294967295 s;
     Some (word_of_nat n, s)
   }"

definition read_socket_addr_v6 :: "string \<Rightarrow> (socket_addr \<times> string) option" where
  "read_socket_addr_v6 s = do {
     s \<leftarrow> read_given_char (CHR ''['') s;
     (a, s) \<leftarrow> read_ipv6_addr s;
     let (scope, s) = (case read_scope_id s of Some (n, s') \<Rightarrow> (n, s') | None \<Rightarrow> (0, s));
     s \<leftarrow> read_given_char (CHR '']'') s;
     (p, s) \<leftarrow> read_port s;
     Some (SocketAddrV6 a p 0 scope, s)
   }"

definition read_socket_addr :: "string \<Rightarrow> (socket_addr \<times> string) option" where
  "read_socket_addr s =
     (case (do { (a, r) \<leftarrow> read_ipv4_addr s; (p, r) \<leftarrow> read_port r; Some (SocketAddrV4 a p, r) }) of
        Some x \<Rightarrow> Some x
      | None \<Rightarrow> read_socket_addr_v6 s)"

definition parse_socket_addr :: "string \<Rightarrow> socket_addr option" where
  "parse_socket_addr s = parse_with read_socket_addr s"

subsection \<open>Printed numbers read back\<close>

definition stops :: "nat \<Rightarrow> string \<Rightarrow> bool" where
  "stops r s \<longleftrightarrow> (case s of [] \<Rightarrow> True | c # _ \<Rightarrow> \<not> is_digit r c)"

lemma stops_simps [simp]: "stops r []" "stops r (c # s) \<longleftrightarrow> \<not> is_digit r c"
  by (simp_all add: stops_def)

lemma takeWhile_show_radix:
  assumes "2 \<le> r" "r \<le> 16" "stops r rest"
  shows "takeWhile (is_digit r) (show_radix r n @ rest) = show_radix r n"
    and "dropWhile (is_digit r) (show_radix r n @ rest) = rest"
proof -
  have all: "\<forall>c\<in>set (show_radix r n). is_digit r c"
    using show_radix_digits [OF assms(1,2)] by blast
  then show "takeWhile (is_digit r) (show_radix r n @ rest) = show_radix r n"
    using assms(3) by (cases rest) (simp_all add: takeWhile_append2)
  show "dropWhile (is_digit r) (show_radix r n @ rest) = rest"
    using all assms(3) by (cases rest) (simp_all add: dropWhile_append2)
qed

lemma digits_value_show_radix:
  "2 \<le> r \<Longrightarrow> r \<le> 16 \<Longrightarrow> digits_value r (show_radix r n) = n"
proof (induction r n rule: show_radix.induct)
  case (1 r n)
  then show ?case
    by (cases "n < r") (simp_all add: show_radix.simps [of r n] digits_value_def)
qed

lemma read_number_show_radix:
  assumes "2 \<le> r" "r \<le> 16" "stops r rest" "n \<le> bound"
    and "\<And>k. max_digits = Some k \<Longrightarrow> length (show_radix r n) \<le> k"
  shows "read_number r max_digits zp bound (show_radix r n @ rest) = Some (n, rest)"
proof -
  have "hd (show_radix r n) = CHR ''0'' \<Longrightarrow> length (show_radix r n) = 1"
  proof -
    assume "hd (show_radix r n) = CHR ''0''"
    then have "n = 0" by (rule hd_show_radix_zero [OF assms(1,2)])
    with assms(1) show ?thesis by (simp add: show_radix.simps [of r 0])
  qed
  with assms show ?thesis
    by (auto simp: read_number_def takeWhile_show_radix digits_value_show_radix Let_def
        split: option.splits)
qed

lemma length_show_word_u8: "length (show_word (w :: u8)) \<le> 3"
  unfolding show_nat_def by (rule length_show_radix) (simp_all add: order_less_trans [OF unat_u8_bound])

lemma length_show_hex: "length (show_hex w) \<le> 4"
  unfolding show_hex_def by (rule length_show_radix) simp_all

lemma read_octet_show [simp]:
  "stops 10 rest \<Longrightarrow> read_octet (show_word (w :: u8) @ rest) = Some (unat w, rest)"
  using length_show_word_u8 [of w] unfolding read_octet_def show_nat_def
  by (intro read_number_show_radix) auto

lemma read_group_show [simp]:
  "stops 16 rest \<Longrightarrow> read_group (show_hex w @ rest) = Some (unat w, rest)"
  using length_show_hex [of w] unfolding read_group_def show_hex_def
  by (intro read_number_show_radix) auto

lemma read_port_show [simp]:
  "stops 10 rest \<Longrightarrow> read_port (CHR '':'' # show_word (p :: u16) @ rest) = Some (p, rest)"
  using read_number_show_radix [of 10 rest "unat p" 65535 None True]
  by (simp add: read_port_def show_nat_def)

lemma read_ipv4_addr_show:
  assumes "stops 10 rest"
  shows "read_ipv4_addr (show_ipv4 a @ rest) = Some (a, rest)"
proof (cases a)
  case (Ipv4 w x y z)
  with assms show ?thesis
    by (simp add: read_ipv4_addr_def read_separator_def show_ipv4_def)
qed

lemma length_show_ipv4: "length (show_ipv4 a) \<le> 15"
proof (cases a)
  case (Ipv4 w x y z)
  then show ?thesis
    using length_show_word_u8 [of w] length_show_word_u8 [of x]
      length_show_word_u8 [of y] length_show_word_u8 [of z]
    by (simp add: show_ipv4_def)
qed

lemma parse_ipv4_show [simp, text_simps]: "parse_ipv4 (show_ipv4 a) = Some a"
  using read_ipv4_addr_show [of "[]" a] length_show_ipv4 [of a]
  by (simp add: parse_ipv4_def parse_with_def)

lemma parse_ip_addr_show_ipv4 [simp]: "parse_ip_addr (show_ipv4 a) = Some (V4 a)"
  using read_ipv4_addr_show [of "[]" a]
  by (simp add: parse_ip_addr_def parse_with_def read_ip_addr_def)

subsection \<open>Printed IPv6 addresses read back\<close>

definition no_dot :: "string \<Rightarrow> bool" where
  "no_dot s \<longleftrightarrow> (case s of [] \<Rightarrow> True | c # _ \<Rightarrow> c \<noteq> CHR ''.'')"

lemma read_ipv4_addr_no_dot:
  assumes "no_dot (dropWhile (is_digit 10) s)"
  shows "read_ipv4_addr s = None"
proof (cases "read_octet s")
  case (Some x)
  then have "snd x = dropWhile (is_digit 10) s"
    by (auto simp: read_octet_def read_number_def Let_def split: if_splits)
  with assms have "read_given_char (CHR ''.'') (snd x) = None"
    by (cases "dropWhile (is_digit 10) s") (auto simp: no_dot_def)
  with Some show ?thesis
    by (cases x) (simp add: read_ipv4_addr_def read_separator_def)
qed (simp add: read_ipv4_addr_def read_separator_def)

lemma no_dot_dropWhile:
  "\<forall>c\<in>set xs. is_digit 16 c \<Longrightarrow> stops 10 rest \<Longrightarrow> no_dot rest \<Longrightarrow>
   no_dot (dropWhile (is_digit 10) (xs @ rest))"
proof (induction xs)
  case Nil
  then show ?case by (cases rest) simp_all
next
  case (Cons x xs)
  then have "x \<noteq> CHR ''.''" by auto
  with Cons show ?case by (auto simp: no_dot_def)
qed

lemma stops16_10: "stops 16 s \<Longrightarrow> stops 10 s"
  by (cases s) (auto dest: is_digit_mono [of 10 _ 16])

lemma show_hex_digits: "\<forall>c\<in>set (show_hex w). is_digit 16 c"
  unfolding show_hex_def by (auto intro: show_radix_digits)

lemma read_ipv4_addr_show_hex:
  "stops 16 rest \<Longrightarrow> no_dot rest \<Longrightarrow> read_ipv4_addr (show_hex w @ rest) = None"
  by (intro read_ipv4_addr_no_dot no_dot_dropWhile show_hex_digits stops16_10)

lemma read_group_stops: "stops 16 s \<Longrightarrow> read_group s = None"
  by (cases s) (simp_all add: read_group_def read_number_def)

lemma read_ipv4_addr_stops: "stops 10 s \<Longrightarrow> read_ipv4_addr s = None"
  by (cases s) (simp_all add: read_ipv4_addr_def read_separator_def read_octet_def read_number_def)

text \<open>Groups after the first, each with its separator; and what may follow the last group.\<close>

definition colons :: "u16 list \<Rightarrow> string" where
  "colons gs = concat (map (\<lambda>g. CHR '':'' # show_hex g) gs)"

lemma colons_simps [simp]: "colons [] = []" "colons (g # gs) = CHR '':'' # show_hex g @ colons gs"
  by (simp_all add: colons_def)

lemma fmt_subslice_Cons: "fmt_subslice (g # gs) = show_hex g @ colons gs"
  by (induction gs arbitrary: g) (simp_all add: fmt_subslice_def)

lemma fmt_subslice_Nil [simp]: "fmt_subslice [] = []"
  by (simp add: fmt_subslice_def)

definition ends_groups :: "string \<Rightarrow> bool" where
  "ends_groups s \<longleftrightarrow> stops 16 s \<and> no_dot s \<and> (\<forall>t. s = CHR '':'' # t \<longrightarrow> stops 16 t)"

lemma ends_groups_simps [simp]: "ends_groups []" "ends_groups (CHR '':'' # CHR '':'' # s)"
  "ends_groups (CHR '']'' # s)"
  by (simp_all add: ends_groups_def no_dot_def)

lemma ends_groups_colons:
  "ends_groups rest \<Longrightarrow> stops 16 (colons gs @ rest) \<and> no_dot (colons gs @ rest)"
  by (cases gs) (auto simp: ends_groups_def no_dot_def)

lemma read_groups_end:
  assumes "ends_groups rest" "0 < i \<or> stops 16 rest"
  shows "read_groups i k rest = ([], False, rest)"
proof (cases k)
  case (Suc j)
  have sep: "read_separator (CHR '':'') i p rest = None"
    if "\<And>s. stops 16 s \<Longrightarrow> p s = None" for p :: "string \<Rightarrow> ('a \<times> string) option"
  proof (cases rest)
    case (Cons c t)
    with assms that show ?thesis
      by (cases "c = CHR '':''") (auto simp: read_separator_def ends_groups_def)
  qed (use that in \<open>simp add: read_separator_def\<close>)
  show ?thesis using Suc
    by (simp add: sep read_group_stops read_ipv4_addr_stops stops16_10)
qed simp

lemma read_groups_colons:
  "length gs \<le> k \<Longrightarrow> ends_groups rest \<Longrightarrow>
   read_groups (Suc i) k (colons gs @ rest) = (gs, False, rest)"
proof (induction gs arbitrary: i k)
  case Nil
  then show ?case by (simp add: read_groups_end)
next
  case (Cons g gs)
  then obtain j where "k = Suc j" "length gs \<le> j" by (cases k) auto
  with Cons ends_groups_colons [of rest gs] show ?case
    by (auto simp: read_separator_def read_ipv4_addr_show_hex)
qed

lemma read_groups_fmt:
  assumes "length gs \<le> k" "ends_groups rest"
  shows "read_groups 0 k (fmt_subslice gs @ rest) = (gs, False, rest)"
proof (cases gs)
  case Nil
  with assms show ?thesis by (simp add: read_groups_end ends_groups_def)
next
  case (Cons g gs')
  with assms obtain j where "k = Suc j" "length gs' \<le> j" by (cases k) auto
  with Cons assms ends_groups_colons [of rest gs'] show ?thesis
    by (auto simp: fmt_subslice_Cons read_separator_def read_ipv4_addr_show_hex read_groups_colons)
qed

lemma length_segments [simp]: "length (segments a) = 8"
  by (cases a) simp

lemma of_segments_segments [simp]: "of_segments (segments a) = a"
  by (cases a) (simp add: of_segments_def)

lemma read_ipv6_full:
  "ends_groups rest \<Longrightarrow> read_ipv6_addr (fmt_subslice (segments a) @ rest) = Some (a, rest)"
  by (simp add: read_ipv6_addr_def read_groups_fmt)

lemma read_ipv6_compressed:
  assumes "length pre + length post \<le> 6" "ends_groups rest"
  shows "read_ipv6_addr (fmt_subslice pre @ ''::'' @ fmt_subslice post @ rest)
    = Some (of_segments (pre @ replicate (8 - length pre - length post) 0 @ post), rest)"
proof -
  have "read_groups 0 8 (fmt_subslice pre @ CHR '':'' # CHR '':'' # fmt_subslice post @ rest)
      = (pre, False, CHR '':'' # CHR '':'' # fmt_subslice post @ rest)"
    using assms by (intro read_groups_fmt) auto
  moreover have "read_groups 0 (8 - (length pre + 1)) (fmt_subslice post @ rest) = (post, False, rest)"
    using assms by (intro read_groups_fmt) auto
  ultimately show ?thesis
    using assms by (simp add: read_ipv6_addr_def)
qed

lemma zero_span_sound:
  assumes "zero_span i cs cl ls ll xs = (s, n)" "length ys = i"
    and "cl \<noteq> 0 \<Longrightarrow> cs + cl = i \<and> (\<forall>j. cs \<le> j \<and> j < i \<longrightarrow> ys ! j = 0)"
    and "ls + ll \<le> i \<and> (\<forall>j. ls \<le> j \<and> j < ls + ll \<longrightarrow> ys ! j = 0)"
  shows "s + n \<le> length (ys @ xs) \<and> (\<forall>j. s \<le> j \<and> j < s + n \<longrightarrow> (ys @ xs) ! j = 0)"
  using assms
proof (induction i cs cl ls ll xs arbitrary: ys rule: zero_span.induct)
  case (1 i cs cl ls ll)
  then show ?case by (auto simp: nth_append)
next
  case (2 i cs cl ls ll x xs)
  define cs' where "cs' = (if cl = 0 then i else cs)"
  note len = \<open>length ys = i\<close>
  have sp: "cs' + Suc cl = Suc i \<and> (\<forall>j. cs' \<le> j \<and> j < Suc i \<longrightarrow> (ys @ [x]) ! j = 0)" if "x = 0"
    using "2.prems" that by (auto simp: cs'_def nth_append less_Suc_eq)
  have lg: "ls + ll \<le> Suc i \<and> (\<forall>j. ls \<le> j \<and> j < ls + ll \<longrightarrow> (ys @ [x]) ! j = 0)"
    using "2.prems" by (auto simp: nth_append)
  show ?case
  proof (cases "x = 0")
    case True
    then show ?thesis
      using "2.IH"(1,2) [of cs' "Suc cl" "ys @ [x]"] "2.prems" sp lg len
      by (auto simp: cs'_def Let_def split: if_splits)
  next
    case False
    then show ?thesis
      using "2.IH"(3) [of "ys @ [x]"] "2.prems" lg len by simp
  qed
qed


lemma split_at_span:
  assumes "s + n \<le> length xs" "\<And>j. s \<le> j \<Longrightarrow> j < s + n \<Longrightarrow> xs ! j = z"
  shows "take s xs @ replicate n z @ drop (s + n) xs = xs"
  using assms by (intro nth_equalityI) (auto simp: nth_append not_less)

lemma from_be_bytes16_parts [simp]:
  "from_be_bytes16 (word_of_nat (unat w div 256)) (ucast w) = w"
proof -
  have "(word_of_nat (unat w) :: u8) = ucast w" by simp
  then show ?thesis
    using from_be_bytes16_be_bytes16 [of w] by (simp add: be_bytes16_def)
qed

lemma read_ipv6_mapped:
  assumes "stops 10 rest"
  shows "read_ipv6_addr (''::ffff:'' @ show_ipv4 (Ipv4 a b c d) @ rest)
    = Some (Ipv6 0 0 0 0 0 65535 (from_be_bytes16 a b) (from_be_bytes16 c d), rest)"
proof -
  let ?v4 = "show_ipv4 (Ipv4 a b c d)"
  have hex: "show_hex 65535 = ''ffff''"
    by (simp add: show_hex_def show_radix.simps digit_char_def char_of_eq_iff)
  have "read_groups 0 8 (''::ffff:'' @ ?v4 @ rest) = ([], False, ''::ffff:'' @ ?v4 @ rest)"
    by (simp add: read_groups_end)
  moreover have "read_ipv4_addr (''ffff'' @ CHR '':'' # ?v4 @ rest) = None"
    unfolding hex [symmetric] by (rule read_ipv4_addr_show_hex) (simp_all add: no_dot_def)
  moreover have "read_group (''ffff'' @ CHR '':'' # ?v4 @ rest) = Some (65535, CHR '':'' # ?v4 @ rest)"
    using read_group_show [of "CHR '':'' # ?v4 @ rest" 65535] unfolding hex by simp
  ultimately show ?thesis
    using read_ipv4_addr_show [OF assms, of "Ipv4 a b c d"]
      read_groups.simps(2) [of 0 6 "''ffff:'' @ ?v4 @ rest"] read_groups.simps(2) [of 1 5 "'':'' @ ?v4 @ rest"]
    by (simp add: read_ipv6_addr_def read_separator_def of_segments_def nth_append)
qed

lemma read_ipv6_addr_show:
  assumes "ends_groups rest"
  shows "read_ipv6_addr (show_ipv6 a @ rest) = Some (a, rest)"
proof (cases "to_ipv4_mapped a")
  case (Some v4)
  then show ?thesis
    using assms read_ipv6_mapped [of rest]
    by (cases a) (auto simp: show_ipv6_def be_bytes16_def from_be_bytes16_be_bytes16
        ends_groups_def stops16_10 split: if_splits)
next
  case None
  obtain s n where sp: "zero_span 0 0 0 0 0 (segments a) = (s, n)"
    by (cases "zero_span 0 0 0 0 0 (segments a)")
  then have z: "s + n \<le> 8" "\<And>j. s \<le> j \<Longrightarrow> j < s + n \<Longrightarrow> segments a ! j = 0"
    using zero_span_sound [OF sp, of "[]"] by auto
  show ?thesis
  proof (cases "1 < n")
    case True
    let ?pre = "take s (segments a)" and ?post = "drop (s + n) (segments a)"
    have "8 - length ?pre - length ?post = n" using z by simp
    then have "of_segments (?pre @ replicate (8 - length ?pre - length ?post) 0 @ ?post) = a"
      using split_at_span [of s n "segments a" 0] z by simp
    with True None sp assms read_ipv6_compressed [of ?pre ?post rest] z show ?thesis
      by (simp add: show_ipv6_def)
  next
    case False
    with None sp assms show ?thesis by (simp add: show_ipv6_def read_ipv6_full)
  qed
qed

lemma parse_ipv6_show [simp, text_simps]: "parse_ipv6 (show_ipv6 a) = Some a"
  using read_ipv6_addr_show [of "[]" a] by (simp add: parse_ipv6_def parse_with_def)

subsection \<open>Socket addresses and address octets\<close>

lemma read_ipv4_addr_fmt_subslice:
  assumes "stops 16 rest" "no_dot rest"
  shows "read_ipv4_addr (fmt_subslice gs @ rest) = None"
proof (cases gs)
  case Nil
  with assms show ?thesis by (simp add: read_ipv4_addr_stops stops16_10)
next
  case (Cons g gs')
  with assms show ?thesis
    by (cases gs') (simp_all add: fmt_subslice_Cons read_ipv4_addr_show_hex no_dot_def)
qed

lemma read_ipv4_addr_show_ipv6: "read_ipv4_addr (show_ipv6 a) = None"
proof (cases "to_ipv4_mapped a")
  case None
  then show ?thesis
    using read_ipv4_addr_fmt_subslice [of "[]"]
    by (auto simp: show_ipv6_def no_dot_def read_ipv4_addr_fmt_subslice split: prod.splits)
qed (simp add: show_ipv6_def read_ipv4_addr_stops)

lemma parse_ip_addr_show_ipv6 [simp]: "parse_ip_addr (show_ipv6 a) = Some (V6 a)"
  using read_ipv6_addr_show [of "[]" a]
  by (simp add: parse_ip_addr_def parse_with_def read_ip_addr_def read_ipv4_addr_show_ipv6)

lemma unat_u32_bound: "unat (n :: u32) < 4294967296"
  using unsigned_less [of n, where ?'a = nat] by simp

lemma unat_u32_le: "unat (n :: u32) \<le> 4294967295"
  using unat_u32_bound [of n] by linarith

lemma read_scope_id_show:
  assumes "stops 10 rest"
  shows "read_scope_id (CHR ''%'' # show_word (n :: u32) @ rest) = Some (n, rest)"
proof -
  have "read_number 10 None True 4294967295 (show_radix 10 (unat n) @ rest)
      = Some (unat n, rest)"
    by (rule read_number_show_radix) (use assms unat_u32_le [of n] in simp_all)
  then show ?thesis by (simp add: read_scope_id_def show_nat_def)
qed

lemma ends_groups_bracket [simp]: "ends_groups (CHR '']'' # s)" "ends_groups (CHR ''%'' # s)"
  by (simp_all add: ends_groups_def no_dot_def)

lemma read_socket_addr_v6_show:
  "read_socket_addr_v6 (show_sock (SocketAddrV6 a p f s)) = Some (SocketAddrV6 a p 0 s, [])"
proof -
  have port: "read_port (CHR '':'' # show_word p) = Some (p, [])"
    using read_port_show [of "[]" p] by simp
  show ?thesis
  proof (cases "s = 0")
    case True
    with port show ?thesis
      by (simp add: read_socket_addr_v6_def read_ipv6_addr_show read_scope_id_def)
  next
    case False
    with port show ?thesis
      by (simp add: read_socket_addr_v6_def read_ipv6_addr_show read_scope_id_show)
  qed
qed

text \<open>The printed form of a socket address carries no flow label.\<close>

fun drop_flow :: "socket_addr \<Rightarrow> socket_addr" where
  "drop_flow (SocketAddrV4 a p) = SocketAddrV4 a p"
| "drop_flow (SocketAddrV6 a p f s) = SocketAddrV6 a p 0 s"

lemma parse_socket_addr_show [text_simps]: "parse_socket_addr (show_sock x) = Some (drop_flow x)"
proof (cases x)
  case (SocketAddrV4 a p)
  then show ?thesis
    using read_port_show [of "[]" p]
    by (simp add: parse_socket_addr_def parse_with_def read_socket_addr_def read_ipv4_addr_show)
next
  case (SocketAddrV6 a p f s)
  moreover have "read_ipv4_addr (CHR ''['' # t) = None" for t
    by (rule read_ipv4_addr_stops) simp
  ultimately show ?thesis
    using read_socket_addr_v6_show [of a p f s]
    by (simp add: parse_socket_addr_def parse_with_def read_socket_addr_def)
qed

lemma sock_new_ip_port [simp]: "sock_ip (sock_new i p) = i" "sock_port (sock_new i p) = p"
  by (cases i; simp)+

lemma drop_flow_sock_new [simp]: "drop_flow (sock_new i p) = sock_new i p"
  by (cases i) simp_all

lemma of_octets6_octets6 [simp]: "of_octets6 (octets6 a) = a"
  by (cases a) (simp add: of_octets6_def octets6_def of_segments_def be_bytes16_def upt_rec)

lemma length_octets6 [simp]: "length (octets6 a) = 16"
  by (cases a) (simp add: octets6_def be_bytes16_def)

lemma length_octets4 [simp]: "length (octets4 a) = 4"
  by (cases a) simp

subsection \<open>The text interface of addresses\<close>

locale addr_text =
  fixes show_addr :: "'a \<Rightarrow> string" and parse_addr :: "string \<Rightarrow> 'a option"
  assumes parse_show: "parse_addr (show_addr a) = Some a"
begin

lemma show_inj: "show_addr a = show_addr b \<longleftrightarrow> a = b"
  by (metis option.inject parse_show)

lemma show_nonempty: "parse_addr [] = None \<Longrightarrow> show_addr a \<noteq> []"
  by (metis option.distinct(1) parse_show)

end

interpretation v4: addr_text show_ipv4 parse_ipv4
  by unfold_locales simp

interpretation v6: addr_text show_ipv6 parse_ipv6
  by unfold_locales simp

interpretation ip: addr_text show_ip parse_ip_addr
proof unfold_locales
  show "parse_ip_addr (show_ip a) = Some a" for a by (cases a) simp_all
qed

end
