(* ===== verification/Remote.thy ===== *)
theory Remote
  imports Rust_Text
begin

text \<open>
  Tunnel declarations (\<^verbatim>\<open>src/src/common/remote.rs\<close>): the data types of a remote, the
  control frames of the session protocol, and the parser of the command-line syntax
  \<^verbatim>\<open>[R:][local_host:][local_port:]remote_host:remote_port[/proto]\<close> with its \<^verbatim>\<open>socks\<close> and
  \<^verbatim>\<open>stdio\<close> forms. Every \<^verbatim>\<open>anyhow!\<close> of the parser is a constructor of \<^verbatim>\<open>remote_error\<close>.

  The tokenizer is characterised exactly (a list of tokens is returned iff they are
  well formed and joining them with colons gives the input), and the parser is shown
  equivalent to the declarative grammar \<^verbatim>\<open>remote_syntax\<close>, whose rules have no order.
\<close>

section \<open>Data\<close>

datatype protocol = Tcp | Udp

datatype direction = Forward | Reverse

record host_port =
  host :: string
  port :: u16

definition host_port_new :: "string \<Rightarrow> u16 \<Rightarrow> host_port" where
  "host_port_new h p = \<lparr> host = h, port = p \<rparr>"

datatype remote_kind =
  Tcp socket_addr host_port
| Udp socket_addr host_port
| Socks5 socket_addr

record remote_request =
  direction :: direction
  kind :: remote_kind
  stdio :: bool

definition remote_request_new :: "direction \<Rightarrow> remote_kind \<Rightarrow> remote_request" where
  "remote_request_new d k = \<lparr> direction = d, kind = k, stdio = False \<rparr>"

record session_hello =
  remotes :: "remote_request list"

datatype session_hello_response =
  HelloOk "u64 list"
| HelloFailed string

datatype dynamic_target =
  DynTcp host_port
| DynUdp host_port

record open_conn =
  tunnel_id :: u64
  dynamic :: "dynamic_target option"

datatype open_conn_response =
  OpenOk
| OpenFailed string

section \<open>Accessors and printing\<close>

definition to_addr_string :: "host_port \<Rightarrow> string" where
  "to_addr_string hp =
     (if parse_ipv6 (host hp) \<noteq> None then ''['' @ host hp @ '']:'' @ show_word (port hp)
      else host hp @ '':'' @ show_word (port hp))"

fun local_addr :: "remote_kind \<Rightarrow> socket_addr" where
  "local_addr (remote_kind.Tcp l r) = l"
| "local_addr (remote_kind.Udp l r) = l"
| "local_addr (Socks5 l) = l"

fun protocol_of :: "remote_kind \<Rightarrow> protocol option" where
  "protocol_of (remote_kind.Tcp l r) = Some protocol.Tcp"
| "protocol_of (remote_kind.Udp l r) = Some protocol.Udp"
| "protocol_of (Socks5 l) = None"

definition is_socks :: "remote_request \<Rightarrow> bool" where
  "is_socks r = (case kind r of Socks5 _ \<Rightarrow> True | _ \<Rightarrow> False)"

definition is_reversed :: "remote_request \<Rightarrow> bool" where
  "is_reversed r = (case direction r of Reverse \<Rightarrow> True | Forward \<Rightarrow> False)"

definition is_stdio :: "remote_request \<Rightarrow> bool" where
  "is_stdio r = stdio r"

definition local_socket_addr :: "remote_request \<Rightarrow> socket_addr" where
  "local_socket_addr r = local_addr (kind r)"

definition remote_addr_string :: "remote_request \<Rightarrow> string option" where
  "remote_addr_string r =
     (case kind r of
        remote_kind.Tcp _ hp \<Rightarrow> Some (to_addr_string hp)
      | remote_kind.Udp _ hp \<Rightarrow> Some (to_addr_string hp)
      | Socks5 _ \<Rightarrow> None)"

fun show_protocol :: "protocol \<Rightarrow> string" where
  "show_protocol protocol.Tcp = ''tcp''"
| "show_protocol protocol.Udp = ''udp''"

definition show_remote :: "remote_request \<Rightarrow> string" where
  "show_remote r =
     (if is_reversed r then ''R:'' else []) @
     (if stdio r then
        (case kind r of
           remote_kind.Tcp _ hp \<Rightarrow> ''stdio=>'' @ to_addr_string hp @ ''/tcp''
         | remote_kind.Udp _ hp \<Rightarrow> ''stdio=>'' @ to_addr_string hp @ ''/udp''
         | Socks5 _ \<Rightarrow> ''stdio=>socks'')
      else
        (case kind r of
           Socks5 l \<Rightarrow> show_word (sock_port l) @ ''=>socks''
         | remote_kind.Tcp l hp \<Rightarrow> show_word (sock_port l) @ ''=>'' @ to_addr_string hp @ ''/tcp''
         | remote_kind.Udp l hp \<Rightarrow> show_word (sock_port l) @ ''=>'' @ to_addr_string hp @ ''/udp''))"

section \<open>Parser\<close>

definition socks_keyword :: string where "socks_keyword = ''socks''"

definition stdio_keyword :: string where "stdio_keyword = ''stdio''"

definition any_v4_text :: string where "any_v4_text = ''0.0.0.0''"

definition socks_default_local_text :: string where "socks_default_local_text = ''127.0.0.1''"

definition socks_default_port :: u16 where "socks_default_port = 1080"

definition stdio_default_remote_host :: string where "stdio_default_remote_host = ''127.0.0.1''"

datatype remote_error =
  MissingAfterRColon
| MissingAfterR
| InvalidProtocol
| UnterminatedBracket
| ExpectedColonAfterBracket
| TrailingColonAfterBracket
| TrailingColon
| Invalid string
| MissingParts
| UnexpectedParts
| StdioReversed
| StdioSocks
| StdioMissingRemote
| StdioShape

definition parse_direction :: "string \<Rightarrow> remote_error + direction \<times> string" where
  "parse_direction s =
     (case strip_prefix ''R:'' s of
        Some rest \<Rightarrow> if rest = [] then Inl MissingAfterRColon else Inr (Reverse, rest)
      | None \<Rightarrow> if s = ''R'' then Inl MissingAfterR else Inr (Forward, s))"

definition parse_protocol :: "string \<Rightarrow> remote_error + protocol option \<times> string" where
  "parse_protocol s =
     (case rsplit_once (CHR ''/'') s of
        Some (head, t) \<Rightarrow>
          if t = ''tcp'' then Inr (Some protocol.Tcp, head)
          else if t = ''udp'' then Inr (Some protocol.Udp, head)
          else Inl InvalidProtocol
      | None \<Rightarrow> Inr (None, s))"

fun position :: "('a \<Rightarrow> bool) \<Rightarrow> 'a list \<Rightarrow> nat option" where
  "position P [] = None"
| "position P (x # xs) = (if P x then Some 0 else map_option Suc (position P xs))"

text \<open>The argument is the rest of the input, \<^verbatim>\<open>bytes[i..]\<close>; the tokens pushed before it
  precede the result.\<close>

function split_addr_tokens :: "string \<Rightarrow> remote_error + string list" where
  "split_addr_tokens [] = Inr []"
| "split_addr_tokens (b # bs) =
     (if b = CHR ''['' then
        (case position (\<lambda>c. c = CHR '']'') bs of
           None \<Rightarrow> Inl UnterminatedBracket
         | Some close_rel \<Rightarrow>
             let token = take (close_rel + 2) (b # bs) in
             (case drop (close_rel + 2) (b # bs) of
                [] \<Rightarrow> Inr [token]
              | c # rest \<Rightarrow>
                  if c \<noteq> CHR '':'' then Inl ExpectedColonAfterBracket
                  else if rest = [] then Inl TrailingColonAfterBracket
                  else and_then (split_addr_tokens rest) (\<lambda>tokens. Inr (token # tokens))))
      else
        let next = (case position (\<lambda>c. c = CHR '':'') (b # bs) of
                      Some p \<Rightarrow> p | None \<Rightarrow> length (b # bs));
            token = take next (b # bs) in
        (case drop next (b # bs) of
           [] \<Rightarrow> Inr [token]
         | c # rest \<Rightarrow>
             if rest = [] then Inl TrailingColon
             else and_then (split_addr_tokens rest) (\<lambda>tokens. Inr (token # tokens))))"
  by pat_completeness auto

lemma drop_shorter: "drop n xs = c # rest \<Longrightarrow> length rest < length xs"
  by (drule arg_cong [of _ _ length]) simp

termination split_addr_tokens
  by (relation "measure length") (auto dest!: drop_shorter)

definition unbracket :: "string \<Rightarrow> string" where
  "unbracket s =
     (if 2 \<le> length s \<and> hd s = CHR ''['' \<and> last s = CHR '']''
      then take (length s - 2) (drop 1 s) else s)"

definition parse_ip :: "string \<Rightarrow> string \<Rightarrow> remote_error + ip_addr" where
  "parse_ip s what = ok_or (Invalid what) (parse_ip_addr (unbracket s))"

definition parse_port :: "string \<Rightarrow> string \<Rightarrow> remote_error + u16" where
  "parse_port s what = map_err (\<lambda>_. Invalid what) (parse_u16 s)"

definition any_v4 :: ip_addr where
  "any_v4 = (case parse_ip_addr any_v4_text of Some a \<Rightarrow> a | None \<Rightarrow> V4 (Ipv4 0 0 0 0))"

definition socks_default_local :: ip_addr where
  "socks_default_local =
     (case parse_ip_addr socks_default_local_text of Some a \<Rightarrow> a | None \<Rightarrow> V4 (Ipv4 127 0 0 1))"

definition make_host_port_kind :: "socket_addr \<Rightarrow> host_port \<Rightarrow> protocol option \<Rightarrow> remote_kind" where
  "make_host_port_kind l r protocol =
     (case (case protocol of Some p \<Rightarrow> p | None \<Rightarrow> protocol.Tcp) of
        protocol.Tcp \<Rightarrow> remote_kind.Tcp l r
      | protocol.Udp \<Rightarrow> remote_kind.Udp l r)"

definition parse_one_token :: "string \<Rightarrow> protocol option \<Rightarrow> remote_error + remote_kind" where
  "parse_one_token token protocol =
     (if token = socks_keyword then Inr (Socks5 (sock_new socks_default_local socks_default_port))
      else and_then (parse_port token ''remote port'') (\<lambda>p.
        Inr (make_host_port_kind (sock_new any_v4 p) (host_port_new any_v4_text p) protocol)))"

definition parse_two_tokens :: "string \<Rightarrow> string \<Rightarrow> protocol option \<Rightarrow> remote_error + remote_kind" where
  "parse_two_tokens t0 t1 protocol =
     (if t1 = socks_keyword then
        and_then (parse_port t0 ''remote port'') (\<lambda>local_port.
        Inr (Socks5 (sock_new socks_default_local local_port)))
      else
        let remote_host = unbracket t0 in
        and_then (parse_port t1 ''remote port'') (\<lambda>remote_port.
        Inr (make_host_port_kind (sock_new any_v4 remote_port)
               (host_port_new remote_host remote_port) protocol)))"

definition parse_three_tokens ::
  "string \<Rightarrow> string \<Rightarrow> string \<Rightarrow> protocol option \<Rightarrow> remote_error + remote_kind" where
  "parse_three_tokens t0 t1 t2 protocol =
     (if t2 = socks_keyword then
        and_then (parse_ip t0 ''local host'') (\<lambda>local_host.
        and_then (parse_port t1 ''local port'') (\<lambda>local_port.
        Inr (Socks5 (sock_new local_host local_port))))
      else
        and_then (parse_port t0 ''local port'') (\<lambda>local_port.
        let remote_host = unbracket t1 in
        and_then (parse_port t2 ''remote port'') (\<lambda>remote_port.
        Inr (make_host_port_kind (sock_new any_v4 local_port)
               (host_port_new remote_host remote_port) protocol))))"

definition parse_four_tokens ::
  "string \<Rightarrow> string \<Rightarrow> string \<Rightarrow> string \<Rightarrow> protocol option \<Rightarrow> remote_error + remote_kind" where
  "parse_four_tokens t0 t1 t2 t3 protocol =
     and_then (parse_ip t0 ''local host'') (\<lambda>local_host.
     and_then (parse_port t1 ''local port'') (\<lambda>local_port.
     let remote_host = unbracket t2 in
     and_then (parse_port t3 ''remote port'') (\<lambda>remote_port.
     Inr (make_host_port_kind (sock_new local_host local_port)
            (host_port_new remote_host remote_port) protocol))))"

fun tokens_to_kind :: "string list \<Rightarrow> protocol option \<Rightarrow> remote_error + remote_kind" where
  "tokens_to_kind [] protocol = Inl MissingParts"
| "tokens_to_kind [t0] protocol = parse_one_token t0 protocol"
| "tokens_to_kind [t0, t1] protocol = parse_two_tokens t0 t1 protocol"
| "tokens_to_kind [t0, t1, t2] protocol = parse_three_tokens t0 t1 t2 protocol"
| "tokens_to_kind [t0, t1, t2, t3] protocol = parse_four_tokens t0 t1 t2 t3 protocol"
| "tokens_to_kind _ protocol = Inl UnexpectedParts"

definition tokens_to_stdio_kind ::
  "string list \<Rightarrow> protocol option \<Rightarrow> remote_error + remote_kind" where
  "tokens_to_stdio_kind tokens protocol =
     (if socks_keyword \<in> set tokens then Inl StdioSocks
      else
        let l = sock_new any_v4 0 in
        (case tokens of
           [t0] \<Rightarrow>
             and_then (parse_port t0 ''remote port'') (\<lambda>p.
             Inr (make_host_port_kind l (host_port_new stdio_default_remote_host p) protocol))
         | [t0, t1] \<Rightarrow>
             let remote_host = unbracket t0 in
             and_then (parse_port t1 ''remote port'') (\<lambda>remote_port.
             Inr (make_host_port_kind l (host_port_new remote_host remote_port) protocol))
         | [] \<Rightarrow> Inl StdioMissingRemote
         | _ \<Rightarrow> Inl StdioShape))"

definition from_str :: "string \<Rightarrow> remote_error + remote_request" where
  "from_str input =
     and_then (parse_direction input) (\<lambda>(dir, after_dir).
     and_then (parse_protocol after_dir) (\<lambda>(protocol_hint, body).
     and_then (split_addr_tokens body) (\<lambda>tokens.
     and_then
       (if tokens \<noteq> [] \<and> hd tokens = stdio_keyword then
          if dir = Reverse then Inl StdioReversed else Inr (True, tl tokens)
        else Inr (False, tokens)) (\<lambda>(is_stdio, addr_tokens).
     and_then
       (if is_stdio then tokens_to_stdio_kind addr_tokens protocol_hint
        else tokens_to_kind addr_tokens protocol_hint) (\<lambda>k.
     Inr \<lparr> direction = dir, kind = k, stdio = is_stdio \<rparr>)))))"

section \<open>The tokenizer\<close>

definition plain_token :: "string \<Rightarrow> bool" where
  "plain_token t \<longleftrightarrow> CHR '':'' \<notin> set t \<and> \<not> prefix ''['' t"

definition bracket_token :: "string \<Rightarrow> bool" where
  "bracket_token t \<longleftrightarrow> (\<exists>x. t = ''['' @ x @ '']'' \<and> CHR '']'' \<notin> set x)"

definition tokens_ok :: "string list \<Rightarrow> bool" where
  "tokens_ok ts \<longleftrightarrow> (\<forall>t\<in>set ts. plain_token t \<or> bracket_token t) \<and> (ts \<noteq> [] \<longrightarrow> last ts \<noteq> [])"

lemma position_Some_iff:
  "position P xs = Some n \<longleftrightarrow>
   n < length xs \<and> P (xs ! n) \<and> (\<forall>x\<in>set (take n xs). \<not> P x)"
proof (induction xs arbitrary: n)
  case (Cons x xs)
  then show ?case by (cases n) auto
qed simp

lemma position_None_iff: "position P xs = None \<longleftrightarrow> (\<forall>x\<in>set xs. \<not> P x)"
  by (induction xs) auto

lemma position_append:
  "\<forall>x\<in>set xs. \<not> P x \<Longrightarrow> P c \<Longrightarrow> position P (xs @ c # ys) = Some (length xs)"
  by (induction xs) auto

lemma position_split:
  assumes "position (\<lambda>x. x = c) xs = Some n"
  obtains ys zs where "xs = ys @ c # zs" "c \<notin> set ys" "length ys = n"
proof -
  from assms have n: "n < length xs" "xs ! n = c" "c \<notin> set (take n xs)"
    by (auto simp: position_Some_iff)
  then have eq: "xs = take n xs @ c # drop (Suc n) xs" by (metis id_take_nth_drop)
  show thesis by (rule that [OF eq n(3)]) (use n(1) in simp)
qed

lemma tokens_ok_Cons:
  "tokens_ok (t # ts) \<longleftrightarrow>
   (plain_token t \<or> bracket_token t) \<and> (if ts = [] then t \<noteq> [] else tokens_ok ts)"
  by (auto simp: tokens_ok_def)

lemma split_bracket:
  assumes "CHR '']'' \<notin> set x"
  shows "split_addr_tokens (''['' @ x @ '']'') = Inr [''['' @ x @ '']'']"
    and "rest \<noteq> [] \<Longrightarrow> split_addr_tokens (''['' @ x @ '']:'' @ rest)
      = and_then (split_addr_tokens rest) (\<lambda>ts. Inr ((''['' @ x @ '']'') # ts))"
proof -
  have p: "position (\<lambda>c. c = CHR '']'') (x @ CHR '']'' # r) = Some (length x)" for r
    by (rule position_append) (use assms in auto)
  show "split_addr_tokens (''['' @ x @ '']'') = Inr [''['' @ x @ '']'']"
    by (simp add: p)
  show "rest \<noteq> [] \<Longrightarrow> split_addr_tokens (''['' @ x @ '']:'' @ rest)
      = and_then (split_addr_tokens rest) (\<lambda>ts. Inr ((''['' @ x @ '']'') # ts))"
    by (simp add: p)
qed

lemma split_plain:
  assumes "plain_token t"
  shows "t \<noteq> [] \<Longrightarrow> split_addr_tokens t = Inr [t]"
    and "rest \<noteq> [] \<Longrightarrow> split_addr_tokens (t @ '':'' @ rest)
      = and_then (split_addr_tokens rest) (\<lambda>ts. Inr (t # ts))"
proof -
  from assms have t: "\<forall>c\<in>set t. c \<noteq> CHR '':''" by (auto simp: plain_token_def)
  then have none: "position (\<lambda>c. c = CHR '':'') t = None" by (auto simp: position_None_iff)
  have hd: "b # bs = t @ r \<Longrightarrow> t \<noteq> [] \<Longrightarrow> b \<noteq> CHR ''[''" for b bs r
    using assms by (cases t) (auto simp: plain_token_def)
  show "t \<noteq> [] \<Longrightarrow> split_addr_tokens t = Inr [t]"
    using none hd [of _ _ "[]"] by (cases t) (auto simp: Let_def simp del: position.simps)
  assume "rest \<noteq> []"
  moreover have p: "position (\<lambda>c. c = CHR '':'') (t @ CHR '':'' # rest) = Some (length t)"
    by (rule position_append) (use t in auto)
  ultimately show "split_addr_tokens (t @ '':'' @ rest)
      = and_then (split_addr_tokens rest) (\<lambda>ts. Inr (t # ts))"
    using hd [of _ _ "CHR '':'' # rest"]
    by (cases t) (auto simp: Let_def simp del: position.simps)
qed

lemma join_tokens_nonempty: "tokens_ok ts \<Longrightarrow> ts \<noteq> [] \<Longrightarrow> join '':'' ts \<noteq> []"
  by (cases ts) (auto simp: tokens_ok_Cons join_Cons)

lemma split_join: "tokens_ok ts \<Longrightarrow> split_addr_tokens (join '':'' ts) = Inr ts"
proof (induction ts)
  case (Cons t ts)
  have t: "plain_token t \<or> (\<exists>x. t = ''['' @ x @ '']'' \<and> CHR '']'' \<notin> set x)"
    using Cons.prems by (simp add: tokens_ok_Cons bracket_token_def)
  show ?case
  proof (cases "ts = []")
    case True
    with Cons.prems t split_plain(1) [of t] split_bracket(1) show ?thesis
      by (auto simp: tokens_ok_Cons simp del: split_addr_tokens.simps)
  next
    case False
    with Cons have "split_addr_tokens (join '':'' ts) = Inr ts" and "join '':'' ts \<noteq> []"
      by (auto simp: tokens_ok_Cons join_tokens_nonempty)
    with False t show ?thesis
      using split_plain(2) [of t "join '':'' ts"] split_bracket(2) [of _ "join '':'' ts"]
      by (auto simp: join_Cons simp del: split_addr_tokens.simps)
  qed
qed simp

text \<open>What a successful run peels off first: a bracketed or a plain token, alone or followed by a colon and
  more text.\<close>

definition peels :: "string \<Rightarrow> string list \<Rightarrow> bool" where
  "peels s ts \<longleftrightarrow> (\<exists>t. (plain_token t \<or> bracket_token t) \<and> (t \<noteq> [] \<and> s = t \<and> ts = [t] \<or>
     (\<exists>rest ts'. rest \<noteq> [] \<and> s = t @ '':'' @ rest \<and> split_addr_tokens rest = Inr ts' \<and> ts = t # ts')))"

lemma peelsI:
  assumes "plain_token t \<or> bracket_token t" "rest \<noteq> []" "split_addr_tokens (t @ '':'' @ rest) = Inr ts"
    and "split_addr_tokens (t @ '':'' @ rest) = and_then (split_addr_tokens rest) (\<lambda>ts. Inr (t # ts))"
  shows "peels (t @ '':'' @ rest) ts"
proof -
  from assms(4,3) have "and_then (split_addr_tokens rest) (\<lambda>ts. Inr (t # ts)) = Inr ts" by (rule trans [OF sym])
  then obtain ts' where "split_addr_tokens rest = Inr ts'" "ts = t # ts'" by (auto simp: and_then_Inr_iff)
  with assms(1,2) show ?thesis unfolding peels_def by blast
qed

lemma split_bracket_peels:
  assumes ok: "split_addr_tokens (CHR ''['' # bs) = Inr ts"
  shows "peels (CHR ''['' # bs) ts"
proof -
  from ok obtain n where n: "position (\<lambda>c. c = CHR '']'') bs = Some n" by (auto split: option.splits)
  then obtain x ys where x: "bs = x @ CHR '']'' # ys" "CHR '']'' \<notin> set x" "length x = n" by (rule position_split)
  have br: "bracket_token (''['' @ x @ '']'')" using x(2) by (auto simp: bracket_token_def)
  show ?thesis
  proof (cases ys)
    case Nil
    with ok x(1) br show ?thesis
      using split_bracket(1) [OF x(2)] by (auto simp: peels_def simp del: split_addr_tokens.simps)
  next
    case (Cons c rest)
    with ok n x have c: "c = CHR '':''" "rest \<noteq> []" by (auto simp: Let_def split: if_splits)
    with Cons x(1) have s: "CHR ''['' # bs = (''['' @ x @ '']'') @ '':'' @ rest" by simp
    show ?thesis
      using ok c(2) br split_bracket(2) [OF x(2) c(2)] unfolding s
      by (intro peelsI) (simp_all del: split_addr_tokens.simps)
  qed
qed

lemma split_plain_peels:
  assumes ok: "split_addr_tokens s = Inr ts" and "s = b # bs" "b \<noteq> CHR ''[''"
  shows "peels s ts"
proof (cases "position (\<lambda>c. c = CHR '':'') s")
  case None
  with assms have "plain_token s" by (auto simp: position_None_iff plain_token_def simp del: position.simps)
  with assms split_plain(1) [of s] show ?thesis by (auto simp: peels_def simp del: split_addr_tokens.simps)
next
  case (Some n)
  then obtain t ys where ys: "s = t @ CHR '':'' # ys" "CHR '':'' \<notin> set t" "length t = n" by (rule position_split)
  have s: "s = t @ '':'' @ ys" and t: "plain_token t"
    using ys(1,2) assms(2,3) by (cases t; simp add: plain_token_def)+
  have "drop n s = CHR '':'' # ys" using ys by simp
  then have "ys \<noteq> []" using assms Some by (auto simp: Let_def split: if_splits simp del: position.simps)
  then show ?thesis
    using ok t split_plain(2) [OF t] unfolding s by (intro peelsI) (simp_all del: split_addr_tokens.simps)
qed

lemma split_sound:
  "split_addr_tokens s = Inr ts \<Longrightarrow> s = join '':'' ts \<and> tokens_ok ts \<and> (ts = [] \<longrightarrow> s = [])"
proof (induction s arbitrary: ts rule: length_induct)
  case (1 s)
  show ?case
  proof (cases s)
    case Nil
    with 1(2) show ?thesis by (simp add: tokens_ok_def)
  next
    case (Cons b bs)
    with 1(2) split_bracket_peels split_plain_peels [OF 1(2) Cons] have "peels s ts" by (cases "b = CHR ''[''") simp_all
    then consider t where "plain_token t \<or> bracket_token t" "t \<noteq> []" "s = t" "ts = [t]"
      | t rest ts' where "plain_token t \<or> bracket_token t" "rest \<noteq> []" "s = t @ '':'' @ rest"
        "split_addr_tokens rest = Inr ts'" "ts = t # ts'"
      unfolding peels_def by blast
    then show ?thesis
    proof cases
      case 1
      then show ?thesis by (simp add: tokens_ok_Cons)
    next
      case (2 t rest ts')
      then have "length rest < length s" by simp
      with 1(1) 2(4) have "rest = join '':'' ts' \<and> tokens_ok ts' \<and> (ts' = [] \<longrightarrow> rest = [])" by blast
      with 2 show ?thesis by (auto simp: tokens_ok_Cons join_Cons)
    qed
  qed
qed

section \<open>The grammar of remotes\<close>

text \<open>Shapes of the address part. The rules overlap in length but not in their
  conditions: \<^verbatim>\<open>socks\<close> is not a port number.\<close>

inductive kind_syntax :: "string list \<Rightarrow> protocol option \<Rightarrow> remote_kind \<Rightarrow> bool" where
  socks: "kind_syntax [''socks''] pr (Socks5 (SocketAddrV4 (Ipv4 127 0 0 1) 1080))"
| socks_port: "parse_u16 lp = Inr p \<Longrightarrow>
    kind_syntax [lp, ''socks''] pr (Socks5 (SocketAddrV4 (Ipv4 127 0 0 1) p))"
| socks_addr: "parse_ip_addr (unbracket lh) = Some a \<Longrightarrow> parse_u16 lp = Inr p \<Longrightarrow>
    kind_syntax [lh, lp, ''socks''] pr (Socks5 (sock_new a p))"
| port_only: "parse_u16 rp = Inr p \<Longrightarrow>
    kind_syntax [rp] pr (make_host_port_kind (SocketAddrV4 (Ipv4 0 0 0 0) p)
      \<lparr> host = ''0.0.0.0'', port = p \<rparr> pr)"
| remote_only: "parse_u16 rp = Inr p \<Longrightarrow>
    kind_syntax [rh, rp] pr (make_host_port_kind (SocketAddrV4 (Ipv4 0 0 0 0) p)
      \<lparr> host = unbracket rh, port = p \<rparr> pr)"
| local_port: "parse_u16 lp = Inr q \<Longrightarrow> parse_u16 rp = Inr p \<Longrightarrow>
    kind_syntax [lp, rh, rp] pr (make_host_port_kind (SocketAddrV4 (Ipv4 0 0 0 0) q)
      \<lparr> host = unbracket rh, port = p \<rparr> pr)"
| full: "parse_ip_addr (unbracket lh) = Some a \<Longrightarrow> parse_u16 lp = Inr q \<Longrightarrow> parse_u16 rp = Inr p \<Longrightarrow>
    kind_syntax [lh, lp, rh, rp] pr (make_host_port_kind (sock_new a q)
      \<lparr> host = unbracket rh, port = p \<rparr> pr)"

inductive stdio_syntax :: "string list \<Rightarrow> protocol option \<Rightarrow> remote_kind \<Rightarrow> bool" where
  stdio_port: "parse_u16 rp = Inr p \<Longrightarrow>
    stdio_syntax [rp] pr (make_host_port_kind (SocketAddrV4 (Ipv4 0 0 0 0) 0)
      \<lparr> host = ''127.0.0.1'', port = p \<rparr> pr)"
| stdio_remote: "rh \<noteq> ''socks'' \<Longrightarrow> parse_u16 rp = Inr p \<Longrightarrow>
    stdio_syntax [rh, rp] pr (make_host_port_kind (SocketAddrV4 (Ipv4 0 0 0 0) 0)
      \<lparr> host = unbracket rh, port = p \<rparr> pr)"

fun direction_text :: "direction \<Rightarrow> string" where
  "direction_text Forward = []"
| "direction_text Reverse = ''R:''"

fun protocol_text :: "protocol option \<Rightarrow> string" where
  "protocol_text None = []"
| "protocol_text (Some p) = ''/'' @ show_protocol p"

text \<open>A remote is written as its direction, its tokens joined by colons and its protocol.
  A text that starts with the reverse marker is not a forward remote, and one with a
  slash has a protocol.\<close>

definition written :: "string \<Rightarrow> direction \<Rightarrow> string list \<Rightarrow> protocol option \<Rightarrow> bool" where
  "written s d ts pr \<longleftrightarrow>
     s = direction_text d @ join '':'' ts @ protocol_text pr \<and> tokens_ok ts \<and>
     (d = Forward \<longrightarrow> \<not> prefix ''R:'' s) \<and> (pr = None \<longrightarrow> CHR ''/'' \<notin> set (join '':'' ts))"

inductive remote_syntax :: "string \<Rightarrow> remote_request \<Rightarrow> bool" where
  listener: "written s d ts pr \<Longrightarrow> hd ts \<noteq> ''stdio'' \<Longrightarrow> kind_syntax ts pr k \<Longrightarrow>
    remote_syntax s \<lparr> direction = d, kind = k, stdio = False \<rparr>"
| stdio: "written s Forward (''stdio'' # ts) pr \<Longrightarrow> stdio_syntax ts pr k \<Longrightarrow>
    remote_syntax s \<lparr> direction = Forward, kind = k, stdio = True \<rparr>"

lemma keyword_not_port [simp]: "parse_u16 ''socks'' \<noteq> Inr p"
  by (simp add: parse_u16_def parse_uint_def to_digit_def)

lemma any_v4_eq [simp]: "any_v4 = V4 (Ipv4 0 0 0 0)"
proof -
  have eq: "any_v4_text = show_ipv4 (Ipv4 0 0 0 0)"
    by (simp add: any_v4_text_def show_ipv4_def show_nat_def show_radix.simps)
  show ?thesis unfolding any_v4_def eq by simp
qed

lemma socks_default_local_eq [simp]: "socks_default_local = V4 (Ipv4 127 0 0 1)"
proof -
  have eq: "socks_default_local_text = show_ipv4 (Ipv4 127 0 0 1)"
    by (simp add: socks_default_local_text_def show_ipv4_def show_nat_def show_radix.simps
       )
  show ?thesis unfolding socks_default_local_def eq by simp
qed

lemma parse_port_Inr_iff [simp]: "parse_port s w = Inr p \<longleftrightarrow> parse_u16 s = Inr p"
  by (simp add: parse_port_def)

lemma parse_ip_Inr_iff [simp]: "parse_ip s w = Inr a \<longleftrightarrow> parse_ip_addr (unbracket s) = Some a"
  by (simp add: parse_ip_def)

inductive_simps kind_syntax_simps:
  "kind_syntax [] pr k" "kind_syntax [a] pr k" "kind_syntax [a, b] pr k"
  "kind_syntax [a, b, c] pr k" "kind_syntax [a, b, c, d] pr k"
  "kind_syntax (a # b # c # d # e # f) pr k"

inductive_simps stdio_syntax_simps:
  "stdio_syntax [] pr k" "stdio_syntax [a] pr k" "stdio_syntax [a, b] pr k"
  "stdio_syntax (a # b # c # d) pr k"

lemma tokens_to_kind_iff: "tokens_to_kind ts pr = Inr k \<longleftrightarrow> kind_syntax ts pr k"
  by (induction ts pr rule: tokens_to_kind.induct)
    (auto simp: kind_syntax_simps parse_one_token_def parse_two_tokens_def parse_three_tokens_def
      parse_four_tokens_def and_then_Inr_iff socks_keyword_def socks_default_port_def
      host_port_new_def any_v4_text_def Let_def)

lemma tokens_to_stdio_kind_iff: "tokens_to_stdio_kind ts pr = Inr k \<longleftrightarrow> stdio_syntax ts pr k"
proof -
  consider "ts = []" | a where "ts = [a]" | a b where "ts = [a, b]" | a b c xs where "ts = a # b # c # xs"
    by (metis list.exhaust)
  then show ?thesis
    by cases (auto simp: tokens_to_stdio_kind_def stdio_syntax_simps and_then_Inr_iff
        socks_keyword_def host_port_new_def stdio_default_remote_host_def Let_def)
qed

lemma split_addr_tokens_iff: "split_addr_tokens s = Inr ts \<longleftrightarrow> s = join '':'' ts \<and> tokens_ok ts"
  using split_sound split_join by blast

lemma parse_direction_iff:
  "parse_direction s = Inr (d, a) \<longleftrightarrow>
   s = direction_text d @ a \<and> (d = Forward \<longrightarrow> \<not> prefix ''R:'' s \<and> s \<noteq> ''R'') \<and> (d = Reverse \<longrightarrow> a \<noteq> [])"
proof (cases "strip_prefix ''R:'' s")
  case None
  moreover from None have "\<not> prefix ''R:'' s" by (simp add: strip_prefix_None_iff)
  ultimately show ?thesis by (cases d) (auto simp: parse_direction_def)
next
  case (Some r)
  then have "s = ''R:'' @ r" by (simp add: strip_prefix_Some_iff)
  with Some show ?thesis by (cases d) (auto simp: parse_direction_def)
qed

lemma parse_protocol_iff:
  "parse_protocol s = Inr (pr, b) \<longleftrightarrow> s = b @ protocol_text pr \<and> (pr = None \<longrightarrow> CHR ''/'' \<notin> set b)"
proof (cases "rsplit_once (CHR ''/'') s")
  case None
  then have "CHR ''/'' \<notin> set s" by (simp add: rsplit_once_None_iff)
  with None show ?thesis by (cases pr) (auto simp: parse_protocol_def)
next
  case (Some ht)
  obtain h t where ht: "ht = (h, t)" by (cases ht)
  with Some have s: "s = h @ CHR ''/'' # t" "CHR ''/'' \<notin> set t" by (auto simp: rsplit_once_Some_iff)
  have uniq: "h = b \<and> t = u" if "h @ CHR ''/'' # t = b @ CHR ''/'' # u" "CHR ''/'' \<notin> set u" for u
    using rsplit_once_append [OF s(2), of h] rsplit_once_append [OF that(2), of b] that(1)
    by (metis option.inject prod.inject)
  show ?thesis
  proof (cases pr)
    case None
    with Some s ht show ?thesis by (auto simp: parse_protocol_def)
  next
    case (Some p)
    with \<open>rsplit_once _ s = _\<close> ht s(1) uniq [of "show_protocol p"] show ?thesis
      by (cases p) (auto simp: parse_protocol_def)
  qed
qed

lemma from_str_Inr_iff:
  "from_str s = Inr r \<longleftrightarrow>
   (\<exists>d a pr ts. parse_direction s = Inr (d, a) \<and> parse_protocol a = Inr (pr, join '':'' ts) \<and> tokens_ok ts \<and>
     (if ts \<noteq> [] \<and> hd ts = ''stdio''
      then d = Forward \<and> (\<exists>k. stdio_syntax (tl ts) pr k \<and> r = \<lparr> direction = d, kind = k, stdio = True \<rparr>)
      else \<exists>k. kind_syntax ts pr k \<and> r = \<lparr> direction = d, kind = k, stdio = False \<rparr>))"
  (is "?l = ?r")
proof
  show ?l if ?r
    using that
    by (auto simp: from_str_def split_addr_tokens_iff [THEN iffD2] tokens_to_kind_iff [THEN iffD2]
        tokens_to_stdio_kind_iff [THEN iffD2] stdio_keyword_def kind_syntax_simps(1) split: if_splits)
  show ?r if ?l
  proof -
    from that obtain d a pr b ts where *: "parse_direction s = Inr (d, a)" "parse_protocol a = Inr (pr, b)"
        "split_addr_tokens b = Inr ts"
      by (auto simp: from_str_def and_then_Inr_iff)
    moreover from this(3) have b: "b = join '':'' ts" "tokens_ok ts"
      by (simp_all add: split_addr_tokens_iff)
    moreover have "if ts \<noteq> [] \<and> hd ts = ''stdio''
      then d = Forward \<and> (\<exists>k. stdio_syntax (tl ts) pr k \<and> r = \<lparr> direction = d, kind = k, stdio = True \<rparr>)
      else \<exists>k. kind_syntax ts pr k \<and> r = \<lparr> direction = d, kind = k, stdio = False \<rparr>"
      using that *
      by (cases d) (auto simp: from_str_def and_then_Inr_iff tokens_to_kind_iff
          tokens_to_stdio_kind_iff stdio_keyword_def split: if_splits)
    ultimately show ?thesis by blast
  qed
qed

lemma not_kind_R [simp]: "\<not> kind_syntax [''R''] pr k"
  by (auto simp: kind_syntax_simps parse_u16_def parse_uint_def to_digit_def)

lemma written_iff:
  assumes "kind_syntax ts pr k \<or> (d = Forward \<and> hd ts = ''stdio'' \<and> stdio_syntax (tl ts) pr k)"
  shows "(\<exists>a. parse_direction s = Inr (d, a) \<and> parse_protocol a = Inr (pr, join '':'' ts) \<and> tokens_ok ts)
    \<longleftrightarrow> written s d ts pr"
proof -
  have nonempty: "ts \<noteq> []" if "d = Reverse" using assms that by (auto simp: kind_syntax_simps)
  have "s \<noteq> ''R''" if "written s d ts pr"
  proof
    assume R: "s = ''R''"
    with that have eq: "direction_text d @ join '':'' ts @ protocol_text pr = ''R''" and ok: "tokens_ok ts"
      by (auto simp: written_def)
    have "d = Forward" using arg_cong [OF eq, of length] by (cases d) auto
    moreover have "pr = None" using arg_cong [OF eq, of set] by (cases pr) auto
    ultimately have "join '':'' ts = ''R''" using eq by simp
    with ok have "ts = [''R'']"
      using split_join [of ts] split_plain(1) [of "''R''"] by (simp add: plain_token_def)
    with assms show False by auto
  qed
  then show ?thesis
    using nonempty join_tokens_nonempty [of ts]
    by (cases d) (auto simp: parse_direction_iff parse_protocol_iff written_def)
qed

lemma from_str_listener:
  assumes "written s d ts pr" "hd ts \<noteq> ''stdio''" "kind_syntax ts pr k"
  shows "from_str s = Inr \<lparr> direction = d, kind = k, stdio = False \<rparr>"
proof -
  from assms written_iff [of ts pr k d s] obtain a where
    "parse_direction s = Inr (d, a)" "parse_protocol a = Inr (pr, join '':'' ts)" "tokens_ok ts"
    by auto
  with assms show ?thesis
    unfolding from_str_Inr_iff
    by (intro exI [of _ d] exI [of _ a] exI [of _ pr] exI [of _ ts]) auto
qed

lemma from_str_stdio:
  assumes "written s Forward (''stdio'' # ts) pr" "stdio_syntax ts pr k"
  shows "from_str s = Inr \<lparr> direction = Forward, kind = k, stdio = True \<rparr>"
proof -
  from assms written_iff [of "''stdio'' # ts" pr k Forward s] obtain a where
    "parse_direction s = Inr (Forward, a)" "parse_protocol a = Inr (pr, join '':'' (''stdio'' # ts))"
    "tokens_ok (''stdio'' # ts)" by auto
  with assms show ?thesis
    unfolding from_str_Inr_iff
    by (intro exI [of _ Forward] exI [of _ a] exI [of _ pr] exI [of _ "''stdio'' # ts"]) auto
qed

text \<open>C1. The parser of remotes accepts exactly the texts of the grammar
  \<^const>\<open>remote_syntax\<close>, with the remote the grammar assigns: the rules are unordered, so the
  parser's early returns and the order of its shape tests never hide a valid reading.\<close>

theorem from_str_iff_syntax: "from_str s = Inr r \<longleftrightarrow> remote_syntax s r"
proof
  assume "from_str s = Inr r"
  then obtain d a pr ts where p: "parse_direction s = Inr (d, a)"
      "parse_protocol a = Inr (pr, join '':'' ts)" "tokens_ok ts"
    and r: "if ts \<noteq> [] \<and> hd ts = ''stdio''
      then d = Forward \<and> (\<exists>k. stdio_syntax (tl ts) pr k \<and> r = \<lparr> direction = d, kind = k, stdio = True \<rparr>)
      else \<exists>k. kind_syntax ts pr k \<and> r = \<lparr> direction = d, kind = k, stdio = False \<rparr>"
    by (auto simp: from_str_Inr_iff)
  show "remote_syntax s r"
  proof (cases "ts \<noteq> [] \<and> hd ts = ''stdio''")
    case True
    with r obtain k where k: "d = Forward" "stdio_syntax (tl ts) pr k"
        "r = \<lparr> direction = Forward, kind = k, stdio = True \<rparr>" by auto
    with True p written_iff [of ts pr k d s] have "written s Forward (''stdio'' # tl ts) pr"
      by (cases ts) auto
    with k show ?thesis by (simp add: remote_syntax.stdio)
  next
    case False
    with r obtain k where k: "kind_syntax ts pr k" "r = \<lparr> direction = d, kind = k, stdio = False \<rparr>"
      by auto
    with p written_iff [of ts pr k d s] have "written s d ts pr" by auto
    with k False show ?thesis
      by (auto simp: kind_syntax_simps intro!: remote_syntax.listener)
  qed
next
  assume "remote_syntax s r"
  then show "from_str s = Inr r"
    by cases (auto intro: from_str_listener from_str_stdio)
qed

section \<open>Canonical text of a remote\<close>

definition host_token :: "string \<Rightarrow> string" where
  "host_token h = (if plain_token h \<and> h \<noteq> ''socks'' then h else ''['' @ h @ '']'')"

fun ip_token :: "ip_addr \<Rightarrow> string" where
  "ip_token (V4 a) = show_ipv4 a"
| "ip_token (V6 a) = ''['' @ show_ipv6 a @ '']''"

fun local_tokens :: "socket_addr \<Rightarrow> string list" where
  "local_tokens l = [ip_token (sock_ip l), show_word (sock_port l)]"

fun remote_tokens :: "host_port \<Rightarrow> string list" where
  "remote_tokens hp = [host_token (host hp), show_word (port hp)]"

fun kind_tokens :: "bool \<Rightarrow> remote_kind \<Rightarrow> string list" where
  "kind_tokens st (remote_kind.Tcp l hp) = (if st then [''stdio''] else local_tokens l) @ remote_tokens hp"
| "kind_tokens st (remote_kind.Udp l hp) = (if st then [''stdio''] else local_tokens l) @ remote_tokens hp"
| "kind_tokens st (Socks5 l) = local_tokens l @ [''socks'']"

definition print_remote :: "remote_request \<Rightarrow> string" where
  "print_remote r =
     direction_text (direction r) @ join '':'' (kind_tokens (stdio r) (kind r)) @
     protocol_text (protocol_of (kind r))"

text \<open>The remotes that have a text: the local address carries no flow label and no scope,
  the host fits in a token, and a stdio remote is a forward TCP or UDP one with the
  placeholder local address.\<close>

definition host_ok :: "string \<Rightarrow> bool" where
  "host_ok h \<longleftrightarrow> plain_token h \<or> CHR '']'' \<notin> set h"

definition remote_host_ok :: "remote_kind \<Rightarrow> bool" where
  "remote_host_ok k =
     (case k of
        remote_kind.Tcp _ hp \<Rightarrow> host_ok (host hp)
      | remote_kind.Udp _ hp \<Rightarrow> host_ok (host hp)
      | Socks5 _ \<Rightarrow> True)"

definition wf_remote :: "remote_request \<Rightarrow> bool" where
  "wf_remote r \<longleftrightarrow>
     (\<exists>a p. local_addr (kind r) = sock_new a p) \<and> remote_host_ok (kind r) \<and>
     (stdio r \<longrightarrow> direction r = Forward \<and> \<not> is_socks r \<and>
        local_addr (kind r) = SocketAddrV4 (Ipv4 0 0 0 0) 0)"

lemma unbracket_bracket [simp]: "unbracket (CHR ''['' # x @ '']'') = x"
  by (simp add: unbracket_def)

lemma unbracket_plain: "plain_token t \<Longrightarrow> unbracket t = t"
  by (cases t) (auto simp: unbracket_def plain_token_def)

lemma unbracket_host_token [simp]: "unbracket (host_token h) = h"
  by (simp add: host_token_def unbracket_plain)

lemma host_token_not_socks [simp]: "host_token h \<noteq> ''socks''"
  by (simp add: host_token_def)

lemma host_ok_unbracket: "plain_token t \<or> bracket_token t \<Longrightarrow> host_ok (unbracket t)"
  by (auto simp: host_ok_def bracket_token_def unbracket_plain)

lemma show_word_plain: "plain_token (show_word (w :: 'a::len word))"
proof -
  have "\<forall>c\<in>set (show_word w). is_digit 10 c" using show_nat_digits by blast
  then show ?thesis by (cases "show_word w") (auto simp: plain_token_def)
qed

lemma show_ipv4_chars: "c \<in> set (show_ipv4 a) \<Longrightarrow> is_digit 10 c \<or> c = CHR ''.''"
  by (cases a) (auto simp: show_ipv4_def dest: show_nat_digits)

lemma show_ipv4_plain: "plain_token (show_ipv4 a)"
  using show_ipv4_chars [of _ a]
  by (cases "show_ipv4 a") (force simp: plain_token_def)+

lemma show_ipv6_chars:
  assumes "c \<in> set (show_ipv6 a)"
  shows "is_digit 16 c \<or> c = CHR '':'' \<or> c = CHR ''.''"
proof -
  have sub: "c \<in> set (fmt_subslice gs) \<Longrightarrow> is_digit 16 c \<or> c = CHR '':''" for gs
  proof (induction gs)
    case (Cons g gs)
    then show ?case using show_hex_digits [of g]
      by (cases gs) (auto simp: fmt_subslice_def)
  qed (simp add: fmt_subslice_def)
  show ?thesis
  proof (cases "to_ipv4_mapped a")
    case None
    with assms sub show ?thesis by (auto simp: show_ipv6_def split: prod.splits if_splits)
  next
    case (Some v4)
    have "is_digit 16 (CHR ''f'')" by (simp add: is_digit_def to_digit_def)
    with assms Some show ?thesis
      by (auto simp: show_ipv6_def dest!: show_ipv4_chars dest: is_digit_mono [of 10 _ 16])
  qed
qed

lemma ip_token_ok: "plain_token (ip_token a) \<or> bracket_token (ip_token a)"
proof (cases a)
  case (V6 x)
  have "CHR '']'' \<notin> set (show_ipv6 x)" using show_ipv6_chars [of "CHR '']''" x] by auto
  with V6 show ?thesis by (auto simp: bracket_token_def)
qed (simp add: show_ipv4_plain)

lemma ip_token_not_stdio [simp]: "ip_token a \<noteq> ''stdio''"
proof (cases a)
  case (V4 x)
  then show ?thesis using show_ipv4_chars [of "CHR ''s''" x] by (auto simp: is_digit_def to_digit_def)
qed simp

lemma parse_ip_token [simp]: "parse_ip_addr (unbracket (ip_token a)) = Some a"
  by (cases a) (simp_all add: unbracket_plain show_ipv4_plain)

lemma host_token_ok: "host_ok h \<Longrightarrow> plain_token (host_token h) \<or> bracket_token (host_token h)"
  by (auto simp: host_ok_def host_token_def bracket_token_def plain_token_def)

lemma keyword_plain: "plain_token ''stdio''" "plain_token ''socks''"
  by (simp_all add: plain_token_def)

lemma tokens_ok_kind: "remote_host_ok k \<Longrightarrow> tokens_ok (kind_tokens st k)"
  by (cases k) (auto simp: remote_host_ok_def tokens_ok_Cons ip_token_ok show_word_plain
      host_token_ok keyword_plain)

lemma make_host_port_kind_simps [simp]:
  "make_host_port_kind l hp (Some protocol.Tcp) = remote_kind.Tcp l hp"
  "make_host_port_kind l hp (Some protocol.Udp) = remote_kind.Udp l hp"
  "make_host_port_kind l hp None = remote_kind.Tcp l hp"
  by (simp_all add: make_host_port_kind_def)

lemma kind_syntax_tokens:
  assumes "local_addr k = sock_new a p" "remote_host_ok k"
  shows "kind_syntax (kind_tokens False k) (protocol_of k) k"
  using assms by (cases k) (auto simp: kind_syntax_simps)

lemma stdio_syntax_tokens:
  assumes "local_addr k = SocketAddrV4 (Ipv4 0 0 0 0) 0" "remote_host_ok k" "protocol_of k \<noteq> None"
  shows "stdio_syntax (tl (kind_tokens True k)) (protocol_of k) k"
  using assms by (cases k) (auto simp: stdio_syntax_simps)

lemma ip_token_head: "\<exists>c t. ip_token a = c # t \<and> c \<noteq> CHR ''R''"
proof (cases a)
  case (V4 x)
  moreover have "show_ipv4 x \<noteq> []" by (cases x) (simp add: show_ipv4_def)
  moreover have "hd (show_ipv4 x) \<noteq> CHR ''R''" if "show_ipv4 x \<noteq> []"
    using show_ipv4_chars [of "hd (show_ipv4 x)" x] that by (auto simp: is_digit_def to_digit_def)
  ultimately show ?thesis by (cases "show_ipv4 x") auto
qed simp

lemma print_not_reverse: "direction r = Forward \<Longrightarrow> \<not> prefix ''R:'' (print_remote r)"
proof -
  assume f: "direction r = Forward"
  have "\<exists>c t. join '':'' (kind_tokens (stdio r) (kind r)) = c # t \<and> c \<noteq> CHR ''R''"
    using ip_token_head [of "sock_ip (local_addr (kind r))"] by (cases "kind r") auto
  with f show ?thesis by (auto simp: print_remote_def)
qed

lemma written_print:
  assumes "wf_remote r" and "\<not> is_socks r \<or> CHR ''/'' \<notin> set (join '':'' (kind_tokens (stdio r) (kind r)))"
  shows "written (print_remote r) (direction r) (kind_tokens (stdio r) (kind r)) (protocol_of (kind r))"
  using assms print_not_reverse [of r]
  by (cases "kind r") (auto simp: written_def print_remote_def wf_remote_def tokens_ok_kind is_socks_def
    simp del: kind_tokens.simps)

lemma socks_no_slash: "is_socks r \<Longrightarrow> CHR ''/'' \<notin> set (join '':'' (kind_tokens (stdio r) (kind r)))"
proof -
  assume "is_socks r"
  then obtain l where l: "kind r = Socks5 l" by (auto simp: is_socks_def split: remote_kind.splits)
  have "CHR ''/'' \<notin> set (ip_token a)" for a
    by (cases a) (use show_ipv4_chars show_ipv6_chars in \<open>force simp: is_digit_def to_digit_def\<close>)+
  moreover have "CHR ''/'' \<notin> set (show_word (sock_port l))"
    using show_nat_digits [of "CHR ''/''"] by (auto simp: is_digit_def to_digit_def)
  ultimately show ?thesis using l by simp
qed

lemma from_str_print: "wf_remote r \<Longrightarrow> from_str (print_remote r) = Inr r"
proof -
  assume wf: "wf_remote r"
  then have w: "written (print_remote r) (direction r) (kind_tokens (stdio r) (kind r)) (protocol_of (kind r))"
    using written_print socks_no_slash by blast
  show ?thesis
  proof (cases "stdio r")
    case True
    then have fwd: "direction r = Forward" and pr: "protocol_of (kind r) \<noteq> None"
      using wf by (cases "kind r"; simp add: wf_remote_def is_socks_def)+
    then obtain ts where ts: "kind_tokens True (kind r) = ''stdio'' # ts" by (cases "kind r") auto
    have "stdio_syntax ts (protocol_of (kind r)) (kind r)"
      using stdio_syntax_tokens [OF _ _ pr] wf True ts by (simp add: wf_remote_def)
    moreover have "written (print_remote r) Forward (''stdio'' # ts) (protocol_of (kind r))"
      using w True fwd ts by simp
    ultimately have "from_str (print_remote r) = Inr \<lparr> direction = Forward, kind = kind r, stdio = True \<rparr>"
      by (intro from_str_stdio)
    with True fwd show ?thesis by simp
  next
    case False
    moreover have "hd (kind_tokens False (kind r)) \<noteq> ''stdio''" by (cases "kind r") auto
    moreover have "kind_syntax (kind_tokens False (kind r)) (protocol_of (kind r)) (kind r)"
      using wf kind_syntax_tokens unfolding wf_remote_def by blast
    ultimately have "from_str (print_remote r) = Inr \<lparr> direction = direction r, kind = kind r, stdio = False \<rparr>"
      using w by (intro from_str_listener) simp_all
    with False show ?thesis by simp
  qed
qed

lemma remote_host_ok_make [simp]: "remote_host_ok (make_host_port_kind l hp pr) \<longleftrightarrow> host_ok (host hp)"
  by (cases pr; simp add: remote_host_ok_def make_host_port_kind_def split: protocol.split)

lemma remote_host_ok_socks [simp]: "remote_host_ok (Socks5 l)"
  by (simp add: remote_host_ok_def)

lemma local_addr_make [simp]: "local_addr (make_host_port_kind l hp pr) = l"
  by (cases pr; simp add: make_host_port_kind_def split: protocol.split)

lemma make_not_socks [simp]: "make_host_port_kind l hp pr \<noteq> Socks5 x"
  by (cases pr; simp add: make_host_port_kind_def split: protocol.split)

lemma literal_host_ok [simp]: "host_ok ''0.0.0.0''" "host_ok ''127.0.0.1''"
  by (simp_all add: host_ok_def)

lemma sock_new_range [simp]: "\<exists>a p. sock_new b q = sock_new a p" "\<exists>a p. SocketAddrV4 x q = sock_new a p"
  using sock_new.simps(1) [of x q] by metis+

lemma kind_syntax_wf:
  assumes "kind_syntax ts pr k" "\<forall>t\<in>set ts. plain_token t \<or> bracket_token t"
  shows "(\<exists>a p. local_addr k = sock_new a p) \<and> remote_host_ok k"
  using assms by cases (auto simp: host_ok_unbracket)

lemma stdio_syntax_wf:
  assumes "stdio_syntax ts pr k" "\<forall>t\<in>set ts. plain_token t \<or> bracket_token t"
  shows "local_addr k = SocketAddrV4 (Ipv4 0 0 0 0) 0 \<and> remote_host_ok k \<and> (\<forall>l. k \<noteq> Socks5 l)"
  using assms by cases (auto simp: host_ok_unbracket)

lemma from_str_wf: "from_str s = Inr r \<Longrightarrow> wf_remote r"
proof -
  assume "from_str s = Inr r"
  then obtain d a pr ts where ok: "tokens_ok ts" and
    r: "if ts \<noteq> [] \<and> hd ts = ''stdio''
      then d = Forward \<and> (\<exists>k. stdio_syntax (tl ts) pr k \<and> r = \<lparr> direction = d, kind = k, stdio = True \<rparr>)
      else \<exists>k. kind_syntax ts pr k \<and> r = \<lparr> direction = d, kind = k, stdio = False \<rparr>"
    by (auto simp: from_str_Inr_iff)
  from ok have t: "\<forall>t\<in>set ts. plain_token t \<or> bracket_token t" by (simp add: tokens_ok_def)
  then have tt: "\<forall>t\<in>set (tl ts). plain_token t \<or> bracket_token t" by (cases ts) auto
  show ?thesis
  proof (cases "ts \<noteq> [] \<and> hd ts = ''stdio''")
    case True
    with r obtain k where k: "d = Forward" "stdio_syntax (tl ts) pr k"
        "r = \<lparr> direction = d, kind = k, stdio = True \<rparr>" by auto
    with stdio_syntax_wf [OF k(2) tt] show ?thesis
      by (simp add: wf_remote_def is_socks_def split: remote_kind.split)
  next
    case False
    with r kind_syntax_wf [OF _ t] show ?thesis by (auto simp: wf_remote_def)
  qed
qed

lemma parse_ipv6_show_ipv4: "parse_ipv6 (show_ipv4 a) = None"
proof -
  have "read_groups 0 8 (show_ipv4 a) =
      (case a of Ipv4 w x y z \<Rightarrow> ([from_be_bytes16 w x, from_be_bytes16 y z], True, []))"
    using read_ipv4_addr_show [of "[]" a] read_groups.simps(2) [of 0 7 "show_ipv4 a"]
    by (simp add: read_separator_def)
  then show ?thesis
    by (cases a) (simp add: parse_ipv6_def parse_with_def read_ipv6_addr_def)
qed

lemma parse_addr_string:
  "parse_socket_addr (to_addr_string \<lparr> host = show_ip a, port = p \<rparr>) = Some (sock_new a p)"
proof (cases a)
  case (V4 x)
  then show ?thesis
    using parse_socket_addr_show [of "SocketAddrV4 x p"] parse_ipv6_show_ipv4 [of x]
    by (simp add: to_addr_string_def)
next
  case (V6 x)
  then show ?thesis
    using parse_socket_addr_show [of "SocketAddrV6 x p 0 0"] by (simp add: to_addr_string_def)
qed

text \<open>C34. Round trip of the remote syntax, exactly where it can hold: a remote has the
  canonical text \<^const>\<open>print_remote\<close>, and parsing that text gives the remote back, iff it is
  well formed. The well-formed remotes are all the parser can return.\<close>

theorem print_remote_roundtrip: "from_str (print_remote r) = Inr r \<longleftrightarrow> wf_remote r"
  using from_str_print from_str_wf by blast

text \<open>Every remote the parser returns is well formed. In particular a \<^verbatim>\<open>stdio\<close> remote is
  a forward TCP or UDP tunnel whose local address is the placeholder \<^verbatim>\<open>0.0.0.0:0\<close>: reversed
  and SOCKS5 stdio tunnels do not get past the parser.\<close>

theorem from_str_well_formed:
  assumes "from_str s = Inr r"
  shows "wf_remote r \<and>
    (stdio r \<longrightarrow> \<not> is_reversed r \<and> \<not> is_socks r \<and> local_socket_addr r = SocketAddrV4 (Ipv4 0 0 0 0) 0)"
  using from_str_wf [OF assms] by (auto simp: wf_remote_def is_reversed_def local_socket_addr_def)

definition sample_stdio :: remote_request where
  "sample_stdio = \<lparr> direction = Forward,
     kind = remote_kind.Tcp (SocketAddrV4 (Ipv4 0 0 0 0) 0) \<lparr> host = ''db'', port = 22 \<rparr>, stdio = True \<rparr>"

lemma sample_stdio_parses: "from_str ''stdio:db:22'' = Inr sample_stdio"
proof -
  have "parse_u16 ''22'' = Inr 22"
    by (simp add: parse_u16_def parse_uint_def to_digit_def)
  then have "stdio_syntax [''db'', ''22''] None (kind sample_stdio)"
    by (simp add: stdio_syntax_simps sample_stdio_def unbracket_def)
  moreover have "written ''stdio:db:22'' Forward (''stdio'' # [''db'', ''22'']) None"
    by (simp add: written_def tokens_ok_Cons plain_token_def)
  ultimately show ?thesis
    using from_str_stdio by (fastforce simp: sample_stdio_def)
qed

theorem from_str_well_formed_witness:
  "wf_remote sample_stdio \<and> \<not> is_reversed sample_stdio \<and> stdio sample_stdio"
  using from_str_well_formed [OF sample_stdio_parses] by (simp add: sample_stdio_def)

text \<open>A target with an IP-literal host, IPv4 or IPv6, printed by
  \<^verbatim>\<open>HostPort::to_addr_string\<close> parses as the socket address of that host and port: the
  brackets it adds are exactly the ones the address parser needs.\<close>

theorem addr_string_roundtrip:
  "parse_socket_addr (to_addr_string \<lparr> host = show_ip a, port = p \<rparr>) = Some (sock_new a p)"
  by (rule parse_addr_string)

end
