(* ===== verification/Counted.thy ===== *)
theory Counted
  imports Rusnel_Prelude
begin

text \<open>
  Byte counters of the data plane (\<^verbatim>\<open>src/src/common/counted.rs\<close>). The atomics wrap at
  64 bits; \<^verbatim>\<open>CountedReader\<close> adds what one poll of the wrapped reader filled in.
\<close>

record counters =
  bytes_in :: u64
  bytes_out :: u64

definition counters_new :: counters where
  "counters_new = \<lparr> bytes_in = 0, bytes_out = 0 \<rparr>"

definition add_in :: "u64 \<Rightarrow> counters \<Rightarrow> counters" where
  "add_in n c = (if n > 0 then c\<lparr>bytes_in := bytes_in c + n\<rparr> else c)"

definition add_out :: "u64 \<Rightarrow> counters \<Rightarrow> counters" where
  "add_out n c = (if n > 0 then c\<lparr>bytes_out := bytes_out c + n\<rparr> else c)"

definition snapshot :: "counters \<Rightarrow> u64 \<times> u64" where
  "snapshot c = (bytes_in c, bytes_out c)"

text \<open>One poll of the inner reader: not ready, an error, or ready with bytes appended to
  what the buffer already holds. The buffer is the list of filled bytes.\<close>

datatype 'e poll = Pending | ReadyErr 'e | ReadyOk bytes

fun poll_fill :: "'e poll \<Rightarrow> bytes \<Rightarrow> bytes" where
  "poll_fill (ReadyOk bs) buf = buf @ bs"
| "poll_fill _ buf = buf"

definition counted_poll_read :: "'e poll \<Rightarrow> bytes \<times> u64 \<Rightarrow> bytes \<times> u64" where
  "counted_poll_read res = (\<lambda>(buf, counter).
     let before = length buf; buf' = poll_fill res buf in
     case res of
       ReadyOk _ \<Rightarrow>
         let delta = length buf' - before in
         (buf', if delta > 0 then counter + word_of_nat delta else counter)
     | _ \<Rightarrow> (buf', counter))"

lemma add_in_simps [simp]:
  "bytes_in (add_in n c) = bytes_in c + n" "bytes_out (add_in n c) = bytes_out c"
  by (auto simp: add_in_def word_greater_zero_iff)

lemma add_out_simps [simp]:
  "bytes_out (add_out n c) = bytes_out c + n" "bytes_in (add_out n c) = bytes_in c"
  by (auto simp: add_out_def word_greater_zero_iff)

lemma counted_poll_read_step:
  "counted_poll_read res (buf, k) =
   (poll_fill res buf, k + word_of_nat (length (poll_fill res buf) - length buf))"
  by (cases res) (simp_all add: counted_poll_read_def Let_def)

text \<open>Over any sequence of polls, pending and failing ones included, the counter of a
  \<^verbatim>\<open>CountedReader\<close> advances by exactly the number of bytes that reached the buffer,
  modulo \<open>2^64\<close>, and the buffer is what the inner reader alone would have filled.\<close>

theorem counted_reader_exact:
  "fold counted_poll_read polls (buf, k) =
   (fold poll_fill polls buf,
    k + word_of_nat (length (fold poll_fill polls buf) - length buf))"
proof (induction polls arbitrary: buf k)
  case (Cons p ps)
  have grow: "length b \<le> length (poll_fill q b)" for q :: "'a poll" and b by (cases q) simp_all
  have "length b \<le> length (fold poll_fill qs b)" for qs :: "'a poll list" and b
    by (induction qs arbitrary: b) (auto intro: order_trans [OF grow])
  then have "length (fold poll_fill ps (poll_fill p buf)) - length buf
      = (length (poll_fill p buf) - length buf)
        + (length (fold poll_fill ps (poll_fill p buf)) - length (poll_fill p buf))"
    using grow [of buf p] by simp
  with Cons show ?case by (simp add: counted_poll_read_step add.assoc)
qed simp

end
