(* ===== verification/Registry.thy ===== *)
theory Registry
  imports Remote Counted "HOL-Library.AList" "HOL-Library.Multiset"
begin

text \<open>
  The server's live state (\<^verbatim>\<open>src/src/server/state.rs\<close>): clients, the tunnels they declared,
  the conns open on each tunnel, and the ring of recent disconnects.

  Entries are shared (\<^verbatim>\<open>Arc\<close>): a tunnel is reachable from its client's map and from the
  global index, a conn from its tunnel and from the global index. They live in heaps, a
  reference is the position in its heap, and the maps hold references, so an update through
  one path is seen through the other. A \<^verbatim>\<open>DashMap\<close> is an association list behind the locale
  \<^verbatim>\<open>dash_map\<close>. Each method of \<^verbatim>\<open>ServerState\<close> is one step; the clock is an argument, in
  milliseconds since the epoch. Sums of counters wrap at 64 bits, as a release build's do.
\<close>

section \<open>Maps\<close>

type_synonym ('k, 'v) dmap = "('k \<times> 'v) list"

definition dm_get :: "('k, 'v) dmap \<Rightarrow> 'k \<Rightarrow> 'v option" where
  "dm_get m k = map_of m k"

definition dm_insert :: "'k \<Rightarrow> 'v \<Rightarrow> ('k, 'v) dmap \<Rightarrow> ('k, 'v) dmap" where
  "dm_insert k v m = AList.update k v m"

definition dm_remove :: "'k \<Rightarrow> ('k, 'v) dmap \<Rightarrow> ('k, 'v) dmap" where
  "dm_remove k m = AList.delete k m"

definition dm_values :: "('k, 'v) dmap \<Rightarrow> 'v list" where
  "dm_values m = map snd m"

definition dm_ok :: "('k, 'v) dmap \<Rightarrow> bool" where
  "dm_ok m \<longleftrightarrow> distinct (map fst m)"

section \<open>Entries\<close>

record tunnel_totals =
  active_in :: u64
  active_out :: u64
  tot_cumulative_in :: u64
  tot_cumulative_out :: u64
  active_conns :: u64
  tot_conns :: u64

record conn_entry =
  cn_id :: u64
  cn_tunnel_id :: u64
  cn_client_id :: u64
  cn_opened_at :: nat
  cn_peer :: "string option"
  cn_counters :: counters

record tunnel_entry =
  tn_id :: u64
  tn_client_id :: u64
  tn_direction :: direction
  tn_kind :: remote_kind
  tn_spec :: string
  tn_opened_at :: nat
  tn_conns :: "(u64, nat) dmap"
  cumulative_in :: u64
  cumulative_out :: u64
  total_conns :: u64

record client_entry =
  cl_id :: u64
  cl_remote :: socket_addr
  cl_connected_at :: nat
  cl_tunnels :: "(u64, nat) dmap"

record history_entry =
  hs_client_id :: u64
  hs_remote :: string
  hs_connected_at :: u64
  hs_disconnected_at :: u64
  hs_reason :: string
  hs_bytes_in :: u64
  hs_bytes_out :: u64
  hs_total_conns :: u64

record server_state =
  started_at :: nat
  listen_addr :: socket_addr
  next_tunnel_id :: u64
  next_conn_id :: u64
  clients :: "(u64, nat) dmap"
  tunnels :: "(u64, nat) dmap"
  live_conns :: "(u64, nat) dmap"
  history :: "history_entry list"
  client_heap :: "client_entry list"
  tunnel_heap :: "tunnel_entry list"
  conn_heap :: "conn_entry list"

definition history_capacity :: nat where
  "history_capacity = 256"

definition unix_ms :: "nat \<Rightarrow> u64" where
  "unix_ms t = word_of_nat t"

definition server_state_new :: "nat \<Rightarrow> socket_addr \<Rightarrow> server_state" where
  "server_state_new now addr =
     \<lparr> started_at = now, listen_addr = addr, next_tunnel_id = 0, next_conn_id = 0,
       clients = [], tunnels = [], live_conns = [], history = [],
       client_heap = [], tunnel_heap = [], conn_heap = [] \<rparr>"

section \<open>Operations\<close>

definition client_count :: "server_state \<Rightarrow> nat" where
  "client_count st = length (clients st)"

definition tunnel_count :: "server_state \<Rightarrow> nat" where
  "tunnel_count st = length (tunnels st)"

definition conn_count :: "server_state \<Rightarrow> nat" where
  "conn_count st = length (live_conns st)"

definition tunnel_entry_totals :: "server_state \<Rightarrow> tunnel_entry \<Rightarrow> tunnel_totals" where
  "tunnel_entry_totals st t =
     (let snaps = map (\<lambda>r. snapshot (cn_counters (conn_heap st ! r))) (dm_values (tn_conns t)) in
      \<lparr> active_in = sum_list (map fst snaps), active_out = sum_list (map snd snaps),
        tot_cumulative_in = cumulative_in t, tot_cumulative_out = cumulative_out t,
        active_conns = word_of_nat (length (tn_conns t)), tot_conns = total_conns t \<rparr>)"

definition totals_zero :: tunnel_totals where
  "totals_zero = \<lparr> active_in = 0, active_out = 0, tot_cumulative_in = 0, tot_cumulative_out = 0,
     active_conns = 0, tot_conns = 0 \<rparr>"

definition totals_add :: "tunnel_totals \<Rightarrow> tunnel_totals \<Rightarrow> tunnel_totals" where
  "totals_add t u =
     \<lparr> active_in = active_in t + active_in u, active_out = active_out t + active_out u,
       tot_cumulative_in = tot_cumulative_in t + tot_cumulative_in u,
       tot_cumulative_out = tot_cumulative_out t + tot_cumulative_out u,
       active_conns = active_conns t + active_conns u, tot_conns = tot_conns t + tot_conns u \<rparr>"

definition client_entry_totals :: "server_state \<Rightarrow> client_entry \<Rightarrow> tunnel_totals" where
  "client_entry_totals st c =
     foldl (\<lambda>t r. totals_add t (tunnel_entry_totals st (tunnel_heap st ! r))) totals_zero
       (dm_values (cl_tunnels c))"

definition register_client :: "u64 \<Rightarrow> socket_addr \<Rightarrow> nat \<Rightarrow> server_state \<Rightarrow> nat \<times> server_state" where
  "register_client i addr now st =
     (let r = length (client_heap st);
          entry = \<lparr> cl_id = i, cl_remote = addr, cl_connected_at = now, cl_tunnels = [] \<rparr> in
      (r, st\<lparr>client_heap := client_heap st @ [entry], clients := dm_insert i r (clients st)\<rparr>))"

definition register_tunnel :: "nat \<Rightarrow> remote_request \<Rightarrow> nat \<Rightarrow> server_state \<Rightarrow> nat \<times> server_state" where
  "register_tunnel cref req now st =
     (let i = next_tunnel_id st + 1;
          client = client_heap st ! cref;
          r = length (tunnel_heap st);
          entry = \<lparr> tn_id = i, tn_client_id = cl_id client, tn_direction = direction req,
            tn_kind = kind req, tn_spec = show_remote req, tn_opened_at = now, tn_conns = [],
            cumulative_in = 0, cumulative_out = 0, total_conns = 0 \<rparr> in
      (r, st\<lparr>next_tunnel_id := i, tunnel_heap := tunnel_heap st @ [entry],
            client_heap := (client_heap st)[cref := client\<lparr>cl_tunnels := dm_insert i r (cl_tunnels client)\<rparr>],
            tunnels := dm_insert i r (tunnels st)\<rparr>))"

fun register_tunnels ::
  "nat \<Rightarrow> remote_request list \<Rightarrow> nat \<Rightarrow> server_state \<Rightarrow> nat list \<times> server_state" where
  "register_tunnels cref [] now st = ([], st)"
| "register_tunnels cref (req # reqs) now st =
     (case register_tunnel cref req now st of
        (r, st') \<Rightarrow> (case register_tunnels cref reqs now st' of (rs, st'') \<Rightarrow> (r # rs, st'')))"

text \<open>A guard names the tunnel and the conn it will close.\<close>

definition register_conn ::
  "nat \<Rightarrow> string option \<Rightarrow> nat \<Rightarrow> server_state \<Rightarrow> (nat \<times> nat) \<times> server_state" where
  "register_conn tref peer now st =
     (let i = next_conn_id st + 1;
          tunnel = tunnel_heap st ! tref;
          r = length (conn_heap st);
          entry = \<lparr> cn_id = i, cn_tunnel_id = tn_id tunnel, cn_client_id = tn_client_id tunnel,
            cn_opened_at = now, cn_peer = peer, cn_counters = counters_new \<rparr> in
      ((tref, r),
       st\<lparr>next_conn_id := i, conn_heap := conn_heap st @ [entry],
          tunnel_heap := (tunnel_heap st)[tref := tunnel\<lparr>tn_conns := dm_insert i r (tn_conns tunnel),
            total_conns := total_conns tunnel + 1\<rparr>],
          live_conns := dm_insert i r (live_conns st)\<rparr>))"

definition close_conn :: "nat \<times> nat \<Rightarrow> server_state \<Rightarrow> server_state" where
  "close_conn g st =
     (case g of (tref, cref) \<Rightarrow>
        let conn = conn_heap st ! cref; tunnel = tunnel_heap st ! tref;
            (i, out) = snapshot (cn_counters conn) in
        st\<lparr>tunnel_heap := (tunnel_heap st)[tref := tunnel\<lparr>
             cumulative_in := cumulative_in tunnel + i,
             cumulative_out := cumulative_out tunnel + out,
             tn_conns := dm_remove (cn_id conn) (tn_conns tunnel)\<rparr>],
           live_conns := dm_remove (cn_id conn) (live_conns st)\<rparr>)"

text \<open>The data plane bumps the counters of a conn it holds.\<close>

definition bump :: "nat \<Rightarrow> u64 \<Rightarrow> u64 \<Rightarrow> server_state \<Rightarrow> server_state" where
  "bump cref n_in n_out st =
     st\<lparr>conn_heap := (conn_heap st)[cref := (conn_heap st ! cref)
          \<lparr>cn_counters := add_out n_out (add_in n_in (cn_counters (conn_heap st ! cref)))\<rparr>]\<rparr>"

definition push_history :: "history_entry \<Rightarrow> history_entry list \<Rightarrow> history_entry list" where
  "push_history h hist = (if length hist = history_capacity then tl hist else hist) @ [h]"

definition drop_tunnel :: "u64 \<Rightarrow> server_state \<Rightarrow> server_state" where
  "drop_tunnel i st =
     (case dm_get (tunnels st) i of
        None \<Rightarrow> st
      | Some r \<Rightarrow>
          st\<lparr>tunnels := dm_remove i (tunnels st),
             live_conns := fold (\<lambda>c. dm_remove (cn_id (conn_heap st ! c)))
               (dm_values (tn_conns (tunnel_heap st ! r))) (live_conns st)\<rparr>)"

definition deregister_client :: "u64 \<Rightarrow> string \<Rightarrow> nat \<Rightarrow> server_state \<Rightarrow> server_state" where
  "deregister_client i reason now st =
     (case dm_get (clients st) i of
        None \<Rightarrow> st
      | Some cref \<Rightarrow>
          let st1 = st\<lparr>clients := dm_remove i (clients st)\<rparr>;
              entry = client_heap st ! cref;
              totals = client_entry_totals st1 entry;
              tunnel_ids = map (\<lambda>r. tn_id (tunnel_heap st1 ! r)) (dm_values (cl_tunnels entry));
              st2 = fold drop_tunnel tunnel_ids st1;
              h = \<lparr> hs_client_id = cl_id entry, hs_remote = show_sock (cl_remote entry),
                hs_connected_at = unix_ms (cl_connected_at entry), hs_disconnected_at = unix_ms now,
                hs_reason = reason, hs_bytes_in = active_in totals + tot_cumulative_in totals,
                hs_bytes_out = active_out totals + tot_cumulative_out totals,
                hs_total_conns = tot_conns totals \<rparr> in
          st2\<lparr>history := push_history h (history st2)\<rparr>)"

definition history_snapshot :: "nat \<Rightarrow> server_state \<Rightarrow> history_entry list" where
  "history_snapshot limit st =
     (let n = min limit (length (history st)) in take n (rev (history st)))"

definition client :: "server_state \<Rightarrow> u64 \<Rightarrow> client_entry option" where
  "client st i = map_option (\<lambda>r. client_heap st ! r) (dm_get (clients st) i)"

definition tunnel :: "server_state \<Rightarrow> u64 \<Rightarrow> tunnel_entry option" where
  "tunnel st i = map_option (\<lambda>r. tunnel_heap st ! r) (dm_get (tunnels st) i)"

definition live_conn :: "server_state \<Rightarrow> u64 \<Rightarrow> conn_entry option" where
  "live_conn st i = map_option (\<lambda>r. conn_heap st ! r) (dm_get (live_conns st) i)"

definition clients_snapshot :: "server_state \<Rightarrow> client_entry list" where
  "clients_snapshot st = map (\<lambda>r. client_heap st ! r) (dm_values (clients st))"

definition tunnels_snapshot :: "server_state \<Rightarrow> tunnel_entry list" where
  "tunnels_snapshot st = map (\<lambda>r. tunnel_heap st ! r) (dm_values (tunnels st))"

definition conns_snapshot :: "server_state \<Rightarrow> conn_entry list" where
  "conns_snapshot st = map (\<lambda>r. conn_heap st ! r) (dm_values (live_conns st))"

section \<open>What the maps promise\<close>

locale dash_map =
  fixes get :: "'m \<Rightarrow> 'k \<Rightarrow> 'v option"
    and ins :: "'k \<Rightarrow> 'v \<Rightarrow> 'm \<Rightarrow> 'm"
    and rem :: "'k \<Rightarrow> 'm \<Rightarrow> 'm"
    and vals :: "'m \<Rightarrow> 'v list"
    and ok :: "'m \<Rightarrow> bool"
  assumes get_ins: "get (ins k v m) j = (if j = k then Some v else get m j)"
    and get_rem: "get (rem k m) j = (if j = k then None else get m j)"
    and ok_ins: "ok m \<Longrightarrow> ok (ins k v m)"
    and ok_rem: "ok m \<Longrightarrow> ok (rem k m)"
    and vals_get: "ok m \<Longrightarrow> set (vals m) = ran (get m)"
    and vals_ins: "get m k = None \<Longrightarrow> mset (vals (ins k v m)) = add_mset v (mset (vals m))"
    and vals_rem: "ok m \<Longrightarrow> get m k = Some v \<Longrightarrow> mset (vals m) = add_mset v (mset (vals (rem k m)))"
begin

lemma get_rem_all: "get (fold rem ks m) j = (if j \<in> set ks then None else get m j)"
  by (induction ks arbitrary: m) (auto simp: get_rem)

lemma get_rem_map: "get (fold (\<lambda>x. rem (f x)) xs m) j = (if j \<in> f ` set xs then None else get m j)"
  by (induction xs arbitrary: m) (auto simp: get_rem)

lemma ok_rem_map: "ok m \<Longrightarrow> ok (fold (\<lambda>x. rem (f x)) xs m)"
  by (induction xs arbitrary: m) (auto intro: ok_rem)

lemma in_vals: "ok m \<Longrightarrow> v \<in> set (vals m) \<longleftrightarrow> (\<exists>k. get m k = Some v)"
  by (simp add: vals_get ran_def)

lemma sum_vals_ins:
  fixes f :: "'v \<Rightarrow> 'n::comm_monoid_add"
  assumes "get m k = None"
  shows "sum_list (map f (vals (ins k v m))) = f v + sum_list (map f (vals m))"
  using arg_cong [OF vals_ins [OF assms, of v], of "\<lambda>M. sum_mset (image_mset f M)"]
  by (simp add: sum_mset_sum_list [symmetric] del: sum_mset_sum_list)

lemma sum_vals_rem:
  fixes f :: "'v \<Rightarrow> 'n::comm_monoid_add"
  assumes "ok m" "get m k = Some v"
  shows "sum_list (map f (vals m)) = f v + sum_list (map f (vals (rem k m)))"
  using arg_cong [OF vals_rem [OF assms], of "\<lambda>M. sum_mset (image_mset f M)"]
  by (simp add: sum_mset_sum_list [symmetric] del: sum_mset_sum_list)

end

lemma AList_update_fresh: "map_of m k = None \<Longrightarrow> AList.update k v m = m @ [(k, v)]"
  by (induction m) (auto split: if_splits)

lemma AList_delete_present:
  "distinct (map fst m) \<Longrightarrow> map_of m k = Some v \<Longrightarrow>
   mset (map snd m) = add_mset v (mset (map snd (AList.delete k m)))"
proof (induction m)
  case (Cons x m)
  show ?case
  proof (cases "fst x = k")
    case True
    with Cons.prems have "k \<notin> fst ` set m" "snd x = v" by auto
    moreover from this have "AList.delete k m = m" by (simp add: AList.delete_id)
    ultimately show ?thesis using True by simp
  next
    case False
    with Cons show ?thesis by simp
  qed
qed simp

interpretation dm: dash_map dm_get dm_insert dm_remove dm_values dm_ok
proof unfold_locales
  fix m :: "('k, 'v) dmap" and k j v
  show "dm_get (dm_insert k v m) j = (if j = k then Some v else dm_get m j)"
    by (simp add: dm_get_def dm_insert_def AList.update_conv')
  show "dm_get (dm_remove k m) j = (if j = k then None else dm_get m j)"
    by (simp add: dm_get_def dm_remove_def AList.delete_conv')
  show "dm_ok m \<Longrightarrow> dm_ok (dm_insert k v m)" by (simp add: dm_ok_def dm_insert_def AList.distinct_update)
  show "dm_ok m \<Longrightarrow> dm_ok (dm_remove k m)" by (simp add: dm_ok_def dm_remove_def AList.distinct_delete)
  show "dm_ok m \<Longrightarrow> set (dm_values m) = ran (dm_get m)"
    unfolding dm_ok_def dm_values_def dm_get_def by (simp add: ran_distinct)
  show "dm_get m k = None \<Longrightarrow> mset (dm_values (dm_insert k v m)) = add_mset v (mset (dm_values m))"
    by (simp add: dm_get_def dm_values_def dm_insert_def AList_update_fresh)
  show "dm_ok m \<Longrightarrow> dm_get m k = Some v \<Longrightarrow>
      mset (dm_values m) = add_mset v (mset (dm_values (dm_remove k m)))"
    unfolding dm_get_def dm_ok_def dm_values_def dm_remove_def by (rule AList_delete_present)
qed

lemma dm_empty [simp]: "dm_get [] k = None" "dm_ok []" "dm_values [] = []"
  by (simp_all add: dm_get_def dm_ok_def dm_values_def)

lemmas dm_simps [simp] = dm.get_ins dm.get_rem

end
