(* ===== verification/Registry_Inv.thy ===== *)
theory Registry_Inv
  imports Registry
begin

text \<open>
  The invariant of the server's live state, that every operation keeps it, and what it gives:
  consistency of the flat indices with the per-client tables, conservation of byte counts across
  open, traffic, close and deregistration, the order in which a hello's tunnels are numbered, and
  the history ring as a bounded view of all disconnects.
\<close>

section \<open>The invariant\<close>

text \<open>Ids are the positions in the heaps, so they are distinct; the maps are well formed and
  hold references to entries with the right id and owner; the flat index of tunnels is the
  union of the maps of the registered clients; every conn of an indexed tunnel is in the
  flat index of conns, and every indexed conn belongs to some tunnel.\<close>

definition ids_ok :: "server_state \<Rightarrow> bool" where
  "ids_ok st \<longleftrightarrow>
     length (tunnel_heap st) < 2 ^ 64 \<and> length (conn_heap st) < 2 ^ 64 \<and>
     next_tunnel_id st = word_of_nat (length (tunnel_heap st)) \<and>
     next_conn_id st = word_of_nat (length (conn_heap st)) \<and>
     (\<forall>r<length (tunnel_heap st). tn_id (tunnel_heap st ! r) = word_of_nat (Suc r)) \<and>
     (\<forall>r<length (conn_heap st). cn_id (conn_heap st ! r) = word_of_nat (Suc r))"

definition clients_ok :: "server_state \<Rightarrow> bool" where
  "clients_ok st \<longleftrightarrow> dm_ok (clients st) \<and> dm_ok (tunnels st) \<and> dm_ok (live_conns st) \<and>
     (\<forall>i c. dm_get (clients st) i = Some c \<longrightarrow> c < length (client_heap st) \<and> cl_id (client_heap st ! c) = i) \<and>
     (\<forall>c<length (client_heap st). dm_ok (cl_tunnels (client_heap st ! c)) \<and>
       (\<forall>i r. dm_get (cl_tunnels (client_heap st ! c)) i = Some r \<longrightarrow>
         r < length (tunnel_heap st) \<and> tn_id (tunnel_heap st ! r) = i \<and>
         tn_client_id (tunnel_heap st ! r) = cl_id (client_heap st ! c)))"

definition registered :: "server_state \<Rightarrow> nat \<Rightarrow> bool" where
  "registered st c \<longleftrightarrow> dm_get (clients st) (cl_id (client_heap st ! c)) = Some c"

definition index_ok :: "server_state \<Rightarrow> bool" where
  "index_ok st \<longleftrightarrow> (\<forall>i r. dm_get (tunnels st) i = Some r \<longleftrightarrow>
     (\<exists>c<length (client_heap st). registered st c \<and> dm_get (cl_tunnels (client_heap st ! c)) i = Some r))"

definition conns_ok :: "server_state \<Rightarrow> bool" where
  "conns_ok st \<longleftrightarrow>
     (\<forall>t<length (tunnel_heap st). dm_ok (tn_conns (tunnel_heap st ! t)) \<and>
       (\<forall>i r. dm_get (tn_conns (tunnel_heap st ! t)) i = Some r \<longrightarrow>
         r < length (conn_heap st) \<and> cn_id (conn_heap st ! r) = i \<and>
         cn_tunnel_id (conn_heap st ! r) = tn_id (tunnel_heap st ! t) \<and>
         cn_client_id (conn_heap st ! r) = tn_client_id (tunnel_heap st ! t))) \<and>
     (\<forall>i r. dm_get (live_conns st) i = Some r \<longrightarrow>
       (\<exists>t<length (tunnel_heap st). dm_get (tn_conns (tunnel_heap st ! t)) i = Some r)) \<and>
     (\<forall>t<length (tunnel_heap st). \<forall>i r. dm_get (tunnels st) (tn_id (tunnel_heap st ! t)) = Some t \<longrightarrow>
       dm_get (tn_conns (tunnel_heap st ! t)) i = Some r \<longrightarrow> dm_get (live_conns st) i = Some r)"

definition wf_state :: "server_state \<Rightarrow> bool" where
  "wf_state st \<longleftrightarrow> ids_ok st \<and> clients_ok st \<and> index_ok st \<and> conns_ok st \<and>
     length (history st) \<le> history_capacity"

lemma word_of_Suc_inj:
  "Suc a < 2 ^ 64 \<Longrightarrow> Suc b < 2 ^ 64 \<Longrightarrow> (word_of_nat (Suc a) :: u64) = word_of_nat (Suc b) \<longleftrightarrow> a = b"
  by (auto simp: word_of_nat_eq_iff take_bit_eq_mod)

lemma tn_id_inj:
  "ids_ok st \<Longrightarrow> r < length (tunnel_heap st) \<Longrightarrow> s < length (tunnel_heap st) \<Longrightarrow>
   tn_id (tunnel_heap st ! r) = tn_id (tunnel_heap st ! s) \<longleftrightarrow> r = s"
  using word_of_Suc_inj [of r s] by (auto simp: ids_ok_def)

lemma cn_id_inj:
  "ids_ok st \<Longrightarrow> r < length (conn_heap st) \<Longrightarrow> s < length (conn_heap st) \<Longrightarrow>
   cn_id (conn_heap st ! r) = cn_id (conn_heap st ! s) \<longleftrightarrow> r = s"
  using word_of_Suc_inj [of r s] by (auto simp: ids_ok_def)

lemma fresh_tunnel_id:
  assumes "ids_ok st" "Suc (length (tunnel_heap st)) < 2 ^ 64" "r < length (tunnel_heap st)"
  shows "tn_id (tunnel_heap st ! r) \<noteq> next_tunnel_id st + 1"
  using assms word_of_Suc_inj [of r "length (tunnel_heap st)"] by (auto simp: ids_ok_def add.commute)

lemma fresh_conn_id:
  assumes "ids_ok st" "Suc (length (conn_heap st)) < 2 ^ 64" "r < length (conn_heap st)"
  shows "cn_id (conn_heap st ! r) \<noteq> next_conn_id st + 1"
  using assms word_of_Suc_inj [of r "length (conn_heap st)"] by (auto simp: ids_ok_def add.commute)

lemma wf_new: "wf_state (server_state_new now addr)"
  by (simp add: wf_state_def ids_ok_def clients_ok_def index_ok_def conns_ok_def server_state_new_def)

lemma ids_ok_frame [simp]:
  "ids_ok (st\<lparr>clients := x\<rparr>) = ids_ok st" "ids_ok (st\<lparr>client_heap := y\<rparr>) = ids_ok st"
  "ids_ok (st\<lparr>tunnels := x\<rparr>) = ids_ok st" "ids_ok (st\<lparr>live_conns := x\<rparr>) = ids_ok st"
  "ids_ok (st\<lparr>history := z\<rparr>) = ids_ok st"
  by (simp_all add: ids_ok_def)

lemma conns_ok_frame [simp]:
  "conns_ok (st\<lparr>clients := x\<rparr>) = conns_ok st" "conns_ok (st\<lparr>client_heap := y\<rparr>) = conns_ok st"
  "conns_ok (st\<lparr>history := z\<rparr>) = conns_ok st"
  by (simp_all add: conns_ok_def)

lemma client_ref:
  "clients_ok st \<Longrightarrow> dm_get (clients st) i = Some c \<Longrightarrow>
   c < length (client_heap st) \<and> cl_id (client_heap st ! c) = i"
  by (simp add: clients_ok_def)

lemma wf_register_client:
  assumes "wf_state st" "i \<notin> cl_id ` set (client_heap st)"
  shows "wf_state (snd (register_client i addr now st))"
proof -
  have neq: "cl_id (client_heap st ! c) \<noteq> i" if "c < length (client_heap st)" for c
    using assms(2) that by auto
  then have new: "dm_get (clients st) i = None"
    using client_ref [of st i] assms(1) by (cases "dm_get (clients st) i") (auto simp: wf_state_def)
  have "clients_ok (snd (register_client i addr now st))"
    using assms by (auto simp: wf_state_def clients_ok_def register_client_def Let_def nth_append dm.ok_ins less_Suc_eq
        split: if_splits)
  moreover have "index_ok (snd (register_client i addr now st))"
    using assms new neq
    by (auto simp: wf_state_def index_ok_def registered_def register_client_def Let_def nth_append less_Suc_eq)
  ultimately show ?thesis
    using assms(1) by (simp add: wf_state_def register_client_def Let_def)
qed

lemma tunnel_ref:
  "clients_ok st \<Longrightarrow> c < length (client_heap st) \<Longrightarrow> dm_get (cl_tunnels (client_heap st ! c)) i = Some r \<Longrightarrow>
   r < length (tunnel_heap st) \<and> tn_id (tunnel_heap st ! r) = i \<and>
   tn_client_id (tunnel_heap st ! r) = cl_id (client_heap st ! c)"
  by (simp add: clients_ok_def)

lemma conn_ref:
  "conns_ok st \<Longrightarrow> t < length (tunnel_heap st) \<Longrightarrow> dm_get (tn_conns (tunnel_heap st ! t)) i = Some r \<Longrightarrow>
   r < length (conn_heap st) \<and> cn_id (conn_heap st ! r) = i \<and>
   cn_tunnel_id (conn_heap st ! r) = tn_id (tunnel_heap st ! t) \<and>
   cn_client_id (conn_heap st ! r) = tn_client_id (tunnel_heap st ! t)"
  by (simp add: conns_ok_def)

lemma index_ref:
  assumes "index_ok st" "clients_ok st" "dm_get (tunnels st) i = Some r"
  shows "r < length (tunnel_heap st) \<and> tn_id (tunnel_heap st ! r) = i"
  using assms tunnel_ref [OF assms(2)] by (auto simp: index_ok_def)

lemma tunnel_one_client:
  assumes "ids_ok st" "clients_ok st" "c < length (client_heap st)" "d < length (client_heap st)"
    and "dm_get (cl_tunnels (client_heap st ! c)) i = Some r" "dm_get (cl_tunnels (client_heap st ! d)) i = Some s"
  shows "r = s \<and> cl_id (client_heap st ! c) = cl_id (client_heap st ! d)"
proof -
  note refs = tunnel_ref [OF assms(2,3,5)] tunnel_ref [OF assms(2,4,6)]
  then have "r = s" using tn_id_inj [OF assms(1), of r s] by simp
  with refs show ?thesis by simp
qed

lemma conn_one_tunnel:
  assumes "ids_ok st" "conns_ok st" "t < length (tunnel_heap st)" "u < length (tunnel_heap st)"
    and "dm_get (tn_conns (tunnel_heap st ! t)) i = Some r" "dm_get (tn_conns (tunnel_heap st ! u)) i = Some s"
  shows "r = s \<and> t = u"
proof -
  note refs = conn_ref [OF assms(2,3,5)] conn_ref [OF assms(2,4,6)]
  then have "r = s" using cn_id_inj [OF assms(1), of r s] by simp
  with refs show ?thesis using tn_id_inj [OF assms(1,3,4)] by simp
qed

lemma index_register_tunnel:
  assumes "index_ok st" "cref < length (client_heap st)" "registered st cref"
    and unused: "\<And>c. c < length (client_heap st) \<Longrightarrow>
      dm_get (cl_tunnels (client_heap st ! c)) (next_tunnel_id st + 1) = None"
  shows "index_ok (snd (register_tunnel cref req now st))" (is "index_ok ?st")
  unfolding index_ok_def
proof (intro allI)
  let ?i = "next_tunnel_id st + 1" and ?r = "length (tunnel_heap st)"
  fix i r
  have reg: "registered ?st c = registered st c" for c
    using assms(2) by (auto simp: registered_def register_tunnel_def Let_def nth_list_update)
  have get: "dm_get (cl_tunnels (client_heap ?st ! c)) i = Some r \<longleftrightarrow>
      (if c = cref \<and> i = ?i then r = ?r else dm_get (cl_tunnels (client_heap st ! c)) i = Some r)" for c
    using assms(2) by (auto simp: register_tunnel_def Let_def nth_list_update)
  have len: "length (client_heap ?st) = length (client_heap st)"
    and tn: "dm_get (tunnels ?st) i = (if i = ?i then Some ?r else dm_get (tunnels st) i)"
    by (simp_all add: register_tunnel_def Let_def)
  show "(dm_get (tunnels ?st) i = Some r) = (\<exists>c<length (client_heap ?st). registered ?st c \<and>
      dm_get (cl_tunnels (client_heap ?st ! c)) i = Some r)"
  proof (cases "i = ?i")
    case True
    with assms(2,3) get unused show ?thesis unfolding tn len reg by (auto split: if_splits)
  next
    case False
    with assms(1) get show ?thesis unfolding tn len reg by (auto simp: index_ok_def)
  qed
qed

lemma wf_register_tunnel:
  assumes "wf_state st" "cref < length (client_heap st)" "registered st cref"
    and room: "Suc (length (tunnel_heap st)) < 2 ^ 64"
  shows "wf_state (snd (register_tunnel cref req now st))" (is "wf_state ?st")
proof -
  let ?i = "next_tunnel_id st + 1"
  from assms(1) have ids: "ids_ok st" and cl: "clients_ok st" and ix: "index_ok st" and cn: "conns_ok st"
    by (simp_all add: wf_state_def)
  have fresh: "tn_id (tunnel_heap st ! r) \<noteq> ?i" if "r < length (tunnel_heap st)" for r
    using fresh_tunnel_id [OF ids room that] .
  then have unused: "dm_get (cl_tunnels (client_heap st ! c)) ?i = None" if "c < length (client_heap st)" for c
    using tunnel_ref [OF cl that, of ?i] by (cases "dm_get (cl_tunnels (client_heap st ! c)) ?i") auto
  have "ids_ok ?st"
    using ids room by (auto simp: ids_ok_def register_tunnel_def Let_def nth_append less_Suc_eq add.commute)
  moreover have "clients_ok ?st"
    using cl assms(2) unused
    by (auto simp: clients_ok_def register_tunnel_def Let_def nth_append dm.ok_ins nth_list_update less_Suc_eq
        split: if_splits)
  moreover have "index_ok ?st" using ix assms(2,3) unused by (rule index_register_tunnel)
  moreover have "conns_ok ?st"
    using cn fresh
    by (auto simp: conns_ok_def register_tunnel_def Let_def nth_append less_Suc_eq) metis
  ultimately show ?thesis
    using assms(1) by (simp add: wf_state_def register_tunnel_def Let_def)
qed

lemma register_conn_view:
  fixes st t peer now
  assumes "t < length (tunnel_heap st)"
  defines "i \<equiv> next_conn_id st + 1" and "r \<equiv> length (conn_heap st)" and "st' \<equiv> snd (register_conn t peer now st)"
  shows "length (tunnel_heap st') = length (tunnel_heap st)" "length (conn_heap st') = Suc r" "tunnels st' = tunnels st"
    and "tn_id (tunnel_heap st' ! u) = tn_id (tunnel_heap st ! u)"
    and "tn_client_id (tunnel_heap st' ! u) = tn_client_id (tunnel_heap st ! u)"
    and "dm_get (tn_conns (tunnel_heap st' ! u)) j =
      (if u = t \<and> j = i then Some r else dm_get (tn_conns (tunnel_heap st ! u)) j)"
    and "dm_get (live_conns st') j = (if j = i then Some r else dm_get (live_conns st) j)"
    and "dm_ok (tn_conns (tunnel_heap st ! u)) \<Longrightarrow> dm_ok (tn_conns (tunnel_heap st' ! u))"
    and "k < r \<Longrightarrow> conn_heap st' ! k = conn_heap st ! k"
    and "cn_id (conn_heap st' ! r) = i" "cn_tunnel_id (conn_heap st' ! r) = tn_id (tunnel_heap st ! t)"
    and "cn_client_id (conn_heap st' ! r) = tn_client_id (tunnel_heap st ! t)"
  using assms by (auto simp: register_conn_def Let_def nth_list_update nth_append dm.ok_ins)

lemma conns_register_conn:
  assumes cn: "conns_ok st" and t: "t < length (tunnel_heap st)"
    and unused: "\<And>u. u < length (tunnel_heap st) \<Longrightarrow>
      dm_get (tn_conns (tunnel_heap st ! u)) (next_conn_id st + 1) = None"
  shows "conns_ok (snd (register_conn t peer now st))" (is "conns_ok ?st")
proof -
  let ?i = "next_conn_id st + 1" and ?r = "length (conn_heap st)"
  note view = register_conn_view [OF t, where peer = peer and now = now]
  show ?thesis
    unfolding conns_ok_def view(1-7)
  proof (intro conjI allI impI)
    fix u i r assume u: "u < length (tunnel_heap st)"
    show "dm_ok (tn_conns (tunnel_heap ?st ! u))" using cn u view(8) by (simp add: conns_ok_def)
    assume g: "(if u = t \<and> i = ?i then Some ?r else dm_get (tn_conns (tunnel_heap st ! u)) i) = Some r"
    show "r < Suc ?r" "cn_id (conn_heap ?st ! r) = i" "cn_tunnel_id (conn_heap ?st ! r) = tn_id (tunnel_heap st ! u)"
      "cn_client_id (conn_heap ?st ! r) = tn_client_id (tunnel_heap st ! u)"
      using g conn_ref [OF cn u, of i r] view(9-12) by (auto split: if_splits)
    assume "dm_get (tunnels st) (tn_id (tunnel_heap st ! u)) = Some u"
    with g u cn unused show "(if i = ?i then Some ?r else dm_get (live_conns st) i) = Some r"
      by (auto simp: conns_ok_def split: if_splits)
  next
    fix i r assume "(if i = ?i then Some ?r else dm_get (live_conns st) i) = Some r"
    with cn t show "\<exists>u<length (tunnel_heap st).
        (if u = t \<and> i = ?i then Some ?r else dm_get (tn_conns (tunnel_heap st ! u)) i) = Some r"
      by (auto simp: conns_ok_def split: if_splits)
  qed
qed

lemma wf_register_conn:
  assumes "wf_state st" "t < length (tunnel_heap st)" and room: "Suc (length (conn_heap st)) < 2 ^ 64"
  shows "wf_state (snd (register_conn t peer now st))" (is "wf_state ?st")
proof -
  let ?i = "next_conn_id st + 1"
  from assms(1) have ids: "ids_ok st" and cl: "clients_ok st" and ix: "index_ok st" and cn: "conns_ok st"
    by (simp_all add: wf_state_def)
  have "cn_id (conn_heap st ! r) \<noteq> ?i" if "r < length (conn_heap st)" for r
    using fresh_conn_id [OF ids room that] .
  then have unused: "dm_get (tn_conns (tunnel_heap st ! u)) ?i = None" if "u < length (tunnel_heap st)" for u
    using conn_ref [OF cn that, of ?i] by (cases "dm_get (tn_conns (tunnel_heap st ! u)) ?i") auto
  have "ids_ok ?st"
    using ids room assms(2)
    by (auto simp: ids_ok_def register_conn_def Let_def nth_append less_Suc_eq nth_list_update add.commute)
  moreover have "clients_ok ?st"
    using cl assms(2) by (auto simp: clients_ok_def register_conn_def Let_def nth_list_update dm.ok_ins)
  moreover have "index_ok ?st"
    using ix by (simp add: index_ok_def registered_def register_conn_def Let_def)
  moreover have "conns_ok ?st" using cn assms(2) unused by (rule conns_register_conn)
  ultimately show ?thesis
    using assms(1) by (simp add: wf_state_def register_conn_def Let_def)
qed

text \<open>A guard is live as long as its conn is attached to its tunnel.\<close>

definition guard_live :: "nat \<times> nat \<Rightarrow> server_state \<Rightarrow> bool" where
  "guard_live g st \<longleftrightarrow> fst g < length (tunnel_heap st) \<and> snd g < length (conn_heap st) \<and>
     dm_get (tn_conns (tunnel_heap st ! fst g)) (cn_id (conn_heap st ! snd g)) = Some (snd g)"

lemma close_conn_view:
  fixes st t c
  assumes "t < length (tunnel_heap st)"
  defines "i \<equiv> cn_id (conn_heap st ! c)" and "st' \<equiv> close_conn (t, c) st"
  shows "length (tunnel_heap st') = length (tunnel_heap st)" "conn_heap st' = conn_heap st" "tunnels st' = tunnels st"
    and "tn_id (tunnel_heap st' ! u) = tn_id (tunnel_heap st ! u)"
    and "tn_client_id (tunnel_heap st' ! u) = tn_client_id (tunnel_heap st ! u)"
    and "dm_get (tn_conns (tunnel_heap st' ! u)) j =
      (if u = t \<and> j = i then None else dm_get (tn_conns (tunnel_heap st ! u)) j)"
    and "dm_get (live_conns st') j = (if j = i then None else dm_get (live_conns st) j)"
    and "dm_ok (tn_conns (tunnel_heap st ! u)) \<Longrightarrow> dm_ok (tn_conns (tunnel_heap st' ! u))"
  using assms by (auto simp: close_conn_def snapshot_def Let_def nth_list_update dm.ok_rem)

lemma conns_close_conn:
  assumes ids: "ids_ok st" and cn: "conns_ok st" and live: "guard_live (t, c) st"
  shows "conns_ok (close_conn (t, c) st)" (is "conns_ok ?st")
proof -
  let ?i = "cn_id (conn_heap st ! c)"
  from live have t: "t < length (tunnel_heap st)" and att: "dm_get (tn_conns (tunnel_heap st ! t)) ?i = Some c"
    by (simp_all add: guard_live_def)
  note view = close_conn_view [OF t, where c = c]
  show ?thesis
    unfolding conns_ok_def view(1-7)
  proof (intro conjI allI impI)
    fix u i r assume u: "u < length (tunnel_heap st)"
    show "dm_ok (tn_conns (tunnel_heap ?st ! u))" using cn u view(8) by (simp add: conns_ok_def)
    assume g: "(if u = t \<and> i = ?i then None else dm_get (tn_conns (tunnel_heap st ! u)) i) = Some r"
    then have g': "dm_get (tn_conns (tunnel_heap st ! u)) i = Some r" by (simp split: if_splits)
    from conn_ref [OF cn u this] show "r < length (conn_heap st)" "cn_id (conn_heap st ! r) = i"
      "cn_tunnel_id (conn_heap st ! r) = tn_id (tunnel_heap st ! u)"
      "cn_client_id (conn_heap st ! r) = tn_client_id (tunnel_heap st ! u)" by simp_all
    assume "dm_get (tunnels st) (tn_id (tunnel_heap st ! u)) = Some u"
    with g' u cn have "dm_get (live_conns st) i = Some r" unfolding conns_ok_def by blast
    moreover have "i \<noteq> ?i" using g g' conn_one_tunnel [OF ids cn t u att] by auto
    ultimately show "(if i = ?i then None else dm_get (live_conns st) i) = Some r" by simp
  next
    fix i r assume "(if i = ?i then None else dm_get (live_conns st) i) = Some r"
    with cn show "\<exists>u<length (tunnel_heap st). (if u = t \<and> i = ?i then None
      else dm_get (tn_conns (tunnel_heap st ! u)) i) = Some r"
      by (auto simp: conns_ok_def split: if_splits)
  qed
qed

lemma wf_close_conn:
  assumes "wf_state st" "guard_live (t, c) st"
  shows "wf_state (close_conn (t, c) st)" (is "wf_state ?st")
proof -
  note defs = close_conn_def snapshot_def Let_def
  from assms(1) have ids: "ids_ok st" and cl: "clients_ok st" and ix: "index_ok st" and cn: "conns_ok st"
    by (simp_all add: wf_state_def)
  from assms(2) have t: "t < length (tunnel_heap st)" by (simp add: guard_live_def)
  have "ids_ok ?st" using ids t by (auto simp: ids_ok_def defs nth_list_update)
  moreover have "clients_ok ?st"
    using cl t by (auto simp: clients_ok_def defs nth_list_update dm.ok_rem)
  moreover have "index_ok ?st" using ix by (simp add: index_ok_def registered_def defs)
  moreover have "conns_ok ?st" using ids cn assms(2) by (rule conns_close_conn)
  ultimately show ?thesis using assms(1) by (simp add: wf_state_def defs)
qed

lemma wf_bump:
  assumes "wf_state st" "c < length (conn_heap st)"
  shows "wf_state (bump c n m st)"
proof -
  have same: "cn_id (conn_heap (bump c n m st) ! r) = cn_id (conn_heap st ! r)"
    "cn_tunnel_id (conn_heap (bump c n m st) ! r) = cn_tunnel_id (conn_heap st ! r)"
    "cn_client_id (conn_heap (bump c n m st) ! r) = cn_client_id (conn_heap st ! r)" for r
    using assms(2) by (auto simp: bump_def nth_list_update)
  have rest: "length (conn_heap (bump c n m st)) = length (conn_heap st)"
    "tunnel_heap (bump c n m st) = tunnel_heap st" "client_heap (bump c n m st) = client_heap st"
    "clients (bump c n m st) = clients st" "tunnels (bump c n m st) = tunnels st"
    "live_conns (bump c n m st) = live_conns st" "history (bump c n m st) = history st"
    "next_tunnel_id (bump c n m st) = next_tunnel_id st" "next_conn_id (bump c n m st) = next_conn_id st"
    by (simp_all add: bump_def)
  show ?thesis
    using assms(1)
    unfolding wf_state_def ids_ok_def clients_ok_def index_ok_def registered_def conns_ok_def same rest .
qed

section \<open>Deregistration\<close>

definition dropped_conns :: "u64 list \<Rightarrow> server_state \<Rightarrow> u64 set" where
  "dropped_conns ids st =
     {cn_id (conn_heap st ! c) | c. \<exists>i\<in>set ids. \<exists>r. dm_get (tunnels st) i = Some r \<and>
        c \<in> set (dm_values (tn_conns (tunnel_heap st ! r)))}"

lemma drop_tunnel_heaps [simp]:
  "client_heap (drop_tunnel i st) = client_heap st" "tunnel_heap (drop_tunnel i st) = tunnel_heap st"
  "conn_heap (drop_tunnel i st) = conn_heap st" "clients (drop_tunnel i st) = clients st"
  "history (drop_tunnel i st) = history st" "next_tunnel_id (drop_tunnel i st) = next_tunnel_id st"
  "next_conn_id (drop_tunnel i st) = next_conn_id st"
  by (simp_all add: drop_tunnel_def split: option.split)

lemma drop_tunnels_heaps [simp]:
  "client_heap (fold drop_tunnel ids st) = client_heap st" "tunnel_heap (fold drop_tunnel ids st) = tunnel_heap st"
  "conn_heap (fold drop_tunnel ids st) = conn_heap st" "clients (fold drop_tunnel ids st) = clients st"
  "history (fold drop_tunnel ids st) = history st" "next_tunnel_id (fold drop_tunnel ids st) = next_tunnel_id st"
  "next_conn_id (fold drop_tunnel ids st) = next_conn_id st"
  by (induction ids arbitrary: st) simp_all

lemma drop_tunnels_ok:
  "dm_ok (tunnels st) \<Longrightarrow> dm_ok (live_conns st) \<Longrightarrow>
   dm_ok (tunnels (fold drop_tunnel ids st)) \<and> dm_ok (live_conns (fold drop_tunnel ids st))"
  by (induction ids arbitrary: st)
    (auto simp: drop_tunnel_def dm.ok_rem dm.ok_rem_map split: option.split)

lemma drop_tunnels_get:
  "dm_get (tunnels (fold drop_tunnel ids st)) j = (if j \<in> set ids then None else dm_get (tunnels st) j)"
  by (induction ids arbitrary: st) (auto simp: drop_tunnel_def split: option.split)

lemma drop_tunnels_live:
  "dm_get (live_conns (fold drop_tunnel ids st)) j =
   (if j \<in> dropped_conns ids st then None else dm_get (live_conns st) j)"
proof (induction ids arbitrary: st)
  case Nil
  then show ?case by (simp add: dropped_conns_def)
next
  case (Cons i ids)
  show ?case
  proof (cases "dm_get (tunnels st) i")
    case None
    then have "dropped_conns (i # ids) st = dropped_conns ids st" "drop_tunnel i st = st"
      by (auto simp: dropped_conns_def drop_tunnel_def)
    with Cons show ?thesis by simp
  next
    case (Some r)
    then have "dropped_conns (i # ids) st =
        (\<lambda>c. cn_id (conn_heap st ! c)) ` set (dm_values (tn_conns (tunnel_heap st ! r))) \<union>
        dropped_conns ids (drop_tunnel i st)"
      by (auto simp: dropped_conns_def drop_tunnel_def split: if_splits) (metis imageI option.inject)
    moreover have "dm_get (live_conns (drop_tunnel i st)) j =
        (if j \<in> (\<lambda>c. cn_id (conn_heap st ! c)) ` set (dm_values (tn_conns (tunnel_heap st ! r)))
         then None else dm_get (live_conns st) j)"
      using Some by (simp add: drop_tunnel_def dm.get_rem_map)
    ultimately show ?thesis using Cons [of "drop_tunnel i st"] by simp
  qed
qed

text \<open>The tunnels and conns a client owns.\<close>

definition owns_tunnel :: "server_state \<Rightarrow> nat \<Rightarrow> u64 \<Rightarrow> bool" where
  "owns_tunnel st c i \<longleftrightarrow> dm_get (cl_tunnels (client_heap st ! c)) i \<noteq> None"

definition owns_conn :: "server_state \<Rightarrow> nat \<Rightarrow> u64 \<Rightarrow> bool" where
  "owns_conn st c j \<longleftrightarrow> (\<exists>i t. dm_get (cl_tunnels (client_heap st ! c)) i = Some t \<and>
     dm_get (tn_conns (tunnel_heap st ! t)) j \<noteq> None)"

lemma client_tunnel_ids:
  assumes "clients_ok st" "c < length (client_heap st)"
  shows "set (map (\<lambda>r. tn_id (tunnel_heap st ! r)) (dm_values (cl_tunnels (client_heap st ! c))))
    = {i. owns_tunnel st c i}"
proof -
  have ok: "dm_ok (cl_tunnels (client_heap st ! c))" using assms by (simp add: clients_ok_def)
  show ?thesis
    using tunnel_ref [OF assms] by (force simp: owns_tunnel_def dm.vals_get [OF ok] ran_def)
qed

lemma client_dropped_conns:
  assumes "wf_state st" "c < length (client_heap st)" "registered st c"
  shows "dropped_conns (map (\<lambda>r. tn_id (tunnel_heap st ! r)) (dm_values (cl_tunnels (client_heap st ! c))))
      (st\<lparr>clients := x\<rparr>) = {j. owns_conn st c j}" (is "?l = ?r")
proof -
  from assms have cl: "clients_ok st" and ix: "index_ok st" and cn: "conns_ok st" by (simp_all add: wf_state_def)
  have idx: "dm_get (tunnels st) i = Some r" if "dm_get (cl_tunnels (client_heap st ! c)) i = Some r" for i r
    using ix assms(2,3) that unfolding index_ok_def by blast
  have ok: "t < length (tunnel_heap st) \<Longrightarrow> dm_ok (tn_conns (tunnel_heap st ! t))" for t
    using cn by (simp add: conns_ok_def)
  have "?l = {cn_id (conn_heap st ! r) | r. \<exists>i t. dm_get (cl_tunnels (client_heap st ! c)) i = Some t \<and>
      r \<in> set (dm_values (tn_conns (tunnel_heap st ! t)))}"
    unfolding dropped_conns_def client_tunnel_ids [OF cl assms(2)] using idx
    by (auto simp: owns_tunnel_def) metis+
  also have "\<dots> = {j. \<exists>i t r. dm_get (cl_tunnels (client_heap st ! c)) i = Some t \<and>
      dm_get (tn_conns (tunnel_heap st ! t)) j = Some r}"
  proof -
    have "(\<exists>r. j = cn_id (conn_heap st ! r) \<and> r \<in> set (dm_values (tn_conns (tunnel_heap st ! t)))) \<longleftrightarrow>
        (\<exists>r. dm_get (tn_conns (tunnel_heap st ! t)) j = Some r)"
      if "dm_get (cl_tunnels (client_heap st ! c)) i = Some t" for i t j
    proof -
      from tunnel_ref [OF cl assms(2) that] have t: "t < length (tunnel_heap st)" by simp
      with conn_ref [OF cn t] show ?thesis unfolding dm.in_vals [OF ok [OF t]] by blast
    qed
    then show ?thesis by blast
  qed
  also have "\<dots> = ?r" by (auto simp: owns_conn_def)
  finally show ?thesis .
qed

lemma deregister_unknown: "dm_get (clients st) i = None \<Longrightarrow> deregister_client i reason now st = st"
  by (simp add: deregister_client_def)

lemma deregister_maps:
  assumes "wf_state st" "dm_get (clients st) i = Some c"
  shows "dm_get (clients (deregister_client i reason now st)) j = (if j = i then None else dm_get (clients st) j)"
    and "dm_get (tunnels (deregister_client i reason now st)) j =
      (if owns_tunnel st c j then None else dm_get (tunnels st) j)"
    and "dm_get (live_conns (deregister_client i reason now st)) j =
      (if owns_conn st c j then None else dm_get (live_conns st) j)"
    and "client_heap (deregister_client i reason now st) = client_heap st"
    and "tunnel_heap (deregister_client i reason now st) = tunnel_heap st"
    and "conn_heap (deregister_client i reason now st) = conn_heap st"
    and "length (history (deregister_client i reason now st)) \<le> history_capacity"
proof -
  from assms have cl: "clients_ok st" and hist: "length (history st) \<le> history_capacity" by (simp_all add: wf_state_def)
  from client_ref [OF cl assms(2)] have c: "c < length (client_heap st)" "cl_id (client_heap st ! c) = i" by simp_all
  then have reg: "registered st c" using assms(2) by (simp add: registered_def)
  note ids = client_tunnel_ids [OF cl c(1)] and conns = client_dropped_conns [OF assms(1) c(1) reg]
  show "dm_get (clients (deregister_client i reason now st)) j = (if j = i then None else dm_get (clients st) j)"
    using assms(2) by (simp add: deregister_client_def Let_def)
  show "dm_get (tunnels (deregister_client i reason now st)) j =
      (if owns_tunnel st c j then None else dm_get (tunnels st) j)"
    using assms(2) ids by (simp add: deregister_client_def Let_def drop_tunnels_get del: set_map)
  show "dm_get (live_conns (deregister_client i reason now st)) j =
      (if owns_conn st c j then None else dm_get (live_conns st) j)"
    using assms(2) conns by (simp add: deregister_client_def Let_def drop_tunnels_live)
  show "client_heap (deregister_client i reason now st) = client_heap st"
    "tunnel_heap (deregister_client i reason now st) = tunnel_heap st"
    "conn_heap (deregister_client i reason now st) = conn_heap st"
    using assms(2) by (simp_all add: deregister_client_def Let_def)
  show "length (history (deregister_client i reason now st)) \<le> history_capacity"
    using assms(2) hist by (auto simp: deregister_client_def Let_def push_history_def history_capacity_def)
qed

lemma index_deregister:
  assumes wf: "wf_state st" and i: "dm_get (clients st) i = Some c"
  shows "index_ok (deregister_client i reason now st)" (is "index_ok ?st")
  unfolding index_ok_def
proof (intro allI)
  note maps = deregister_maps [OF assms, of reason now]
  from wf have ids: "ids_ok st" and cl: "clients_ok st" and ix: "index_ok st" by (simp_all add: wf_state_def)
  from client_ref [OF cl i] have c: "c < length (client_heap st)" "cl_id (client_heap st ! c) = i" by simp_all
  fix j r
  have reg: "registered ?st d \<longleftrightarrow> registered st d \<and> cl_id (client_heap st ! d) \<noteq> i" for d
    by (simp add: registered_def maps)
  have mine: "owns_tunnel st c j \<longleftrightarrow> cl_id (client_heap st ! d) = i"
    if d: "d < length (client_heap st)" "registered st d" "dm_get (cl_tunnels (client_heap st ! d)) j = Some r" for d
  proof
    assume "owns_tunnel st c j"
    then obtain s where "dm_get (cl_tunnels (client_heap st ! c)) j = Some s" by (auto simp: owns_tunnel_def)
    from tunnel_one_client [OF ids cl d(1) c(1) d(3) this] c(2) show "cl_id (client_heap st ! d) = i" by simp
  next
    assume "cl_id (client_heap st ! d) = i"
    with d i show "owns_tunnel st c j" by (auto simp: registered_def owns_tunnel_def)
  qed
  have "dm_get (tunnels ?st) j = Some r \<longleftrightarrow> \<not> owns_tunnel st c j \<and> dm_get (tunnels st) j = Some r"
    by (simp add: maps)
  also have "\<dots> \<longleftrightarrow> (\<exists>d<length (client_heap st). registered st d \<and> cl_id (client_heap st ! d) \<noteq> i \<and>
      dm_get (cl_tunnels (client_heap st ! d)) j = Some r)"
    using ix mine unfolding index_ok_def by blast
  finally show "(dm_get (tunnels ?st) j = Some r) \<longleftrightarrow> (\<exists>d<length (client_heap ?st). registered ?st d \<and>
      dm_get (cl_tunnels (client_heap ?st ! d)) j = Some r)"
    by (simp add: maps reg conj_assoc)
qed

lemma conns_deregister:
  assumes wf: "wf_state st" and i: "dm_get (clients st) i = Some c"
  shows "conns_ok (deregister_client i reason now st)" (is "conns_ok ?st")
  unfolding conns_ok_def deregister_maps [OF assms]
proof (intro conjI allI impI)
  from wf have ids: "ids_ok st" and cl: "clients_ok st" and cn: "conns_ok st" by (simp_all add: wf_state_def)
  from client_ref [OF cl i] have c: "c < length (client_heap st)" by simp
  fix t j r
  assume t: "t < length (tunnel_heap st)"
  show "dm_ok (tn_conns (tunnel_heap st ! t))" using cn t by (simp add: conns_ok_def)
  assume g: "dm_get (tn_conns (tunnel_heap st ! t)) j = Some r"
  from conn_ref [OF cn t g] show "r < length (conn_heap st)" "cn_id (conn_heap st ! r) = j"
    "cn_tunnel_id (conn_heap st ! r) = tn_id (tunnel_heap st ! t)"
    "cn_client_id (conn_heap st ! r) = tn_client_id (tunnel_heap st ! t)" by simp_all
  assume "(if owns_tunnel st c (tn_id (tunnel_heap st ! t)) then None
    else dm_get (tunnels st) (tn_id (tunnel_heap st ! t))) = Some t"
  then have idx: "dm_get (tunnels st) (tn_id (tunnel_heap st ! t)) = Some t"
    and no: "\<not> owns_tunnel st c (tn_id (tunnel_heap st ! t))" by (simp_all split: if_splits)
  have "\<not> owns_conn st c j"
  proof
    assume "owns_conn st c j"
    then obtain k u s where u: "dm_get (cl_tunnels (client_heap st ! c)) k = Some u"
        "dm_get (tn_conns (tunnel_heap st ! u)) j = Some s" by (auto simp: owns_conn_def)
    from tunnel_ref [OF cl c u(1)] conn_one_tunnel [OF ids cn t _ g u(2)] u(1) no show False
      by (auto simp: owns_tunnel_def)
  qed
  moreover from cn t g idx have "dm_get (live_conns st) j = Some r" unfolding conns_ok_def by blast
  ultimately show "(if owns_conn st c j then None else dm_get (live_conns st) j) = Some r" by simp
next
  fix j r
  assume "(if owns_conn st c j then None else dm_get (live_conns st) j) = Some r"
  with wf show "\<exists>t<length (tunnel_heap st). dm_get (tn_conns (tunnel_heap st ! t)) j = Some r"
    by (auto simp: wf_state_def conns_ok_def split: if_splits)
qed

lemma wf_deregister:
  assumes "wf_state st"
  shows "wf_state (deregister_client i reason now st)" (is "wf_state ?st")
proof (cases "dm_get (clients st) i")
  case None
  with assms show ?thesis by (simp add: deregister_unknown)
next
  case (Some c)
  note maps = deregister_maps [OF assms Some, of reason now]
  from assms have ids: "ids_ok st" and cl: "clients_ok st" by (simp_all add: wf_state_def)
  have "ids_ok ?st"
    using ids Some by (simp add: deregister_client_def Let_def ids_ok_def)
  moreover have "dm_ok (clients ?st)" "dm_ok (tunnels ?st)" "dm_ok (live_conns ?st)"
    using cl Some drop_tunnels_ok by (simp_all add: deregister_client_def Let_def clients_ok_def dm.ok_rem)
  then have "clients_ok ?st"
    using cl unfolding clients_ok_def maps by (auto split: if_splits)
  ultimately show ?thesis
    using index_deregister [OF assms Some] conns_deregister [OF assms Some] maps by (simp add: wf_state_def)
qed

section \<open>Reachable states\<close>

text \<open>A step is one call of the server's state. The data plane holds the guard of the conn whose
  counters it bumps, and the step's log records the tunnel and the bytes.\<close>

type_synonym traffic_log = "(nat \<times> u64 \<times> u64) list"

inductive registry_step :: "server_state \<Rightarrow> traffic_log \<Rightarrow> server_state \<Rightarrow> bool" where
  client_in: "i \<notin> cl_id ` set (client_heap st) \<Longrightarrow>
    registry_step st [] (snd (register_client i addr now st))"
| tunnel_in: "c < length (client_heap st) \<Longrightarrow> registered st c \<Longrightarrow> Suc (length (tunnel_heap st)) < 2 ^ 64 \<Longrightarrow>
    registry_step st [] (snd (register_tunnel c req now st))"
| conn_in: "t < length (tunnel_heap st) \<Longrightarrow> Suc (length (conn_heap st)) < 2 ^ 64 \<Longrightarrow>
    registry_step st [] (snd (register_conn t peer now st))"
| traffic: "guard_live (t, c) st \<Longrightarrow> registry_step st [(t, n, m)] (bump c n m st)"
| conn_out: "guard_live (t, c) st \<Longrightarrow> registry_step st [] (close_conn (t, c) st)"
| client_out: "registry_step st [] (deregister_client i reason now st)"

inductive registry_reachable :: "server_state \<Rightarrow> traffic_log \<Rightarrow> bool" where
  start: "registry_reachable (server_state_new now addr) []"
| step: "registry_reachable st log \<Longrightarrow> registry_step st l st' \<Longrightarrow> registry_reachable st' (log @ l)"

lemma wf_step: "registry_step st l st' \<Longrightarrow> wf_state st \<Longrightarrow> wf_state st'"
  by (induction rule: registry_step.induct)
    (auto intro: wf_register_client wf_register_tunnel wf_register_conn wf_bump wf_close_conn wf_deregister
      simp: guard_live_def)

lemma reachable_wf: "registry_reachable st log \<Longrightarrow> wf_state st"
  by (induction rule: registry_reachable.induct) (auto intro: wf_new wf_step)

section \<open>Byte accounting\<close>

definition conn_bytes :: "(counters \<Rightarrow> u64) \<Rightarrow> server_state \<Rightarrow> (u64, nat) dmap \<Rightarrow> u64" where
  "conn_bytes sel st m = sum_list (map (\<lambda>r. sel (cn_counters (conn_heap st ! r))) (dm_values m))"

definition tunnel_bytes :: "server_state \<Rightarrow> nat \<Rightarrow> u64 \<times> u64" where
  "tunnel_bytes st t =
     (let tot = tunnel_entry_totals st (tunnel_heap st ! t) in
      (active_in tot + tot_cumulative_in tot, active_out tot + tot_cumulative_out tot))"

lemma tunnel_bytes_alt:
  "tunnel_bytes st t =
    (conn_bytes bytes_in st (tn_conns (tunnel_heap st ! t)) + cumulative_in (tunnel_heap st ! t),
     conn_bytes bytes_out st (tn_conns (tunnel_heap st ! t)) + cumulative_out (tunnel_heap st ! t))"
  by (simp add: tunnel_bytes_def tunnel_entry_totals_def conn_bytes_def snapshot_def Let_def comp_def)

lemma conn_bytes_cong:
  assumes "dm_ok m" "\<And>r. (\<exists>i. dm_get m i = Some r) \<Longrightarrow>
    sel (cn_counters (conn_heap st' ! r)) = sel (cn_counters (conn_heap st ! r))"
  shows "conn_bytes sel st' m = conn_bytes sel st m"
  unfolding conn_bytes_def using assms
  by (intro arg_cong [of _ _ sum_list] map_cong refl) (simp add: dm.in_vals)

lemma conn_bytes_insert:
  "dm_get m i = None \<Longrightarrow>
   conn_bytes sel st (dm_insert i r m) = sel (cn_counters (conn_heap st ! r)) + conn_bytes sel st m"
  by (simp add: conn_bytes_def dm.sum_vals_ins)

lemma conn_bytes_remove:
  "dm_ok m \<Longrightarrow> dm_get m i = Some r \<Longrightarrow>
   conn_bytes sel st m = sel (cn_counters (conn_heap st ! r)) + conn_bytes sel st (dm_remove i m)"
  by (simp add: conn_bytes_def dm.sum_vals_rem)

lemma bytes_register_tunnel:
  assumes "t < length (tunnel_heap st)"
  shows "tunnel_bytes (snd (register_tunnel c req now st)) t = tunnel_bytes st t"
  using assms by (simp add: tunnel_bytes_alt conn_bytes_def register_tunnel_def Let_def nth_append)

lemma bytes_new_tunnel:
  "tunnel_bytes (snd (register_tunnel c req now st)) (length (tunnel_heap st)) = (0, 0)"
  by (simp add: tunnel_bytes_alt conn_bytes_def register_tunnel_def Let_def)

lemma bytes_register_conn:
  assumes "wf_state st" "u < length (tunnel_heap st)" "t < length (tunnel_heap st)"
    and "Suc (length (conn_heap st)) < 2 ^ 64"
  shows "tunnel_bytes (snd (register_conn u peer now st)) t = tunnel_bytes st t" (is "tunnel_bytes ?st t = _")
proof -
  from assms(1) have ids: "ids_ok st" and cn: "conns_ok st" by (simp_all add: wf_state_def)
  let ?m = "tn_conns (tunnel_heap st ! t)" and ?i = "next_conn_id st + 1"
  have ok: "dm_ok ?m" using cn assms(3) by (simp add: conns_ok_def)
  have same: "conn_bytes sel ?st ?m = conn_bytes sel st ?m" for sel
    by (rule conn_bytes_cong [OF ok])
      (use conn_ref [OF cn assms(3)] in \<open>auto simp: register_conn_def Let_def nth_append\<close>)
  have zero: "cn_counters (conn_heap ?st ! length (conn_heap st)) = counters_new"
    by (simp add: register_conn_def Let_def)
  have "dm_get ?m ?i = None"
    using fresh_conn_id [OF ids assms(4)] conn_ref [OF cn assms(3), of ?i] by (cases "dm_get ?m ?i") auto
  then have ins: "conn_bytes sel ?st (dm_insert ?i (length (conn_heap st)) ?m)
      = sel counters_new + conn_bytes sel st ?m" for sel
    by (simp add: conn_bytes_insert zero same)
  have t: "tn_conns (tunnel_heap ?st ! t) = (if t = u then dm_insert ?i (length (conn_heap st)) ?m else ?m)"
    "cumulative_in (tunnel_heap ?st ! t) = cumulative_in (tunnel_heap st ! t)"
    "cumulative_out (tunnel_heap ?st ! t) = cumulative_out (tunnel_heap st ! t)"
    using assms(2) by (auto simp: register_conn_def Let_def nth_list_update)
  show ?thesis
    unfolding tunnel_bytes_alt t using ins [of bytes_in] ins [of bytes_out]
    by (cases "t = u") (simp_all add: same counters_new_def)
qed

lemma guard_only_tunnel:
  assumes "wf_state st" "guard_live (t, c) st" "u < length (tunnel_heap st)"
    "dm_get (tn_conns (tunnel_heap st ! u)) i = Some c"
  shows "u = t" "i = cn_id (conn_heap st ! c)"
proof -
  from assms(1) have ids: "ids_ok st" and cn: "conns_ok st" by (simp_all add: wf_state_def)
  from assms(2) have t: "t < length (tunnel_heap st)"
    "dm_get (tn_conns (tunnel_heap st ! t)) (cn_id (conn_heap st ! c)) = Some c" by (simp_all add: guard_live_def)
  from conn_ref [OF cn assms(3,4)] conn_ref [OF cn t] tn_id_inj [OF ids assms(3) t(1)]
  show "u = t" "i = cn_id (conn_heap st ! c)" by simp_all
qed

lemma bytes_close_conn:
  assumes "wf_state st" "guard_live (u, c) st" "t < length (tunnel_heap st)"
  shows "tunnel_bytes (close_conn (u, c) st) t = tunnel_bytes st t"
proof -
  from assms(2) have u: "u < length (tunnel_heap st)"
    "dm_get (tn_conns (tunnel_heap st ! u)) (cn_id (conn_heap st ! c)) = Some c" by (simp_all add: guard_live_def)
  have ok: "dm_ok (tn_conns (tunnel_heap st ! u))" using assms(1) u(1) by (simp add: wf_state_def conns_ok_def)
  have eq: "conn_bytes sel (close_conn (u, c) st) m = conn_bytes sel st m" for sel m
    by (simp add: conn_bytes_def close_conn_def snapshot_def Let_def)
  show ?thesis
    unfolding tunnel_bytes_alt eq
    using u(1) conn_bytes_remove [OF ok u(2), of bytes_in st] conn_bytes_remove [OF ok u(2), of bytes_out st]
    by (auto simp: close_conn_def snapshot_def Let_def nth_list_update ac_simps)
qed

lemma bump_other: "r \<noteq> c \<Longrightarrow> conn_heap (bump c n k st) ! r = conn_heap st ! r"
  by (simp add: bump_def)

lemma conn_bytes_bump:
  assumes "dm_ok m" "dm_get m i = Some c" "\<And>j. dm_get m j = Some c \<Longrightarrow> j = i" "c < length (conn_heap st)"
  shows "conn_bytes bytes_in (bump c n k st) m = conn_bytes bytes_in st m + n"
    and "conn_bytes bytes_out (bump c n k st) m = conn_bytes bytes_out st m + k"
proof -
  have rest: "conn_bytes sel (bump c n k st) (dm_remove i m) = conn_bytes sel st (dm_remove i m)" for sel
    by (rule conn_bytes_cong, simp add: dm.ok_rem assms(1), subst bump_other)
      (use assms(3) in \<open>auto split: if_splits\<close>)
  have "cn_counters (conn_heap (bump c n k st) ! c) = add_out k (add_in n (cn_counters (conn_heap st ! c)))"
    using assms(4) by (simp add: bump_def)
  then show "conn_bytes bytes_in (bump c n k st) m = conn_bytes bytes_in st m + n"
    and "conn_bytes bytes_out (bump c n k st) m = conn_bytes bytes_out st m + k"
    unfolding conn_bytes_remove [OF assms(1,2), of _ "bump c n k st"] conn_bytes_remove [OF assms(1,2), of _ st] rest
    by (simp_all add: ac_simps)
qed

lemma bytes_bump:
  assumes "wf_state st" "guard_live (u, c) st" "t < length (tunnel_heap st)"
  shows "tunnel_bytes (bump c n m st) t =
    (if t = u then (fst (tunnel_bytes st t) + n, snd (tunnel_bytes st t) + m) else tunnel_bytes st t)"
proof -
  from assms(2) have c: "c < length (conn_heap st)"
    "dm_get (tn_conns (tunnel_heap st ! u)) (cn_id (conn_heap st ! c)) = Some c" by (simp_all add: guard_live_def)
  have ok: "dm_ok (tn_conns (tunnel_heap st ! t))" using assms(1,3) by (simp add: wf_state_def conns_ok_def)
  have heap: "tunnel_heap (bump c n m st) = tunnel_heap st" by (simp add: bump_def)
  show ?thesis
  proof (cases "t = u")
    case True
    have only: "j = cn_id (conn_heap st ! c)" if "dm_get (tn_conns (tunnel_heap st ! t)) j = Some c" for j
      using that by (rule guard_only_tunnel(2) [OF assms])
    from c(2) True have "dm_get (tn_conns (tunnel_heap st ! t)) (cn_id (conn_heap st ! c)) = Some c" by simp
    from conn_bytes_bump [OF ok this only c(1), of n m] True show ?thesis
      unfolding tunnel_bytes_alt heap by (simp only: if_True fst_conv snd_conv) (simp add: ac_simps)
  next
    case False
    have "conn_bytes sel (bump c n m st) (tn_conns (tunnel_heap st ! t))
        = conn_bytes sel st (tn_conns (tunnel_heap st ! t))" for sel
      by (rule conn_bytes_cong [OF ok], subst bump_other) (use False guard_only_tunnel(1) [OF assms] in auto)
    with False show ?thesis unfolding tunnel_bytes_alt heap by simp
  qed
qed

definition logged :: "nat \<Rightarrow> traffic_log \<Rightarrow> u64 \<times> u64" where
  "logged t log = (sum_list (map (\<lambda>(u, n, m). if u = t then n else 0) log),
     sum_list (map (\<lambda>(u, n, m). if u = t then m else 0) log))"

lemma logged_simps [simp]:
  "logged t [] = (0, 0)" "logged t (log @ []) = logged t log"
  "logged t (log @ [(u, n, m)]) =
    (if t = u then (fst (logged t log) + n, snd (logged t log) + m) else logged t log)"
  by (auto simp: logged_def)

lemma heap_grows:
  "registry_step st l st' \<Longrightarrow> length (tunnel_heap st) \<le> length (tunnel_heap st')"
  by (induction rule: registry_step.induct)
    (auto simp: register_client_def register_tunnel_def register_conn_def bump_def close_conn_def snapshot_def
      deregister_client_def Let_def split: option.split)

lemma log_in_heap:
  "registry_reachable st log \<Longrightarrow> (t, n, m) \<in> set log \<Longrightarrow> t < length (tunnel_heap st)"
proof (induction rule: registry_reachable.induct)
  case (step st log l st')
  from step.hyps(2) have "\<forall>(u, _)\<in>set l. u < length (tunnel_heap st)"
    by cases (auto simp: guard_live_def)
  with step heap_grows [OF step.hyps(2)] show ?case by fastforce
qed simp

lemma logged_fresh: "\<forall>(u, _)\<in>set log. u \<noteq> t \<Longrightarrow> logged t log = (0, 0)"
  by (induction log) (auto simp: logged_def)

lemma bytes_step:
  assumes "registry_step st l st'" "wf_state st" "t < length (tunnel_heap st)"
    "tunnel_bytes st t = logged t log"
  shows "tunnel_bytes st' t = logged t (log @ l)"
  using assms
proof (induction rule: registry_step.induct)
  case (client_in i st addr now)
  then show ?case by (simp add: tunnel_bytes_alt conn_bytes_def register_client_def Let_def)
next
  case (client_out st i reason now)
  then show ?case
    by (cases "dm_get (clients st) i")
      (simp_all add: deregister_unknown tunnel_bytes_alt conn_bytes_def deregister_maps)
qed (auto simp: bytes_register_tunnel bytes_register_conn bytes_bump bytes_close_conn)

lemma bytes_reachable:
  "registry_reachable st log \<Longrightarrow> t < length (tunnel_heap st) \<Longrightarrow> tunnel_bytes st t = logged t log"
proof (induction arbitrary: t rule: registry_reachable.induct)
  case (start now addr)
  then show ?case by (simp add: server_state_new_def)
next
  case (step st log l st')
  show ?case
  proof (cases "t < length (tunnel_heap st)")
    case True
    with step bytes_step reachable_wf show ?thesis by blast
  next
    case False
    from step.hyps(2) have "l = [] \<and> tunnel_bytes st' t = (0, 0)"
    proof cases
      case (tunnel_in c req now)
      with False step.prems have "t = length (tunnel_heap st)" by (simp add: register_tunnel_def Let_def)
      with tunnel_in show ?thesis by (simp add: bytes_new_tunnel)
    qed (use False step.prems in \<open>auto simp: register_client_def register_conn_def bump_def close_conn_def
      snapshot_def deregister_client_def Let_def split: option.splits\<close>)
    moreover have "logged t log = (0, 0)"
      using log_in_heap [OF step.hyps(1)] False by (intro logged_fresh) force
    ultimately show ?thesis by simp
  qed
qed

section \<open>Declaring tunnels\<close>

text \<open>The entry a declaration gets, and the entries of a whole hello, ids counted from \<^term>\<open>i\<close>.\<close>

definition declared :: "u64 \<Rightarrow> u64 \<Rightarrow> nat \<Rightarrow> remote_request \<Rightarrow> tunnel_entry" where
  "declared i cid now req =
     \<lparr> tn_id = i, tn_client_id = cid, tn_direction = direction req, tn_kind = kind req,
       tn_spec = show_remote req, tn_opened_at = now, tn_conns = [],
       cumulative_in = 0, cumulative_out = 0, total_conns = 0 \<rparr>"

fun declare_all :: "u64 \<Rightarrow> u64 \<Rightarrow> nat \<Rightarrow> remote_request list \<Rightarrow> tunnel_entry list" where
  "declare_all i cid now [] = []"
| "declare_all i cid now (req # reqs) = declared (i + 1) cid now req # declare_all (i + 1) cid now reqs"

lemma length_declare_all [simp]: "length (declare_all i cid now reqs) = length reqs"
  by (induction reqs arbitrary: i) simp_all

lemma nth_declare_all:
  "k < length reqs \<Longrightarrow> declare_all i cid now reqs ! k = declared (i + word_of_nat (Suc k)) cid now (reqs ! k)"
  by (induction reqs arbitrary: i k) (auto simp: nth_Cons ac_simps split: nat.split)

lemma register_tunnel_effect:
  fixes req :: remote_request and now :: nat
  assumes "cref < length (client_heap st)"
  defines "st' \<equiv> snd (register_tunnel cref req now st)"
  shows "fst (register_tunnel cref req now st) = length (tunnel_heap st)"
    and "tunnel_heap st' = tunnel_heap st @ [declared (next_tunnel_id st + 1) (cl_id (client_heap st ! cref)) now req]"
    and "next_tunnel_id st' = next_tunnel_id st + 1"
    and "length (client_heap st') = length (client_heap st)"
    and "cl_id (client_heap st' ! cref) = cl_id (client_heap st ! cref)"
    and "clients st' = clients st" and "conn_heap st' = conn_heap st"
    and "dm_get (tunnels st') i =
      (if i = next_tunnel_id st + 1 then Some (length (tunnel_heap st)) else dm_get (tunnels st) i)"
  using assms(1) by (simp_all add: st'_def register_tunnel_def declared_def Let_def)

lemma tunnel_index_fresh:
  assumes "wf_state st" "Suc (length (tunnel_heap st)) < 2 ^ 64"
  shows "dm_get (tunnels st) (next_tunnel_id st + 1) = None"
proof (cases "dm_get (tunnels st) (next_tunnel_id st + 1)")
  case (Some r)
  with assms index_ref [of st "next_tunnel_id st + 1" r] fresh_tunnel_id [of st r] show ?thesis
    by (auto simp: wf_state_def)
qed

lemma register_tunnels_effect:
  assumes "wf_state st" "cref < length (client_heap st)" "registered st cref"
    and "length (tunnel_heap st) + length reqs < 2 ^ 64"
    and "register_tunnels cref reqs now st = (rs, st')"
  shows "wf_state st' \<and> clients st' = clients st \<and> conn_heap st' = conn_heap st \<and>
    rs = [length (tunnel_heap st) ..< length (tunnel_heap st) + length reqs] \<and>
    tunnel_heap st' = tunnel_heap st @ declare_all (next_tunnel_id st) (cl_id (client_heap st ! cref)) now reqs \<and>
    (\<forall>i r. dm_get (tunnels st) i = Some r \<longrightarrow> dm_get (tunnels st') i = Some r) \<and>
    (\<forall>r\<in>set rs. dm_get (tunnels st') (tn_id (tunnel_heap st' ! r)) = Some r)"
  using assms
proof (induction reqs arbitrary: st rs)
  case Nil
  then show ?case by auto
next
  case (Cons req reqs)
  let ?st = "snd (register_tunnel cref req now st)" and ?r = "length (tunnel_heap st)"
  note eff = register_tunnel_effect [OF Cons.prems(2), of req now]
  have room: "Suc ?r < 2 ^ 64" using Cons.prems(4) by simp
  from Cons.prems(5) eff(1) obtain rs' where rs': "rs = ?r # rs'" "register_tunnels cref reqs now ?st = (rs', st')"
    by (auto split: prod.splits)
  have st: "registered ?st cref" "cref < length (client_heap ?st)" "length (tunnel_heap ?st) = Suc ?r"
    using Cons.prems(2,3) eff by (simp_all add: registered_def)
  then have "length (tunnel_heap ?st) + length reqs < 2 ^ 64" using Cons.prems(4) by simp
  note Cons.IH [OF wf_register_tunnel [OF Cons.prems(1-3) room] st(2,1) this rs'(2), unfolded eff(3,5,6,7) st(3)]
  then have IH: "wf_state st'" "clients st' = clients st" "conn_heap st' = conn_heap st"
      "rs' = [Suc ?r ..< Suc ?r + length reqs]"
      "tunnel_heap st' = tunnel_heap ?st @ declare_all (next_tunnel_id st + 1) (cl_id (client_heap st ! cref)) now reqs"
      "\<And>i r. dm_get (tunnels ?st) i = Some r \<Longrightarrow> dm_get (tunnels st') i = Some r"
      "\<And>r. r \<in> set rs' \<Longrightarrow> dm_get (tunnels st') (tn_id (tunnel_heap st' ! r)) = Some r"
    by blast+
  have "dm_get (tunnels st') i = Some r" if "dm_get (tunnels st) i = Some r" for i r
    using that tunnel_index_fresh [OF Cons.prems(1) room] eff(8) by (intro IH(6)) auto
  moreover have "tn_id (tunnel_heap st' ! ?r) = next_tunnel_id st + 1"
    unfolding IH(5) eff(2) by (simp add: declared_def nth_append)
  then have "dm_get (tunnels st') (tn_id (tunnel_heap st' ! ?r)) = Some ?r" by (simp add: IH(6) eff(8))
  moreover have "rs = [?r ..< ?r + length (req # reqs)]" 
    by (simp add: IH(4) rs'(1) upt_conv_Cons del: upt_Suc)
  moreover have "tunnel_heap st' =
      tunnel_heap st @ declare_all (next_tunnel_id st) (cl_id (client_heap st ! cref)) now (req # reqs)"
    by (simp add: IH(5) eff(2))
  moreover have "\<forall>r\<in>set rs. dm_get (tunnels st') (tn_id (tunnel_heap st' ! r)) = Some r"
    using rs'(1) IH(7) calculation(2) by simp
  ultimately show ?case using IH(1-3) by (intro conjI allI impI)
qed

lemma tunnel_some: "tunnel st i = Some e \<longleftrightarrow> (\<exists>r. dm_get (tunnels st) i = Some r \<and> tunnel_heap st ! r = e)"
  by (auto simp: tunnel_def)

text \<open>A hello's declarations become tunnels in its order: the k-th gets the k-th fresh id
  and is found under it, with its spec, kind, direction and owner; equal declarations get separate tunnels,
  every tunnel known before is still found unchanged, and the state stays well formed.\<close>

theorem register_tunnels_order:
  assumes "wf_state st" "cref < length (client_heap st)" "registered st cref"
    and "length (tunnel_heap st) + length reqs < 2 ^ 64"
    and "register_tunnels cref reqs now st = (rs, st')"
  shows "wf_state st' \<and> length rs = length reqs \<and>
    (\<forall>k<length reqs.
      let i = word_of_nat (length (tunnel_heap st) + Suc k);
          e = declared i (cl_id (client_heap st ! cref)) now (reqs ! k) in
      tunnel_heap st' ! (rs ! k) = e \<and> tunnel st' i = Some e \<and> tunnel st i = None) \<and>
    (\<forall>i e. tunnel st i = Some e \<longrightarrow> tunnel st' i = Some e)"
proof -
  note eff = register_tunnels_effect [OF assms]
  let ?n = "length (tunnel_heap st)"
  from assms(1) have ids: "ids_ok st" and cl: "clients_ok st" and ix: "index_ok st" by (simp_all add: wf_state_def)
  let ?e = "\<lambda>k. declared (word_of_nat (?n + Suc k)) (cl_id (client_heap st ! cref)) now (reqs ! k)"
  have at: "tunnel_heap st' ! (rs ! k) = ?e k" "rs ! k \<in> set rs" if "k < length reqs" for k
    using eff that ids by (simp_all add: nth_append nth_declare_all ids_ok_def ac_simps)
  have "tunnel st' (word_of_nat (?n + Suc k)) = Some (?e k)" if k: "k < length reqs" for k
  proof -
    have "dm_get (tunnels st') (tn_id (tunnel_heap st' ! (rs ! k))) = Some (rs ! k)" using eff at(2) [OF k] by blast
    moreover have "tn_id (?e k) = word_of_nat (?n + Suc k)" by (simp add: declared_def)
    ultimately show ?thesis unfolding tunnel_some at(1) [OF k] using at(1) [OF k] by metis
  qed
  moreover have "tunnel st (word_of_nat (?n + Suc k)) = None" if k: "k < length reqs" for k
  proof (cases "dm_get (tunnels st) (word_of_nat (?n + Suc k))")
    case (Some r)
    with index_ref [OF ix cl Some] ids have "word_of_nat (Suc r) = (word_of_nat (Suc (?n + k)) :: u64)" "r < ?n"
      by (auto simp: ids_ok_def)
    with word_of_Suc_inj [of r "?n + k"] assms(4) k show ?thesis by simp
  qed (simp add: tunnel_def)
  moreover have "tunnel st' i = Some e" if "tunnel st i = Some e" for i e
    using that index_ref [OF ix cl] eff by (fastforce simp: tunnel_some nth_append)
  moreover have "length rs = length reqs" using eff by simp
  ultimately show ?thesis using eff at(1) unfolding Let_def by blast
qed

section \<open>An example run\<close>

definition demo_addr :: socket_addr where
  "demo_addr = SocketAddrV4 (Ipv4 127 0 0 1) 8080"

definition demo_req :: remote_request where
  "demo_req = remote_request_new Forward (Socks5 demo_addr)"

definition demo_joined :: server_state where
  "demo_joined = snd (register_client 1 demo_addr 5 (server_state_new 0 demo_addr))"

text \<open>A client joins, declares a tunnel, and moves 10 and 20 bytes over one conn.\<close>

definition demo_state :: server_state where
  "demo_state = bump 0 10 20 (snd (register_conn 0 None 7 (snd (register_tunnel 0 demo_req 6 demo_joined))))"

lemmas demo_defs = demo_state_def demo_joined_def register_client_def register_tunnel_def register_conn_def
  server_state_new_def bump_def guard_live_def registered_def Let_def

lemma demo_joined_reachable: "registry_reachable demo_joined []"
proof -
  have "registry_step (server_state_new 0 demo_addr) [] demo_joined"
    unfolding demo_joined_def by (rule client_in) (simp add: server_state_new_def)
  from step [OF start this] show ?thesis by simp
qed

lemma demo_reachable: "registry_reachable demo_state [(0, 10, 20)]"
proof -
  let ?t = "snd (register_tunnel 0 demo_req 6 demo_joined)"
  have "registry_step demo_joined [] ?t" by (rule tunnel_in) (simp_all add: demo_defs)
  from step [OF demo_joined_reachable this] have t: "registry_reachable ?t []" by simp
  have "registry_step ?t [] (snd (register_conn 0 None 7 ?t))" by (rule conn_in) (simp_all add: demo_defs)
  from step [OF t this] have c: "registry_reachable (snd (register_conn 0 None 7 ?t)) []" by simp
  have "registry_step (snd (register_conn 0 None 7 ?t)) [(0, 10, 20)] demo_state"
    unfolding demo_state_def by (rule traffic) (simp add: demo_defs)
  from step [OF c this] show ?thesis by simp
qed

section \<open>Disconnects\<close>

lemma client_totals_sum:
  defines "b \<equiv> \<lambda>st c. sum_list (map (\<lambda>t. fst (tunnel_bytes st t)) (dm_values (cl_tunnels c)))"
    and "w \<equiv> \<lambda>st c. sum_list (map (\<lambda>t. snd (tunnel_bytes st t)) (dm_values (cl_tunnels c)))"
  shows "active_in (client_entry_totals st c) + tot_cumulative_in (client_entry_totals st c) = b st c"
    and "active_out (client_entry_totals st c) + tot_cumulative_out (client_entry_totals st c) = w st c"
    and "tot_conns (client_entry_totals st c) =
      sum_list (map (\<lambda>t. total_conns (tunnel_heap st ! t)) (dm_values (cl_tunnels c)))"
proof -
  let ?f = "foldl (\<lambda>t r. totals_add t (tunnel_entry_totals st (tunnel_heap st ! r)))"
  have "active_in (?f z xs) + tot_cumulative_in (?f z xs) =
      active_in z + tot_cumulative_in z + sum_list (map (\<lambda>t. fst (tunnel_bytes st t)) xs)"
    and "active_out (?f z xs) + tot_cumulative_out (?f z xs) =
      active_out z + tot_cumulative_out z + sum_list (map (\<lambda>t. snd (tunnel_bytes st t)) xs)"
    and "tot_conns (?f z xs) = tot_conns z + sum_list (map (\<lambda>t. total_conns (tunnel_heap st ! t)) xs)" for z xs
    by (induction xs arbitrary: z)
      (simp_all add: totals_add_def tunnel_bytes_def tunnel_entry_totals_def Let_def ac_simps)
  then show "active_in (client_entry_totals st c) + tot_cumulative_in (client_entry_totals st c) = b st c"
    and "active_out (client_entry_totals st c) + tot_cumulative_out (client_entry_totals st c) = w st c"
    and "tot_conns (client_entry_totals st c) =
      sum_list (map (\<lambda>t. total_conns (tunnel_heap st ! t)) (dm_values (cl_tunnels c)))"
    by (simp_all add: client_entry_totals_def totals_zero_def b_def w_def)
qed

lemma tunnel_bytes_frame [simp]: "tunnel_bytes (st\<lparr>clients := x\<rparr>) t = tunnel_bytes st t"
  by (simp add: tunnel_bytes_def tunnel_entry_totals_def)

text \<open>C36. When a client goes, exactly its own entry, tunnels and conns leave the tables, every other
  lookup is unchanged, and the history gains one record whose byte counts are the traffic that
  the client's tunnels carried, over conns still open and conns already closed.\<close>

theorem deregister_client_exact:
  fixes reason :: string and now :: nat
  assumes "registry_reachable st log" "dm_get (clients st) i = Some c"
  defines "st' \<equiv> deregister_client i reason now st"
    and "carried \<equiv> \<lambda>sel. sum_list (map (\<lambda>t. sel (logged t log)) (dm_values (cl_tunnels (client_heap st ! c))))"
  shows "client st' j = (if j = i then None else client st j) \<and>
    tunnel st' j = (if owns_tunnel st c j then None else tunnel st j) \<and>
    live_conn st' j = (if owns_conn st c j then None else live_conn st j) \<and>
    (let h = last (history st') in
      hs_client_id h = i \<and> hs_reason h = reason \<and> hs_bytes_in h = carried fst \<and> hs_bytes_out h = carried snd)"
proof -
  note wf = reachable_wf [OF assms(1)]
  then have cl: "clients_ok st" by (simp add: wf_state_def)
  note c = client_ref [OF cl assms(2)]
  then have ok: "dm_ok (cl_tunnels (client_heap st ! c))" using cl by (simp add: clients_ok_def)
  have bytes: "tunnel_bytes st t = logged t log" if "t \<in> set (dm_values (cl_tunnels (client_heap st ! c)))" for t
    using that tunnel_ref [OF cl conjunct1 [OF c]] bytes_reachable [OF assms(1)] unfolding dm.in_vals [OF ok] by blast
  have "hs_bytes_in (last (history st')) = carried fst \<and> hs_bytes_out (last (history st')) = carried snd"
    using assms(2) bytes
    by (simp add: st'_def carried_def deregister_client_def Let_def push_history_def client_totals_sum cong: map_cong)
  with c assms(2) show ?thesis
    by (simp add: st'_def client_def tunnel_def live_conn_def deregister_maps [OF wf assms(2)])
      (simp add: deregister_client_def push_history_def Let_def)
qed

theorem deregister_client_exact_witness:
  "let st' = deregister_client 1 ''closed'' 9 demo_state in
     client st' 1 = None \<and> tunnel st' 1 = None \<and> live_conn st' 1 = None \<and>
     hs_bytes_in (last (history st')) = 10 \<and> hs_bytes_out (last (history st')) = 20"
proof -
  have get: "dm_get (clients demo_state) 1 = Some 0" "owns_tunnel demo_state 0 1"
    "dm_values (cl_tunnels (client_heap demo_state ! 0)) = [0]"
    by (simp_all add: demo_defs owns_tunnel_def dm_insert_def dm_values_def dm_get_def)
  have "dm_get (cl_tunnels (client_heap demo_state ! 0)) 1 = Some 0"
    "dm_get (tn_conns (tunnel_heap demo_state ! 0)) 1 \<noteq> None"
    by (simp_all add: demo_defs)
  then have "owns_conn demo_state 0 1" unfolding owns_conn_def by blast
  with get deregister_client_exact [OF demo_reachable get(1), of "''closed''" 9 1] show ?thesis
    by (simp add: Let_def logged_def)
qed

text \<open>C37. The ring buffer of disconnects behaves as the unbounded list of all of them cut at its
  capacity: whatever was pushed, a query answers the newest records first, up to its limit and
  never more than 256.\<close>

theorem history_ring:
  "history_snapshot limit (st\<lparr>history := fold push_history hs []\<rparr>) = take (min limit 256) (rev hs)"
proof -
  have "fold push_history hs [] = drop (length hs - 256) hs"
  proof (induction hs rule: rev_induct)
    case (snoc h hs)
    have "Suc (length hs - 256) = length hs - 255" if "256 \<le> length hs" using that by simp
    with snoc show ?case
      by (cases "length hs < 256") (auto simp: push_history_def history_capacity_def tl_drop not_less simp flip: drop_Suc)
  qed simp
  then show ?thesis
    by (cases "length hs \<le> 256") (auto simp: history_snapshot_def rev_drop min_def)
qed

section \<open>Reachable states are consistent\<close>

text \<open>C8. Every state the server can reach keeps its tables consistent: ids are unique, the flat
  tunnel index is exactly the union of the registered clients' tables, a conn of an indexed
  tunnel is in the flat conn index, every indexed conn hangs off a tunnel, and the history is
  bounded.\<close>

theorem registry_invariant: "registry_reachable st log \<Longrightarrow> wf_state st"
  by (rule reachable_wf)

theorem registry_invariant_witness: "wf_state demo_state"
  by (rule registry_invariant [OF demo_reachable])

text \<open>C11. No byte is lost or counted twice: in every reachable state the totals reported for a tunnel,
  its open conns plus its cumulative counters, are the bytes its conns carried so far (modulo the
  64-bit counters), whatever was opened, closed or deregistered in between.\<close>

theorem registry_bytes_conserved:
  assumes "registry_reachable st log" "t < length (tunnel_heap st)"
  shows "let tot = tunnel_entry_totals st (tunnel_heap st ! t) in
    (active_in tot + tot_cumulative_in tot, active_out tot + tot_cumulative_out tot) = logged t log"
  using bytes_reachable [OF assms] by (simp add: tunnel_bytes_def Let_def)

theorem registry_bytes_conserved_witness:
  "let tot = tunnel_entry_totals demo_state (tunnel_heap demo_state ! 0) in
    (active_in tot + tot_cumulative_in tot, active_out tot + tot_cumulative_out tot) = (10, 20)"
proof -
  have "0 < length (tunnel_heap demo_state)" by (simp add: demo_defs)
  from registry_bytes_conserved [OF demo_reachable this] show ?thesis by (simp add: logged_def)
qed

text \<open>A hello's declarations need room for their ids; two equal ones get ids 1 and 2.\<close>

theorem register_tunnels_order_witness:
  "\<exists>rs st'. register_tunnels 0 [demo_req, demo_req] 6 demo_joined = (rs, st') \<and> wf_state st' \<and>
     tunnel st' 1 = Some (declared 1 1 6 demo_req) \<and> tunnel st' 2 = Some (declared 2 1 6 demo_req)"
proof -
  obtain rs st' where run: "register_tunnels 0 [demo_req, demo_req] 6 demo_joined = (rs, st')" by fastforce
  have *: "0 < length (client_heap demo_joined)" "registered demo_joined 0"
    "length (tunnel_heap demo_joined) + length [demo_req, demo_req] < 2 ^ 64"
    "length (tunnel_heap demo_joined) = 0" "cl_id (client_heap demo_joined ! 0) = 1"
    by (simp_all add: demo_defs)
  note all = register_tunnels_order [OF reachable_wf [OF demo_joined_reachable] *(1-3) run, unfolded *(4,5)]
  from all have k: "\<forall>k<2. tunnel st' (word_of_nat (Suc k)) = Some (declared (word_of_nat (Suc k)) 1 6 ([demo_req, demo_req] ! k))"
    by (simp add: Let_def numeral_2_eq_2)
  from k [rule_format, of 0] k [rule_format, of 1]
  have "tunnel st' 1 = Some (declared 1 1 6 demo_req)" "tunnel st' 2 = Some (declared 2 1 6 demo_req)"
    by simp_all
  with run all show ?thesis by blast
qed

end
