(* ===== verification/Directory.thy ===== *)
theory Directory
  imports Registry_Inv
begin

text \<open>
  What the registry promises its users, without heaps, references and counters: a directory of clients, tunnels with
  their owner, and open conns with their tunnel. Every operation of \<^verbatim>\<open>src/src/server/state.rs\<close> is simulated by a
  step of the directory.
\<close>

section \<open>The directory\<close>

record directory =
  dir_clients :: "u64 \<rightharpoonup> socket_addr"
  dir_tunnels :: "u64 \<rightharpoonup> u64 \<times> string"
  dir_conns :: "u64 \<rightharpoonup> u64 \<times> string option"

definition dir_empty :: directory where
  "dir_empty = \<lparr> dir_clients = Map.empty, dir_tunnels = Map.empty, dir_conns = Map.empty \<rparr>"

definition owned_by :: "directory \<Rightarrow> u64 \<Rightarrow> u64 \<Rightarrow> bool" where
  "owned_by d i t \<longleftrightarrow> (\<exists>spec. dir_tunnels d t = Some (i, spec))"

text \<open>A client that leaves takes its tunnels and their conns with it.\<close>

definition dir_leave :: "u64 \<Rightarrow> directory \<Rightarrow> directory" where
  "dir_leave i d = \<lparr> dir_clients = (dir_clients d)(i := None),
     dir_tunnels = (\<lambda>t. if owned_by d i t then None else dir_tunnels d t),
     dir_conns = (\<lambda>k. case dir_conns d k of
        Some (t, p) \<Rightarrow> if owned_by d i t then None else Some (t, p) | None \<Rightarrow> None) \<rparr>"

inductive directory_step :: "directory \<Rightarrow> directory \<Rightarrow> bool" where
  join: "dir_clients d i = None \<Longrightarrow> directory_step d (d \<lparr> dir_clients := (dir_clients d)(i \<mapsto> a) \<rparr>)"
| declares: "dir_clients d i \<noteq> None \<Longrightarrow> dir_tunnels d t = None \<Longrightarrow>
    directory_step d (d \<lparr> dir_tunnels := (dir_tunnels d)(t \<mapsto> (i, spec)) \<rparr>)"
| opens: "dir_conns d k = None \<Longrightarrow> directory_step d (d \<lparr> dir_conns := (dir_conns d)(k \<mapsto> (t, p)) \<rparr>)"
| traffic: "directory_step d d"
| close: "directory_step d (d \<lparr> dir_conns := (dir_conns d)(k := None) \<rparr>)"
| leave: "dir_clients d i \<noteq> None \<Longrightarrow> directory_step d (dir_leave i d)"

definition abs_dir :: "server_state \<Rightarrow> directory" where
  "abs_dir st = \<lparr> dir_clients = (\<lambda>i. map_option cl_remote (client st i)),
     dir_tunnels = (\<lambda>i. map_option (\<lambda>e. (tn_client_id e, tn_spec e)) (tunnel st i)),
     dir_conns = (\<lambda>i. map_option (\<lambda>e. (cn_tunnel_id e, cn_peer e)) (live_conn st i)) \<rparr>"

lemmas abs_defs = abs_dir_def client_def tunnel_def live_conn_def

section \<open>Each operation is a step\<close>

lemma live_ref:
  assumes "conns_ok st" "dm_get (live_conns st) j = Some r"
  shows "r < length (conn_heap st) \<and> cn_id (conn_heap st ! r) = j"
  using assms conn_ref [OF assms(1)] unfolding conns_ok_def by blast

lemma lookup_append:
  "(\<And>r. m = Some r \<Longrightarrow> r < length h) \<Longrightarrow> map_option (\<lambda>r. (h @ xs) ! r) m = map_option (\<lambda>r. h ! r) m"
  by (cases m) (simp_all add: nth_append)

lemma abs_join:
  assumes "wf_state st"
  shows "abs_dir (snd (register_client i a now st)) = abs_dir st \<lparr> dir_clients := (dir_clients (abs_dir st))(i \<mapsto> a) \<rparr>"
proof -
  have "c < length (client_heap st)" if "dm_get (clients st) j = Some c" for j c
    using client_ref [of st j c] assms that by (simp add: wf_state_def)
  then show ?thesis
    by (auto simp: abs_defs register_client_def Let_def lookup_append fun_eq_iff)
qed

lemma abs_declare:
  assumes "wf_state st" "c < length (client_heap st)"
  shows "abs_dir (snd (register_tunnel c req now st)) =
    abs_dir st \<lparr> dir_tunnels := (dir_tunnels (abs_dir st))
      (next_tunnel_id st + 1 \<mapsto> (cl_id (client_heap st ! c), show_remote req)) \<rparr>"
proof -
  have t: "r < length (tunnel_heap st)" if "dm_get (tunnels st) j = Some r" for j r
    using index_ref [OF _ _ that] assms(1) by (simp add: wf_state_def)
  have "map_option cl_remote (map_option (\<lambda>r. (client_heap st)[c := (client_heap st ! c)\<lparr>cl_tunnels := x\<rparr>] ! r) (dm_get (clients st) j)) =
      map_option cl_remote (map_option (\<lambda>r. client_heap st ! r) (dm_get (clients st) j))" for x j
    using assms(2) by (cases "dm_get (clients st) j") (auto simp: nth_list_update)
  with t show ?thesis
    by (auto simp: abs_defs register_tunnel_def Let_def lookup_append fun_eq_iff)
qed

text \<open>Updates of a tunnel's conns and totals are invisible.\<close>

lemma abs_tunnel_update:
  assumes "t < length (tunnel_heap st)" "tn_client_id e = tn_client_id (tunnel_heap st ! t)" "tn_spec e = tn_spec (tunnel_heap st ! t)"
  shows "map_option (\<lambda>e. (tn_client_id e, tn_spec e)) (map_option (\<lambda>r. (tunnel_heap st)[t := e] ! r) m) =
    map_option (\<lambda>e. (tn_client_id e, tn_spec e)) (map_option (\<lambda>r. tunnel_heap st ! r) m)"
  using assms by (cases m) (auto simp: nth_list_update)

lemma abs_open:
  assumes "wf_state st" "t < length (tunnel_heap st)"
  shows "abs_dir (snd (register_conn t peer now st)) =
    abs_dir st \<lparr> dir_conns := (dir_conns (abs_dir st))(next_conn_id st + 1 \<mapsto> (tn_id (tunnel_heap st ! t), peer)) \<rparr>"
proof -
  have "r < length (conn_heap st)" if "dm_get (live_conns st) j = Some r" for j r
    using live_ref [OF _ that] assms(1) by (simp add: wf_state_def)
  then have "(\<lambda>i. map_option (\<lambda>e. (cn_tunnel_id e, cn_peer e)) (live_conn (snd (register_conn t peer now st)) i)) =
      (dir_conns (abs_dir st))(next_conn_id st + 1 \<mapsto> (tn_id (tunnel_heap st ! t), peer))"
    by (auto simp: abs_defs register_conn_def Let_def lookup_append fun_eq_iff)
  moreover have "(\<lambda>i. map_option (\<lambda>e. (tn_client_id e, tn_spec e)) (tunnel (snd (register_conn t peer now st)) i)) =
      dir_tunnels (abs_dir st)"
    by (simp add: abs_defs register_conn_def Let_def abs_tunnel_update [OF assms(2)])
  ultimately show ?thesis by (simp add: abs_dir_def client_def register_conn_def Let_def)
qed

lemma abs_traffic: "abs_dir (bump c n m st) = abs_dir st"
proof -
  have "map_option (\<lambda>e. (cn_tunnel_id e, cn_peer e)) (map_option (\<lambda>r. conn_heap (bump c n m st) ! r) x) =
      map_option (\<lambda>e. (cn_tunnel_id e, cn_peer e)) (map_option (\<lambda>r. conn_heap st ! r) x)" for x
    by (cases x; cases "c < length (conn_heap st)") (auto simp: bump_def nth_list_update not_less list_update_beyond)
  then show ?thesis by (simp add: abs_defs bump_def)
qed

lemma abs_close:
  assumes "t < length (tunnel_heap st)"
  shows "abs_dir (close_conn (t, c) st) =
    abs_dir st \<lparr> dir_conns := (dir_conns (abs_dir st))(cn_id (conn_heap st ! c) := None) \<rparr>"
proof -
  have "(\<lambda>i. map_option (\<lambda>e. (tn_client_id e, tn_spec e)) (tunnel (close_conn (t, c) st) i)) = dir_tunnels (abs_dir st)"
    by (simp add: abs_defs close_conn_def snapshot_def Let_def abs_tunnel_update [OF assms])
  then show ?thesis by (auto simp: abs_dir_def client_def live_conn_def close_conn_def snapshot_def Let_def)
qed

lemma owns_tunnel_owned:
  assumes "wf_state st" "dm_get (clients st) i = Some c" "dm_get (tunnels st) j = Some t"
  shows "owns_tunnel st c j \<longleftrightarrow> tn_client_id (tunnel_heap st ! t) = i"
proof -
  from assms(1) have cl: "clients_ok st" and ix: "index_ok st" by (simp_all add: wf_state_def)
  from client_ref [OF cl assms(2)] have c: "c < length (client_heap st)" "cl_id (client_heap st ! c) = i" by simp_all
  then have reg: "registered st c" using assms(2) by (simp add: registered_def)
  from ix assms(3) obtain d where d: "d < length (client_heap st)" "registered st d"
    "dm_get (cl_tunnels (client_heap st ! d)) j = Some t" unfolding index_ok_def by blast
  from tunnel_ref [OF cl d(1,3)] have td: "tn_client_id (tunnel_heap st ! t) = cl_id (client_heap st ! d)" by simp
  show ?thesis
  proof
    assume "owns_tunnel st c j"
    then obtain t0 where t0: "dm_get (cl_tunnels (client_heap st ! c)) j = Some t0" by (auto simp: owns_tunnel_def)
    with ix c(1) reg have "dm_get (tunnels st) j = Some t0" unfolding index_ok_def by blast
    with assms(3) t0 tunnel_ref [OF cl c(1)] c(2) show "tn_client_id (tunnel_heap st ! t) = i" by auto
  next
    assume "tn_client_id (tunnel_heap st ! t) = i"
    with td d(2) assms(2) have "d = c" by (simp add: registered_def)
    with d(3) show "owns_tunnel st c j" by (simp add: owns_tunnel_def)
  qed
qed

lemma owns_conn_owned:
  assumes "wf_state st" "dm_get (clients st) i = Some c" "dm_get (live_conns st) k = Some r"
  shows "owns_conn st c k \<longleftrightarrow> owned_by (abs_dir st) i (cn_tunnel_id (conn_heap st ! r))"
proof -
  from assms(1) have ids: "ids_ok st" and cl: "clients_ok st" and ix: "index_ok st" and cn: "conns_ok st"
    by (simp_all add: wf_state_def)
  from client_ref [OF cl assms(2)] have c: "c < length (client_heap st)" "cl_id (client_heap st ! c) = i" by simp_all
  then have reg: "registered st c" using assms(2) by (simp add: registered_def)
  from cn assms(3) obtain u where u: "u < length (tunnel_heap st)" "dm_get (tn_conns (tunnel_heap st ! u)) k = Some r"
    unfolding conns_ok_def by blast
  note ru = conn_ref [OF cn u]
  show ?thesis
  proof
    assume "owns_conn st c k"
    then obtain j t s where t: "dm_get (cl_tunnels (client_heap st ! c)) j = Some t"
      and s: "dm_get (tn_conns (tunnel_heap st ! t)) k = Some s" by (auto simp: owns_conn_def)
    from tunnel_ref [OF cl c(1) t] c(2) have tr: "t < length (tunnel_heap st)" "tn_id (tunnel_heap st ! t) = j"
      "tn_client_id (tunnel_heap st ! t) = i" by simp_all
    from conn_ref [OF cn tr(1) s] ru cn_id_inj [OF ids, of r s] have "r = s" by simp
    with conn_ref [OF cn tr(1) s] tr(2) have "cn_tunnel_id (conn_heap st ! r) = j" by simp
    moreover have "dm_get (tunnels st) j = Some t" using ix c(1) reg t unfolding index_ok_def by blast
    ultimately show "owned_by (abs_dir st) i (cn_tunnel_id (conn_heap st ! r))"
      using tr(3) by (simp add: owned_by_def abs_defs)
  next
    assume "owned_by (abs_dir st) i (cn_tunnel_id (conn_heap st ! r))"
    then obtain t where t: "dm_get (tunnels st) (cn_tunnel_id (conn_heap st ! r)) = Some t" "tn_client_id (tunnel_heap st ! t) = i"
      by (auto simp: owned_by_def abs_defs)
    from index_ref [OF ix cl t(1)] ru tn_id_inj [OF ids _ u(1), of t] have "t = u" by simp
    moreover from owns_tunnel_owned [OF assms(1,2) t(1)] t(2) obtain t0
      where t0: "dm_get (cl_tunnels (client_heap st ! c)) (cn_tunnel_id (conn_heap st ! r)) = Some t0" by (auto simp: owns_tunnel_def)
    moreover have "t0 = t" using ix c(1) reg t0 t(1) unfolding index_ok_def by (metis option.inject)
    ultimately show "owns_conn st c k" using u(2) by (auto simp: owns_conn_def)
  qed
qed

lemma abs_leave:
  assumes "wf_state st" "dm_get (clients st) i = Some c"
  shows "abs_dir (deregister_client i reason now st) = dir_leave i (abs_dir st)"
proof -
  note maps = deregister_maps [OF assms]
  have "dir_tunnels (abs_dir (deregister_client i reason now st)) j = dir_tunnels (dir_leave i (abs_dir st)) j" for j
    using owns_tunnel_owned [OF assms, of j]
    by (cases "dm_get (tunnels st) j") (auto simp: abs_defs maps dir_leave_def owned_by_def)
  moreover have "dir_conns (abs_dir (deregister_client i reason now st)) k = dir_conns (dir_leave i (abs_dir st)) k" for k
    using owns_conn_owned [OF assms, of k]
    by (cases "dm_get (live_conns st) k") (auto simp: abs_dir_def live_conn_def maps dir_leave_def)
  moreover have "dir_clients (abs_dir (deregister_client i reason now st)) = dir_clients (dir_leave i (abs_dir st))"
    by (auto simp: abs_defs maps dir_leave_def)
  ultimately show ?thesis by (intro directory.equality ext) simp_all
qed

section \<open>The simulation\<close>

lemma fresh_in_index:
  assumes "wf_state st"
  shows "Suc (length (tunnel_heap st)) < 2 ^ 64 \<Longrightarrow> dm_get (tunnels st) (next_tunnel_id st + 1) = None"
    and "Suc (length (conn_heap st)) < 2 ^ 64 \<Longrightarrow> dm_get (live_conns st) (next_conn_id st + 1) = None"
    and "i \<notin> cl_id ` set (client_heap st) \<Longrightarrow> dm_get (clients st) i = None"
proof -
  from assms have ok: "ids_ok st" "clients_ok st" "index_ok st" "conns_ok st" by (simp_all add: wf_state_def)
  show "Suc (length (tunnel_heap st)) < 2 ^ 64 \<Longrightarrow> dm_get (tunnels st) (next_tunnel_id st + 1) = None"
    using index_ref [OF ok(3,2)] fresh_tunnel_id [OF ok(1)] by (metis not_Some_eq)
  show "Suc (length (conn_heap st)) < 2 ^ 64 \<Longrightarrow> dm_get (live_conns st) (next_conn_id st + 1) = None"
    using live_ref [OF ok(4)] fresh_conn_id [OF ok(1)] by (metis not_Some_eq)
  show "i \<notin> cl_id ` set (client_heap st) \<Longrightarrow> dm_get (clients st) i = None"
    using client_ref [OF ok(2)] by (metis image_eqI not_Some_eq nth_mem)
qed

lemma simulation:
  assumes "registry_step st l st'" "wf_state st"
  shows "directory_step (abs_dir st) (abs_dir st')"
  using assms
proof (cases rule: registry_step.cases)
  case (client_in i addr now)
  with fresh_in_index(3) [OF assms(2)] have "dir_clients (abs_dir st) i = None" by (simp add: abs_defs)
  with client_in show ?thesis by (simp add: abs_join [OF assms(2)] directory_step.join)
next
  case (tunnel_in c req now)
  with fresh_in_index(1) [OF assms(2)] have "dir_tunnels (abs_dir st) (next_tunnel_id st + 1) = None" by (simp add: abs_defs)
  moreover from tunnel_in have "dir_clients (abs_dir st) (cl_id (client_heap st ! c)) \<noteq> None" by (simp add: abs_defs registered_def)
  ultimately show ?thesis using tunnel_in by (simp add: abs_declare [OF assms(2)] directory_step.declares)
next
  case (conn_in t peer now)
  with fresh_in_index(2) [OF assms(2)] have "dir_conns (abs_dir st) (next_conn_id st + 1) = None" by (simp add: abs_defs)
  with conn_in show ?thesis by (simp add: abs_open [OF assms(2)] directory_step.opens)
next
  case (traffic t c n m)
  then show ?thesis by (simp add: abs_traffic directory_step.traffic)
next
  case (conn_out t c)
  then show ?thesis by (simp add: abs_close guard_live_def directory_step.close)
next
  case (client_out i reason now)
  show ?thesis
  proof (cases "dm_get (clients st) i")
    case None
    then show ?thesis by (simp add: client_out deregister_unknown directory_step.traffic)
  next
    case (Some c)
    then have "dir_clients (abs_dir st) i \<noteq> None" by (simp add: abs_defs)
    then show ?thesis by (simp add: client_out abs_leave [OF assms(2) Some] directory_step.leave)
  qed
qed



end
