(* ===== verification/Framing.thy ===== *)
theory Framing
  imports Remote
begin

text \<open>
  Framing of the control stream (\<^verbatim>\<open>src/src/common/tunnel.rs\<close>) and of UDP datagrams on a
  data stream (\<^verbatim>\<open>src/src/common/udp.rs\<close>). Both prefix the bytes with a little-endian
  length; the interface they share, reading back what was written and leaving the rest of
  the stream untouched, is the locale \<^verbatim>\<open>framed_stream\<close>, interpreted for both.

  The MessagePack codec (\<^verbatim>\<open>rmp_serde\<close>) is a parameter: a record of its two functions,
  with the round trip it documents as a hypothesis where a result needs it.
\<close>

section \<open>Control messages\<close>

record 'a codec =
  to_bytes :: "'a \<Rightarrow> bytes option"
  from_bytes :: "bytes \<Rightarrow> 'a option"

datatype control_error =
  EncodeFailed
| ExceedsU32
| WriteFailed io_error
| ReadLengthFailed io_error
| ExceedsCap nat
| ReadBodyFailed io_error
| DecodeFailed
| IdCountMismatch nat nat
| SessionRejected string
| ConnOpenRejected string

definition max_control_msg :: nat where
  "max_control_msg = 64 * 1024"

definition write_framed :: "'a codec \<Rightarrow> 'a \<Rightarrow> conn \<Rightarrow> (control_error + unit) \<times> conn" where
  "write_framed cd msg =
     io_bind (\<lambda>c. (ok_or EncodeFailed (to_bytes cd msg), c)) (\<lambda>body.
     if length body > 4294967295 then io_err ExceedsU32
     else
       io_bind (io_lift WriteFailed (write_all (le_bytes 4 (length body)))) (\<lambda>_.
       io_lift WriteFailed (write_all body)))"

definition read_framed :: "'a codec \<Rightarrow> conn \<Rightarrow> (control_error + 'a) \<times> conn" where
  "read_framed cd =
     io_bind (io_lift ReadLengthFailed (read_exact 4)) (\<lambda>len_buf.
     let len = from_le_bytes len_buf in
     if len > max_control_msg then io_err (ExceedsCap len)
     else
       io_bind (io_lift ReadBodyFailed (read_exact len)) (\<lambda>body c.
       (ok_or DecodeFailed (from_bytes cd body), c)))"

record codecs =
  hello_codec :: "session_hello codec"
  hello_response_codec :: "session_hello_response codec"
  open_codec :: "open_conn codec"
  open_response_codec :: "open_conn_response codec"

definition client_send_session_hello ::
  "codecs \<Rightarrow> session_hello \<Rightarrow> conn \<Rightarrow> (control_error + u64 list) \<times> conn" where
  "client_send_session_hello cs hello =
     io_bind (write_framed (hello_codec cs) hello) (\<lambda>_.
     io_bind (io_lift WriteFailed shutdown) (\<lambda>_.
     io_bind (read_framed (hello_response_codec cs)) (\<lambda>resp.
     case resp of
       HelloOk tunnel_ids \<Rightarrow>
         if length tunnel_ids \<noteq> length (remotes hello)
         then io_err (IdCountMismatch (length tunnel_ids) (length (remotes hello)))
         else io_ok tunnel_ids
     | HelloFailed reason \<Rightarrow> io_err (SessionRejected reason))))"

definition server_receive_session_hello :: "codecs \<Rightarrow> conn \<Rightarrow> (control_error + session_hello) \<times> conn" where
  "server_receive_session_hello cs = read_framed (hello_codec cs)"

definition server_reply_session_hello ::
  "codecs \<Rightarrow> session_hello_response \<Rightarrow> conn \<Rightarrow> (control_error + unit) \<times> conn" where
  "server_reply_session_hello cs response =
     io_bind (write_framed (hello_response_codec cs) response) (\<lambda>_.
     io_lift WriteFailed shutdown)"

definition send_open_conn :: "codecs \<Rightarrow> open_conn \<Rightarrow> conn \<Rightarrow> (control_error + unit) \<times> conn" where
  "send_open_conn cs op =
     io_bind (write_framed (open_codec cs) op) (\<lambda>_.
     io_bind (read_framed (open_response_codec cs)) (\<lambda>resp.
     case resp of
       OpenOk \<Rightarrow> io_ok ()
     | OpenFailed reason \<Rightarrow> io_err (ConnOpenRejected reason)))"

definition receive_open_conn :: "codecs \<Rightarrow> conn \<Rightarrow> (control_error + open_conn) \<times> conn" where
  "receive_open_conn cs = read_framed (open_codec cs)"

definition reply_open_conn ::
  "codecs \<Rightarrow> open_conn_response \<Rightarrow> conn \<Rightarrow> (control_error + unit) \<times> conn" where
  "reply_open_conn cs response = write_framed (open_response_codec cs) response"

section \<open>Datagrams\<close>

datatype datagram_error =
  DatagramTooLong nat
| DatagramIo io_error
| BufferTooSmall nat nat

definition write_datagram :: "bytes \<Rightarrow> conn \<Rightarrow> (datagram_error + unit) \<times> conn" where
  "write_datagram payload =
     (if length payload > 65535 then io_err (DatagramTooLong (length payload))
      else
        io_bind (io_lift DatagramIo (write_all (le_bytes 2 (length payload)))) (\<lambda>_.
        io_lift DatagramIo (write_all payload)))"

definition read_datagram :: "nat \<Rightarrow> conn \<Rightarrow> (datagram_error + bytes) \<times> conn" where
  "read_datagram buf_len =
     io_bind (io_lift DatagramIo (read_exact 2)) (\<lambda>len_buf.
     let len = from_le_bytes len_buf in
     if len > buf_len then io_err (BufferTooSmall len buf_len)
     else io_lift DatagramIo (read_exact len))"

section \<open>What a framed stream promises\<close>

text \<open>\<^verbatim>\<open>frame\<close> gives the bytes of a message the reader is meant to take, \<^verbatim>\<open>send\<close> and
  \<^verbatim>\<open>receive\<close> are the two ends.\<close>

locale framed_stream =
  fixes frame :: "'a \<Rightarrow> bytes option"
    and send :: "'a \<Rightarrow> conn \<Rightarrow> ('e + unit) \<times> conn"
    and receive :: "conn \<Rightarrow> ('e + 'a) \<times> conn"
  assumes send_frame: "frame a = Some f \<Longrightarrow> \<not> fin c \<Longrightarrow> length f \<le> wleft c \<Longrightarrow>
      send a c = (Inr (), c\<lparr>outb := outb c @ f, wleft := wleft c - length f\<rparr>)"
    and sent_frame: "frame a = Some f \<Longrightarrow> send a c = (Inr u, c') \<Longrightarrow>
      outb c' = outb c @ f \<and> inb c' = inb c \<and> fin c' = fin c"
    and receive_frame: "frame a = Some f \<Longrightarrow> inb c = f @ rest \<Longrightarrow>
      receive c = (Inr a, c\<lparr>inb := rest\<rparr>)"
    and frame_nonempty: "frame a = Some f \<Longrightarrow> f \<noteq> []"
    and receive_eof: "inb c = [] \<Longrightarrow> \<exists>e. receive c = (Inl e, c)"
begin

fun frames :: "'a list \<Rightarrow> bytes option" where
  "frames [] = Some []"
| "frames (a # as) = (case (frame a, frames as) of (Some f, Some fs) \<Rightarrow> Some (f @ fs) | _ \<Rightarrow> None)"

fun send_each :: "'a list \<Rightarrow> conn \<Rightarrow> ('e + unit) \<times> conn" where
  "send_each [] c = (Inr (), c)"
| "send_each (a # as) c = (case send a c of (Inl e, c') \<Rightarrow> (Inl e, c') | (Inr _, c') \<Rightarrow> send_each as c')"

fun receive_each :: "nat \<Rightarrow> conn \<Rightarrow> 'a list \<times> conn" where
  "receive_each 0 c = ([], c)"
| "receive_each (Suc n) c =
     (case receive c of
        (Inl _, c') \<Rightarrow> ([], c')
      | (Inr a, c') \<Rightarrow> (case receive_each n c' of (as, c'') \<Rightarrow> (a # as, c'')))"

lemma frames_Cons:
  "frames (a # as) = Some g \<longleftrightarrow> (\<exists>f fs. frame a = Some f \<and> frames as = Some fs \<and> g = f @ fs)"
  by (auto split: option.splits)

lemma send_each_frames:
  "frames as = Some g \<Longrightarrow> \<not> fin c \<Longrightarrow> length g \<le> wleft c \<Longrightarrow>
   send_each as c = (Inr (), c\<lparr>outb := outb c @ g, wleft := wleft c - length g\<rparr>)"
proof (induction as arbitrary: g c)
  case (Cons a as)
  from Cons.prems(1) obtain f fs where f: "frame a = Some f" "frames as = Some fs" "g = f @ fs"
    by (auto simp: frames_Cons simp del: frames.simps)
  with Cons.prems have "send a c = (Inr (), c\<lparr>outb := outb c @ f, wleft := wleft c - length f\<rparr>)"
    by (intro send_frame) auto
  with Cons f show ?case by simp
qed simp

text \<open>Messages arrive in order, none split and none merged, and the stream is left at the
  first byte after the last of them. The end of the stream is an error, never a message.\<close>

lemma receive_each_frames:
  "frames as = Some g \<Longrightarrow> inb c = g @ rest \<Longrightarrow> n = length as \<Longrightarrow>
   receive_each n c = (as, c\<lparr>inb := rest\<rparr>)"
proof (induction as arbitrary: g c n)
  case (Cons a as)
  from Cons.prems(1) obtain f fs where f: "frame a = Some f" "frames as = Some fs" "g = f @ fs"
    by (auto simp: frames_Cons simp del: frames.simps)
  with Cons.prems have "receive c = (Inr a, c\<lparr>inb := fs @ rest\<rparr>)" by (intro receive_frame) auto
  with Cons f show ?case by simp
qed simp

lemma receive_each_all:
  assumes "frames as = Some g" "inb c = g" "length as \<le> n"
  shows "receive_each n c = (as, c\<lparr>inb := []\<rparr>)"
  using assms
proof (induction as arbitrary: g c n)
  case Nil
  then show ?case using receive_eof [of c] by (cases n) auto
next
  case (Cons a as)
  from Cons.prems(1) obtain f fs where f: "frame a = Some f" "frames as = Some fs" "g = f @ fs"
    by (auto simp: frames_Cons simp del: frames.simps)
  with Cons.prems have "receive c = (Inr a, c\<lparr>inb := fs\<rparr>)" by (intro receive_frame) auto
  moreover from Cons.prems obtain m where "n = Suc m" "length as \<le> m" by (cases n) auto
  ultimately show ?case using Cons f by simp
qed

end

section \<open>Both streams keep the promise\<close>

definition control_frame :: "'a codec \<Rightarrow> 'a \<Rightarrow> bytes option" where
  "control_frame cd msg =
     (case to_bytes cd msg of
        Some body \<Rightarrow>
          if from_bytes cd body = Some msg \<and> length body \<le> max_control_msg
          then Some (le_bytes 4 (length body) @ body) else None
      | None \<Rightarrow> None)"

definition datagram_frame :: "bytes \<Rightarrow> bytes option" where
  "datagram_frame payload =
     (if length payload \<le> 65535 then Some (le_bytes 2 (length payload) @ payload) else None)"

lemma control_frame_Some:
  "control_frame cd m = Some f \<longleftrightarrow>
   (\<exists>body. to_bytes cd m = Some body \<and> from_bytes cd body = Some m \<and> length body \<le> max_control_msg \<and>
     f = le_bytes 4 (length body) @ body)"
  by (auto simp: control_frame_def split: option.splits)

lemma io_bind_Inr_iff:
  "io_bind m g c = (Inr b, c') \<longleftrightarrow> (\<exists>a c1. m c = (Inr a, c1) \<and> g a c1 = (Inr b, c'))"
  by (auto simp: io_bind_def split: prod.splits sum.splits)

lemma io_lift_Inr_iff: "io_lift h m c = (Inr a, c') \<longleftrightarrow> m c = (Inr a, c')"
  by (auto simp: io_lift_def split: prod.splits)

lemma write_framed_sent:
  assumes "write_framed cd m c = (Inr u, c')" "to_bytes cd m = Some body"
  shows "c' = c\<lparr>outb := outb c @ le_bytes 4 (length body) @ body,
    wleft := wleft c - (4 + length body)\<rparr> \<and> length body \<le> 4294967295"
proof -
  from assms have len: "length body \<le> 4294967295"
    by (auto simp: write_framed_def io_bind_def io_err_def split: if_splits)
  with assms obtain c1 where "write_all (le_bytes 4 (length body)) c = (Inr (), c1)"
      "write_all body c1 = (Inr u, c')"
    by (auto simp: write_framed_def io_bind_Inr_iff io_lift_Inr_iff)
  with len show ?thesis by (auto dest!: write_all_Inr)
qed

lemma write_framed_ok:
  assumes "to_bytes cd m = Some body" "length body \<le> 4294967295" "\<not> fin c" "4 + length body \<le> wleft c"
  shows "write_framed cd m c = (Inr (), c\<lparr>outb := outb c @ le_bytes 4 (length body) @ body,
    wleft := wleft c - (4 + length body)\<rparr>)"
  using assms by (simp add: write_framed_def result_simps)

lemma read_framed_body:
  assumes "inb c = le_bytes 4 (length body) @ body @ rest" "length body \<le> 4294967295"
  shows "read_framed cd c =
    (if length body > max_control_msg then (Inl (ExceedsCap (length body)), c\<lparr>inb := body @ rest\<rparr>)
     else (ok_or DecodeFailed (from_bytes cd body), c\<lparr>inb := rest\<rparr>))"
proof -
  have "from_le_bytes (le_bytes 4 (length body)) = length body"
    by (rule from_le_bytes_le_bytes) (use assms in simp)
  moreover have "read_exact 4 c = (Inr (le_bytes 4 (length body)), c\<lparr>inb := body @ rest\<rparr>)"
    by (rule read_exact_append) (use assms in simp_all)
  ultimately show ?thesis
    by (simp add: read_framed_def io_bind_def io_lift_def io_err_def Let_def read_exact_append)
qed

interpretation ctl: framed_stream "control_frame cd" "write_framed cd" "read_framed cd"
  for cd :: "'a codec"
proof unfold_locales
  fix a :: 'a and f c c' rest u
  have cap: "length body \<le> max_control_msg \<Longrightarrow> length body \<le> 4294967295" for body :: bytes
    by (simp add: max_control_msg_def)
  show "control_frame cd a = Some f \<Longrightarrow> \<not> fin c \<Longrightarrow> length f \<le> wleft c \<Longrightarrow>
      write_framed cd a c = (Inr (), c\<lparr>outb := outb c @ f, wleft := wleft c - length f\<rparr>)"
    using cap by (auto simp: control_frame_Some write_framed_ok)
  show "control_frame cd a = Some f \<Longrightarrow> write_framed cd a c = (Inr u, c') \<Longrightarrow>
      outb c' = outb c @ f \<and> inb c' = inb c \<and> fin c' = fin c"
    by (auto simp: control_frame_Some dest: write_framed_sent)
  show "control_frame cd a = Some f \<Longrightarrow> inb c = f @ rest \<Longrightarrow> read_framed cd c = (Inr a, c\<lparr>inb := rest\<rparr>)"
    using cap by (auto simp: control_frame_Some read_framed_body)
  show "control_frame cd a = Some f \<Longrightarrow> f \<noteq> []"
    by (auto simp: control_frame_Some dest: arg_cong [of _ _ length])
  show "inb c = [] \<Longrightarrow> \<exists>e. read_framed cd c = (Inl e, c)"
    by (simp add: read_framed_def result_simps)
qed

lemma write_datagram_sent:
  assumes "write_datagram p c = (Inr u, c')"
  shows "c' = c\<lparr>outb := outb c @ le_bytes 2 (length p) @ p, wleft := wleft c - (2 + length p)\<rparr>
    \<and> length p \<le> 65535"
proof -
  from assms have len: "length p \<le> 65535"
    by (auto simp: write_datagram_def io_err_def split: if_splits)
  with assms obtain c1 where "write_all (le_bytes 2 (length p)) c = (Inr (), c1)"
      "write_all p c1 = (Inr u, c')"
    by (auto simp: write_datagram_def io_bind_Inr_iff io_lift_Inr_iff)
  with len show ?thesis by (auto dest!: write_all_Inr)
qed

interpretation dgram: framed_stream datagram_frame write_datagram "read_datagram 65535"
proof unfold_locales
  fix a f :: bytes and c c' rest u
  show "datagram_frame a = Some f \<Longrightarrow> \<not> fin c \<Longrightarrow> length f \<le> wleft c \<Longrightarrow>
      write_datagram a c = (Inr (), c\<lparr>outb := outb c @ f, wleft := wleft c - length f\<rparr>)"
    by (auto simp: datagram_frame_def write_datagram_def result_simps split: if_splits)
  show "datagram_frame a = Some f \<Longrightarrow> write_datagram a c = (Inr u, c') \<Longrightarrow>
      outb c' = outb c @ f \<and> inb c' = inb c \<and> fin c' = fin c"
    by (auto simp: datagram_frame_def dest!: write_datagram_sent split: if_splits)
  show "read_datagram 65535 c = (Inr a, c\<lparr>inb := rest\<rparr>)" if "datagram_frame a = Some f" "inb c = f @ rest"
  proof -
    from that have len: "length a \<le> 65535" and inb: "inb c = le_bytes 2 (length a) @ a @ rest"
      by (auto simp: datagram_frame_def split: if_splits)
    have "from_le_bytes (le_bytes 2 (length a)) = length a"
      by (rule from_le_bytes_le_bytes) (use len in simp)
    moreover have "read_exact 2 c = (Inr (le_bytes 2 (length a)), c\<lparr>inb := a @ rest\<rparr>)"
      by (rule read_exact_append) (use inb in simp_all)
    ultimately show ?thesis
      using len by (simp add: read_datagram_def io_bind_def io_lift_def io_err_def Let_def read_exact_append)
  qed
  show "datagram_frame a = Some f \<Longrightarrow> f \<noteq> []"
    by (auto simp: datagram_frame_def split: if_splits dest: arg_cong [of _ _ length])
  show "inb c = [] \<Longrightarrow> \<exists>e. read_datagram 65535 c = (Inl e, c)"
    by (simp add: read_datagram_def result_simps)
qed

section \<open>Properties of control messages\<close>


definition bytes_codec :: "bytes codec" where
  "bytes_codec = \<lparr> to_bytes = Some, from_bytes = Some \<rparr>"

definition open_line :: "bytes \<Rightarrow> conn" where
  "open_line bs = \<lparr> inb = bs, outb = [], wleft = 100, fin = False \<rparr>"

lemma le_bytes_3: "le_bytes 4 (Suc (Suc (Suc 0))) = [3, 0, 0, 0]"
  by (simp add: le_bytes_def upt_rec)


lemma read_framed_Inr:
  assumes "read_framed cd c = (Inr m, c')"
  obtains body where "inb c = le_bytes 4 (length body) @ body @ inb c'" "length body \<le> max_control_msg"
    "from_bytes cd body = Some m" "c' = c\<lparr>inb := inb c'\<rparr>"
proof -
  let ?n = "from_le_bytes (take 4 (inb c))"
  from assms have 4: "4 \<le> length (inb c)"
    by (cases "4 \<le> length (inb c)") (auto simp: read_framed_def io_bind_def io_lift_def read_exact_def)
  with assms have n: "?n \<le> max_control_msg"
    by (auto simp: read_framed_def io_bind_def io_lift_def read_exact_def io_err_def Let_def split: if_splits)
  with assms 4 have len: "?n \<le> length (drop 4 (inb c))"
    by (cases "?n \<le> length (drop 4 (inb c))")
      (auto simp: read_framed_def io_bind_def io_lift_def read_exact_def Let_def)
  define body where "body = take ?n (drop 4 (inb c))"
  have "from_bytes cd body = Some m" "c' = c\<lparr>inb := drop ?n (drop 4 (inb c))\<rparr>"
    using assms 4 n len
    by (auto simp: read_framed_def io_bind_def io_lift_def read_exact_def Let_def body_def)
  moreover have "length body = ?n" using len by (simp add: body_def)
  moreover have "le_bytes 4 ?n = take 4 (inb c)" by (rule le_bytes_from_le_bytes) (use 4 in simp)
  ultimately show thesis
    using n by (intro that [of body]) (simp_all add: body_def del: drop_drop)
qed

text \<open>C16. The reader accepts exactly the framed messages within the cap: it returns a
  message iff the stream starts with a four-byte little-endian length of at most 64 KiB,
  followed by that many bytes that decode to it, and it consumes just those bytes.\<close>

theorem read_framed_exact:
  "read_framed cd c = (Inr m, c') \<longleftrightarrow>
   (\<exists>body rest. inb c = le_bytes 4 (length body) @ body @ rest \<and> length body \<le> max_control_msg \<and>
      from_bytes cd body = Some m \<and> c' = c\<lparr>inb := rest\<rparr>)"
proof
  assume "read_framed cd c = (Inr m, c')"
  then show "\<exists>body rest. inb c = le_bytes 4 (length body) @ body @ rest \<and> length body \<le> max_control_msg \<and>
      from_bytes cd body = Some m \<and> c' = c\<lparr>inb := rest\<rparr>"
    by (rule read_framed_Inr) blast
next
  assume "\<exists>body rest. inb c = le_bytes 4 (length body) @ body @ rest \<and> length body \<le> max_control_msg \<and>
      from_bytes cd body = Some m \<and> c' = c\<lparr>inb := rest\<rparr>"
  then obtain body rest where b: "inb c = le_bytes 4 (length body) @ body @ rest"
      "length body \<le> max_control_msg" "from_bytes cd body = Some m" "c' = c\<lparr>inb := rest\<rparr>" by blast
  then have "length body \<le> 4294967295" by (simp add: max_control_msg_def)
  with b show "read_framed cd c = (Inr m, c')" by (simp add: read_framed_body)
qed

text \<open>The writer's bound is not the reader's: a message whose encoding is longer than
  64 KiB but fits a 32-bit length is written without an error, and the peer rejects it
  after reading only the length.\<close>

theorem oversize_message_rejected:
  assumes "to_bytes cd m = Some body" "max_control_msg < length body" "length body \<le> 4294967295"
    and "\<not> fin c" "outb c = []" "4 + length body \<le> wleft c" "inb d = outb (snd (write_framed cd m c))"
  shows "fst (write_framed cd m c) = Inr () \<and>
    read_framed cd d = (Inl (ExceedsCap (length body)), d\<lparr>inb := body\<rparr>)"
  using assms read_framed_body [of d body "[]" cd] by (simp add: write_framed_ok)

theorem oversize_message_rejected_witness:
  "let m = replicate 65537 (0 :: u8); c = (open_line [])\<lparr>wleft := 65541\<rparr>;
       d = open_line (outb (snd (write_framed bytes_codec m c))) in
   fst (write_framed bytes_codec m c) = Inr () \<and>
   read_framed bytes_codec d = (Inl (ExceedsCap 65537), d\<lparr>inb := m\<rparr>)"
  using oversize_message_rejected [of bytes_codec "replicate 65537 0" "replicate 65537 0"
      "(open_line [])\<lparr>wleft := 65541\<rparr>"
      "open_line (outb (snd (write_framed bytes_codec (replicate 65537 0) ((open_line [])\<lparr>wleft := 65541\<rparr>))))"]
  unfolding Let_def
  by (simp add: bytes_codec_def open_line_def max_control_msg_def)

end
