(* ===== verification/Tcp.thy ===== *)
theory Tcp
  imports Framing Counted "HOL-Library.Sublist"
begin

text \<open>
  TCP and stdio tunnels (\<^verbatim>\<open>src/src/common/tcp.rs\<close>). \<^verbatim>\<open>tunnel_tcp_stream\<close> joins two copy
  directions in one task. A direction is a \<^term>\<open>half\<close>: it waits on the shared \<^verbatim>\<open>Notify\<close> or
  copies, and on an error it notifies the other one. One event is one poll of one direction, with
  what its source has ready: an error, bytes, or no bytes, which is the end of the stream.
  \<^verbatim>\<open>notify_waiters\<close> reaches the futures that exist when it is called, so a half gets the
  notification when it has been polled before and has not finished. How the source's bytes are cut
  into chunks is the environment's choice, so the 256 KB buffer has no part in the model.
\<close>

section \<open>One direction\<close>

datatype copy_outcome = Eof | Errored io_error | Aborted | AbortedWith io_error

datatype half_status = Unpolled | Waiting | Finished "io_error + unit"

record half =
  status :: half_status
  wake :: bool
  sink :: conn
  was_reset :: bool
  counted :: "u64 option"

definition count_read :: "bytes \<Rightarrow> half \<Rightarrow> half" where
  "count_read bs h =
     h\<lparr>counted := map_option (\<lambda>k. snd (counted_poll_read (ReadyOk bs :: io_error poll) ([], k))) (counted h)\<rparr>"

fun copy_buf :: "(io_error + bytes) list \<Rightarrow> half \<Rightarrow> copy_outcome option \<times> half" where
  "copy_buf [] h = (None, h)"
| "copy_buf (Inl e # rs) h = (Some (Errored e), h)"
| "copy_buf (Inr bs # rs) h =
     (if bs = [] then (Some Eof, h)
      else
        let h1 = count_read bs h in
        case write_all bs (sink h1) of
          (Inl e, c) \<Rightarrow> (Some (Errored e), h1\<lparr>sink := c\<rparr>)
        | (Inr _, c) \<Rightarrow> copy_buf rs (h1\<lparr>sink := c\<rparr>))"

definition send_shutdown :: "half \<Rightarrow> half" where
  "send_shutdown h = h\<lparr>sink := snd (shutdown (sink h))\<rparr>"

definition send_reset :: "half \<Rightarrow> half" where
  "send_reset h = h\<lparr>was_reset := True\<rparr>"

text \<open>What a direction does when its copy is over, by outcome: the actions on its sink, whether it
  notifies the other direction, and its result.\<close>

definition conclude :: "(half \<Rightarrow> half) \<Rightarrow> (half \<Rightarrow> half) \<Rightarrow> copy_outcome \<Rightarrow> half \<Rightarrow> bool \<times> half" where
  "conclude on_eof on_abort out h =
     (case out of
        Eof \<Rightarrow> (False, (on_eof h)\<lparr>status := Finished (Inr ())\<rparr>)
      | Errored e \<Rightarrow> (True, (on_abort h)\<lparr>status := Finished (Inl e)\<rparr>)
      | AbortedWith e \<Rightarrow> (True, (on_abort h)\<lparr>status := Finished (Inl e)\<rparr>)
      | Aborted \<Rightarrow> (False, (on_abort h)\<lparr>status := Finished (Inr ())\<rparr>))"

definition poll_half ::
  "(half \<Rightarrow> half) \<Rightarrow> (half \<Rightarrow> half) \<Rightarrow> (io_error + bytes) list \<Rightarrow> half \<Rightarrow> bool \<times> half" where
  "poll_half on_eof on_abort ready h =
     (case status h of
        Finished _ \<Rightarrow> (False, h)
      | _ \<Rightarrow>
         (case (if wake h then (Some Aborted, h) else copy_buf ready h) of
            (None, h1) \<Rightarrow> (False, h1\<lparr>status := Waiting\<rparr>)
          | (Some out, h1) \<Rightarrow> conclude on_eof on_abort out h1))"

definition notify :: "half \<Rightarrow> half" where
  "notify h = (if status h = Waiting then h\<lparr>wake := True\<rparr> else h)"

section \<open>Both directions\<close>

record duplex =
  tx :: half
  rx :: half

datatype poll_event = PollTx "(io_error + bytes) list" | PollRx "(io_error + bytes) list"

definition duplex_poll ::
  "(half \<Rightarrow> half) \<Rightarrow> (half \<Rightarrow> half) \<Rightarrow> (half \<Rightarrow> half) \<Rightarrow> (half \<Rightarrow> half) \<Rightarrow> poll_event \<Rightarrow> duplex \<Rightarrow> duplex" where
  "duplex_poll tx_eof tx_abort rx_eof rx_abort ev d =
     (case ev of
        PollTx ready \<Rightarrow>
          (case poll_half tx_eof tx_abort ready (tx d) of
             (n, h) \<Rightarrow> d\<lparr>tx := h, rx := if n then notify (rx d) else rx d\<rparr>)
      | PollRx ready \<Rightarrow>
          (case poll_half rx_eof rx_abort ready (rx d) of
             (n, h) \<Rightarrow> d\<lparr>tx := if n then notify (tx d) else tx d, rx := h\<rparr>))"

fun is_finished :: "half \<Rightarrow> bool" where
  "is_finished h = (case status h of Finished _ \<Rightarrow> True | _ \<Rightarrow> False)"

definition joined :: "duplex \<Rightarrow> bool" where
  "joined d \<longleftrightarrow> is_finished (tx d) \<and> is_finished (rx d)"

definition half_new :: "nat \<Rightarrow> u64 option \<Rightarrow> half" where
  "half_new room counter =
     \<lparr> status = Unpolled, wake = False, sink = \<lparr> inb = [], outb = [], wleft = room, fin = False \<rparr>,
       was_reset = False, counted = counter \<rparr>"

text \<open>\<^verbatim>\<open>tunnel_tcp_stream\<close>: the client-to-server half ends with a FIN or a RESET of the QUIC stream, the other
  one always with a FIN on the TCP socket. The tx counter is \<^verbatim>\<open>bytes_out\<close>, the rx counter \<^verbatim>\<open>bytes_in\<close>.
  The join is over once both halves are, and it returns \<^verbatim>\<open>Ok\<close> whatever they returned.\<close>

definition tunnel_tcp_poll :: "poll_event \<Rightarrow> duplex \<Rightarrow> duplex" where
  "tunnel_tcp_poll = duplex_poll send_shutdown send_reset send_shutdown send_shutdown"

definition tunnel_tcp_stream :: "counters option \<Rightarrow> nat \<Rightarrow> nat \<Rightarrow> poll_event list \<Rightarrow> duplex" where
  "tunnel_tcp_stream cs room_quic room_tcp evs =
     fold tunnel_tcp_poll evs
       \<lparr> tx = half_new room_quic (map_option bytes_out cs), rx = half_new room_tcp (map_option bytes_in cs) \<rparr>"

text \<open>\<^verbatim>\<open>tunnel_stdio_client\<close> after its OpenConn exchange: standard output is flushed, never closed.\<close>

definition tunnel_stdio_poll :: "poll_event \<Rightarrow> duplex \<Rightarrow> duplex" where
  "tunnel_stdio_poll = duplex_poll send_shutdown send_reset id id"

definition tunnel_stdio_client ::
  "codecs \<Rightarrow> u64 \<Rightarrow> conn \<Rightarrow> nat \<Rightarrow> nat \<Rightarrow> poll_event list \<Rightarrow> (control_error + duplex) \<times> conn" where
  "tunnel_stdio_client cs tid stream room_quic room_out evs =
     (case send_open_conn cs \<lparr> tunnel_id = tid, dynamic = None \<rparr> stream of
        (Inl e, s) \<Rightarrow> (Inl e, s)
      | (Inr _, s) \<Rightarrow>
          (Inr (fold tunnel_stdio_poll evs \<lparr> tx = half_new room_quic None, rx = half_new room_out None \<rparr>), s))"

datatype tcp_server_error = NoHostPort | DialFailed io_error

text \<open>\<^verbatim>\<open>tunnel_tcp_server\<close>; \<^term>\<open>dial\<close> is the system's connect.\<close>

definition tunnel_tcp_server ::
  "(string \<Rightarrow> io_error + nat) \<Rightarrow> remote_request \<Rightarrow> counters option \<Rightarrow> nat \<Rightarrow> poll_event list \<Rightarrow> tcp_server_error + duplex" where
  "tunnel_tcp_server dial req cs room_quic evs =
     (case remote_addr_string req of
        None \<Rightarrow> Inl NoHostPort
      | Some addr \<Rightarrow>
         (case dial addr of
            Inl e \<Rightarrow> Inl (DialFailed e)
          | Inr room_tcp \<Rightarrow> Inr (tunnel_tcp_stream cs room_quic room_tcp evs)))"

section \<open>What reaches the sinks\<close>

text \<open>The bytes a source yields before it ends or fails, and whether it ends.\<close>

fun yielded :: "(io_error + bytes) list \<Rightarrow> bytes" where
  "yielded [] = []"
| "yielded (Inl e # rs) = []"
| "yielded (Inr bs # rs) = (if bs = [] then [] else bs @ yielded rs)"

fun ended :: "(io_error + bytes) list \<Rightarrow> bool" where
  "ended [] = False"
| "ended (Inl e # rs) = False"
| "ended (Inr bs # rs) = (bs = [] \<or> ended rs)"

fun tx_ready :: "poll_event list \<Rightarrow> (io_error + bytes) list" where
  "tx_ready [] = []"
| "tx_ready (PollTx r # evs) = r @ tx_ready evs"
| "tx_ready (PollRx r # evs) = tx_ready evs"

fun rx_ready :: "poll_event list \<Rightarrow> (io_error + bytes) list" where
  "rx_ready [] = []"
| "rx_ready (PollRx r # evs) = r @ rx_ready evs"
| "rx_ready (PollTx r # evs) = rx_ready evs"

abbreviation faultless :: "(io_error + bytes) list \<Rightarrow> bool" where
  "faultless rs \<equiv> (\<forall>e. Inl e \<notin> set rs)"

lemma yielded_append:
  "faultless rs \<Longrightarrow> yielded (rs @ r) = (if ended rs then yielded rs else yielded rs @ yielded r)"
  by (induction rs rule: yielded.induct) auto

lemma ended_append: "faultless rs \<Longrightarrow> ended (rs @ r) = (ended rs \<or> ended r)"
  by (induction rs rule: ended.induct) auto

lemma yielded_mono: "prefix (yielded rs) (yielded (rs @ r))"
  by (induction rs rule: yielded.induct) auto

lemma copy_buf_clean:
  "faultless rs \<Longrightarrow> \<not> fin (sink h) \<Longrightarrow> length (yielded rs) \<le> wleft (sink h) \<Longrightarrow>
   copy_buf rs h =
     (if ended rs then Some Eof else None,
      h\<lparr>sink := (sink h)\<lparr>outb := outb (sink h) @ yielded rs, wleft := wleft (sink h) - length (yielded rs)\<rparr>,
        counted := map_option (\<lambda>k. k + word_of_nat (length (yielded rs))) (counted h)\<rparr>)"
proof (induction rs h rule: copy_buf.induct)
  case (3 bs rs h)
  then show ?case
    by (auto simp: count_read_def write_all_def counted_poll_read_def Let_def option.map_comp comp_def add.assoc
        option.map_ident split: if_splits)
qed (auto simp: option.map_ident)

text \<open>A half that has been through \<^term>\<open>rs\<close> without a fault.\<close>

definition clean_half :: "nat \<Rightarrow> u64 option \<Rightarrow> bool \<Rightarrow> (io_error + bytes) list \<Rightarrow> half" where
  "clean_half room k polled rs =
     \<lparr> status = if ended rs then Finished (Inr ()) else if polled then Waiting else Unpolled, wake = False,
       sink = \<lparr> inb = [], outb = yielded rs, wleft = room - length (yielded rs), fin = ended rs \<rparr>,
       was_reset = False, counted = map_option (\<lambda>k. k + word_of_nat (length (yielded rs))) k \<rparr>"

lemma poll_half_clean:
  assumes "faultless (rs @ r)" "length (yielded (rs @ r)) \<le> room"
  shows "poll_half send_shutdown on_abort r (clean_half room k p rs) = (False, clean_half room k True (rs @ r))"
proof (cases "ended rs")
  case True
  with assms show ?thesis by (simp add: poll_half_def clean_half_def yielded_append ended_append)
next
  case False
  from assms(1) have f: "faultless rs" "faultless r" by auto
  with assms(2) False have len: "length (yielded r) \<le> room - length (yielded rs)" by (simp add: yielded_append)
  have "poll_half send_shutdown on_abort r (clean_half room k p rs) =
      (case copy_buf r (clean_half room k p rs) of
         (None, h1) \<Rightarrow> (False, h1\<lparr>status := Waiting\<rparr>)
       | (Some out, h1) \<Rightarrow> conclude send_shutdown on_abort out h1)"
    using False by (auto simp: poll_half_def clean_half_def)
  also have "copy_buf r (clean_half room k p rs) =
      (if ended r then Some Eof else None,
       (clean_half room k p rs)\<lparr>sink := (sink (clean_half room k p rs))\<lparr>outb := yielded rs @ yielded r,
          wleft := room - length (yielded rs) - length (yielded r)\<rparr>,
        counted := map_option (\<lambda>k. k + word_of_nat (length (yielded r))) (counted (clean_half room k p rs))\<rparr>)"
    using copy_buf_clean [OF f(2), of "clean_half room k p rs"] False len by (simp add: clean_half_def)
  also have "(case \<dots> of
         (None, h1) \<Rightarrow> (False, h1\<lparr>status := Waiting\<rparr>)
       | (Some out, h1) \<Rightarrow> conclude send_shutdown on_abort out h1) = (False, clean_half room k True (rs @ r))"
    using False f
    by (auto simp: clean_half_def conclude_def send_shutdown_def shutdown_def yielded_append ended_append
        option.map_comp comp_def add.assoc)
  finally show ?thesis .
qed

definition polled_tx :: "poll_event list \<Rightarrow> bool" where
  "polled_tx evs \<longleftrightarrow> (\<exists>r. PollTx r \<in> set evs)"

definition polled_rx :: "poll_event list \<Rightarrow> bool" where
  "polled_rx evs \<longleftrightarrow> (\<exists>r. PollRx r \<in> set evs)"

lemma polled_snoc [simp]:
  "polled_tx (evs @ [PollTx r])" "polled_tx (evs @ [PollRx r]) = polled_tx evs"
  "polled_rx (evs @ [PollRx r])" "polled_rx (evs @ [PollTx r]) = polled_rx evs"
  by (auto simp: polled_tx_def polled_rx_def)

lemma ready_append:
  "tx_ready (xs @ ys) = tx_ready xs @ tx_ready ys" "rx_ready (xs @ ys) = rx_ready xs @ rx_ready ys"
  by (induction xs rule: tx_ready.induct) simp_all

lemma half_new_clean: "half_new room k = clean_half room k False []"
  by (simp add: half_new_def clean_half_def option.map_ident)

lemma tunnel_clean:
  assumes "faultless (tx_ready evs)" "length (yielded (tx_ready evs)) \<le> rq"
    "faultless (rx_ready evs)" "length (yielded (rx_ready evs)) \<le> rt"
  shows "tunnel_tcp_stream cs rq rt evs =
    \<lparr> tx = clean_half rq (map_option bytes_out cs) (polled_tx evs) (tx_ready evs),
      rx = clean_half rt (map_option bytes_in cs) (polled_rx evs) (rx_ready evs) \<rparr>"
  using assms
proof (induction evs rule: rev_induct)
  case Nil
  then show ?case by (simp add: tunnel_tcp_stream_def half_new_clean polled_tx_def polled_rx_def)
next
  case (snoc ev evs)
  have room: "length (yielded xs) \<le> n" if "length (yielded (xs @ ys)) \<le> n" for xs ys n
    using that prefix_length_le [OF yielded_mono [of xs ys]] by simp
  have IH: "tunnel_tcp_stream cs rq rt evs =
    \<lparr> tx = clean_half rq (map_option bytes_out cs) (polled_tx evs) (tx_ready evs),
      rx = clean_half rt (map_option bytes_in cs) (polled_rx evs) (rx_ready evs) \<rparr>"
    using snoc.prems by (intro snoc.IH) (auto simp: ready_append intro: room)
  then have "tunnel_tcp_stream cs rq rt (evs @ [ev]) = tunnel_tcp_poll ev
    \<lparr> tx = clean_half rq (map_option bytes_out cs) (polled_tx evs) (tx_ready evs),
      rx = clean_half rt (map_option bytes_in cs) (polled_rx evs) (rx_ready evs) \<rparr>"
    by (simp add: tunnel_tcp_stream_def)
  with snoc.prems show ?case
    by (cases ev)
      (auto simp: tunnel_tcp_poll_def duplex_poll_def poll_half_clean ready_append)
qed

text \<open>C7. Without faults a TCP tunnel delivers each direction exactly: all bytes, in order, whatever the
  schedule and the chunking; a FIN is forwarded when and only when its own source ended, so a half-close does
  not cut the other direction; nothing is reset; the byte counters advance by what was copied; and the join is
  over exactly when both sources ended.\<close>

theorem tcp_stream_exact:
  fixes cs :: counters
  assumes "faultless (tx_ready evs)" "length (yielded (tx_ready evs)) \<le> room_quic"
    "faultless (rx_ready evs)" "length (yielded (rx_ready evs)) \<le> room_tcp"
  defines "d \<equiv> tunnel_tcp_stream (Some cs) room_quic room_tcp evs"
  shows "outb (sink (tx d)) = yielded (tx_ready evs) \<and> outb (sink (rx d)) = yielded (rx_ready evs) \<and>
    fin (sink (tx d)) = ended (tx_ready evs) \<and> fin (sink (rx d)) = ended (rx_ready evs) \<and>
    \<not> was_reset (tx d) \<and>
    counted (tx d) = Some (bytes_out cs + word_of_nat (length (yielded (tx_ready evs)))) \<and>
    counted (rx d) = Some (bytes_in cs + word_of_nat (length (yielded (rx_ready evs)))) \<and>
    joined d = (ended (tx_ready evs) \<and> ended (rx_ready evs))"
  using tunnel_clean [OF assms(1-4), of "Some cs"] by (simp add: d_def clean_half_def joined_def)

theorem tcp_stream_exact_witness:
  "let d = tunnel_tcp_stream (Some counters_new) 10 10
       [PollTx [Inr [1, 2]], PollRx [Inr [7]], PollTx [Inr []], PollRx [Inr [8, 9]]] in
   outb (sink (tx d)) = [1, 2] \<and> outb (sink (rx d)) = [7, 8, 9] \<and> fin (sink (tx d)) \<and> \<not> fin (sink (rx d))"
  using tcp_stream_exact [of "[PollTx [Inr [1, 2]], PollRx [Inr [7]], PollTx [Inr []], PollRx [Inr [8, 9]]]" 10 10
      counters_new]
  by (simp add: Let_def)

section \<open>Faults\<close>

text \<open>What holds of a half that has been offered \<^term>\<open>rs\<close>, faults included.\<close>

definition half_ok :: "(io_error + bytes) list \<Rightarrow> half \<Rightarrow> bool" where
  "half_ok rs h \<longleftrightarrow> prefix (outb (sink h)) (yielded rs) \<and>
     (\<not> is_finished h \<longrightarrow> outb (sink h) = yielded rs \<and> faultless rs \<and> \<not> ended rs \<and> \<not> fin (sink h))"

lemma copy_buf_ok:
  "\<not> fin (sink h) \<Longrightarrow> copy_buf rs h = (out, h') \<Longrightarrow>
   status h' = status h \<and> wake h' = wake h \<and>
   (\<exists>ws. outb (sink h') = outb (sink h) @ ws \<and> prefix ws (yielded rs) \<and>
     (out = None \<longrightarrow> ws = yielded rs \<and> faultless rs \<and> \<not> ended rs \<and> \<not> fin (sink h')))"
proof (induction rs h rule: copy_buf.induct)
  case (3 bs rs h)
  show ?case
  proof (cases "bs = []")
    case False
    let ?h = "count_read bs h"
    have sink: "sink ?h = sink h" "status ?h = status h" "wake ?h = wake h" by (simp_all add: count_read_def)
    show ?thesis
    proof (cases "length bs \<le> wleft (sink h)")
      case True
      let ?c = "(sink h)\<lparr>outb := outb (sink h) @ bs, wleft := wleft (sink h) - length bs\<rparr>"
      have w: "write_all bs (sink ?h) = (Inr (), ?c)"
        using True False "3.prems"(1) sink by (simp add: write_all_def)
      with "3.prems" False have "copy_buf rs (?h\<lparr>sink := ?c\<rparr>) = (out, h')" by (simp add: Let_def)
      from "3.IH" [OF False refl w [symmetric] refl _ this] "3.prems" False sink
      show ?thesis by auto
    next
      case short: False
      have "write_all bs (sink ?h) = (Inl BrokenPipe, (sink h)\<lparr>outb := outb (sink h) @ take (wleft (sink h)) bs, wleft := 0\<rparr>)"
        using short False "3.prems"(1) sink by (simp add: write_all_def)
      with "3.prems" False sink have "h' = ?h\<lparr>sink := (sink h)\<lparr>outb := outb (sink h) @ take (wleft (sink h)) bs, wleft := 0\<rparr>\<rparr>"
        "out = Some (Errored BrokenPipe)" by (simp_all add: Let_def)
      with False sink show ?thesis by (auto simp: take_is_prefix intro: prefix_order.trans [OF take_is_prefix])
    qed
  qed (use 3 in auto)
qed auto

lemma conclude_sink:
  assumes "conclude on_eof on_abort out h = (n, h')"
    and "outb (sink (on_eof h)) = outb (sink h)" "outb (sink (on_abort h)) = outb (sink h)"
  shows "outb (sink h') = outb (sink h) \<and> is_finished h'"
  using assms by (auto simp: conclude_def split: copy_outcome.splits)

lemma close_sink [simp]:
  "outb (sink (send_shutdown h)) = outb (sink h)" "outb (sink (send_reset h)) = outb (sink h)"
  by (simp_all add: send_shutdown_def send_reset_def shutdown_def)

lemma poll_half_ok:
  assumes "half_ok rs h" "poll_half send_shutdown on_abort r h = (n, h')" "on_abort \<in> {send_reset, send_shutdown}"
  shows "half_ok (rs @ r) h'"
proof -
  have mono: "prefix a (yielded rs) \<Longrightarrow> prefix a (yielded (rs @ r))" for a
    using yielded_mono prefix_order.trans by blast
  have ab: "outb (sink (on_abort g)) = outb (sink g)" for g using assms(3) by auto
  show ?thesis
  proof (cases "is_finished h")
    case True
    with assms mono show ?thesis by (auto simp: half_ok_def poll_half_def split: half_status.splits)
  next
    case run: False
    with assms(1) have h: "outb (sink h) = yielded rs" "faultless rs" "\<not> ended rs" "\<not> fin (sink h)"
      by (auto simp: half_ok_def)
    show ?thesis
    proof (cases "wake h")
      case True
      with run assms(2) have "conclude send_shutdown on_abort Aborted h = (n, h')"
        by (auto simp: poll_half_def split: half_status.splits)
      from conclude_sink [OF this] ab h mono show ?thesis by (simp add: half_ok_def)
    next
      case False
      obtain out h1 where c: "copy_buf r h = (out, h1)" by fastforce
      from copy_buf_ok [OF h(4) c] obtain ws where ws: "outb (sink h1) = yielded rs @ ws" "prefix ws (yielded r)"
        "out = None \<Longrightarrow> ws = yielded r \<and> faultless r \<and> \<not> ended r \<and> \<not> fin (sink h1)" using h(1) by auto
      have res: "(n, h') = (case out of None \<Rightarrow> (False, h1\<lparr>status := Waiting\<rparr>)
          | Some out \<Rightarrow> conclude send_shutdown on_abort out h1)"
        using run False assms(2) c by (auto simp: poll_half_def split: half_status.splits option.splits)
      show ?thesis
      proof (cases out)
        case None
        with res ws h show ?thesis by (auto simp: half_ok_def yielded_append ended_append)
      next
        case (Some o')
        with res have "conclude send_shutdown on_abort o' h1 = (n, h')" by simp
        from conclude_sink [OF this] ab ws h show ?thesis by (simp add: half_ok_def yielded_append)
      qed
    qed
  qed
qed

lemma half_ok_notify [simp]: "half_ok rs (notify h) = half_ok rs h"
  by (simp add: half_ok_def notify_def)

lemma tunnel_half_ok:
  "half_ok (tx_ready evs) (tx (tunnel_tcp_stream cs rq rt evs)) \<and>
   half_ok (rx_ready evs) (rx (tunnel_tcp_stream cs rq rt evs))"
proof (induction evs rule: rev_induct)
  case Nil
  then show ?case by (simp add: tunnel_tcp_stream_def half_new_def half_ok_def)
next
  case (snoc ev evs)
  then show ?case
    by (cases ev)
      (auto simp: tunnel_tcp_stream_def tunnel_tcp_poll_def duplex_poll_def ready_append
        split: prod.splits intro: poll_half_ok)
qed

text \<open>Whatever fails and whoever aborts, a TCP tunnel never invents, reorders or skips bytes: each sink
  holds a prefix of what its source yielded.\<close>

theorem tcp_stream_prefix:
  "let d = tunnel_tcp_stream cs room_quic room_tcp evs in
   prefix (outb (sink (tx d))) (yielded (tx_ready evs)) \<and> prefix (outb (sink (rx d))) (yielded (rx_ready evs))"
  using tunnel_half_ok by (simp add: half_ok_def Let_def)



lemma idle_half:
  "status h = Waiting \<Longrightarrow> \<not> wake h \<Longrightarrow> poll_half on_eof on_abort [] h = (False, h)"
  "status h = Finished res \<Longrightarrow> poll_half on_eof on_abort r h = (False, h)"
  by (simp_all add: poll_half_def)

text \<open>The notification is lost when the sending half fails in its very first poll, which is before the
  receiving half exists as a waiter: from then on, however often the tunnel is polled, it stays open until
  the peer sends, ends or fails the stream.\<close>

theorem tcp_first_poll_error_lost:
  assumes "set later \<subseteq> {PollTx [], PollRx []}"
  shows "\<not> joined (tunnel_tcp_stream cs room_quic room_tcp (PollTx [Inl e] # PollRx [] # later))"
proof -
  let ?d = "tunnel_tcp_stream cs room_quic room_tcp [PollTx [Inl e], PollRx []]"
  have "status (rx ?d) = Waiting \<and> \<not> wake (rx ?d) \<and> status (tx ?d) = Finished (Inl e)"
    by (simp add: tunnel_tcp_stream_def tunnel_tcp_poll_def duplex_poll_def poll_half_def conclude_def notify_def
        half_new_def send_reset_def)
  moreover have "status (rx d) = Waiting \<and> \<not> wake (rx d) \<and> status (tx d) = Finished (Inl e) \<Longrightarrow>
      fold tunnel_tcp_poll later d = d" for d
    using assms
    by (induction later) (auto simp: tunnel_tcp_poll_def duplex_poll_def idle_half)
  ultimately have "fold tunnel_tcp_poll later ?d = ?d" "\<not> joined ?d" by (auto simp: joined_def)
  then show ?thesis by (simp add: tunnel_tcp_stream_def)
qed

theorem tcp_first_poll_error_lost_witness:
  "\<not> joined (tunnel_tcp_stream None 10 10 [PollTx [Inl BrokenPipe], PollRx [], PollTx [], PollRx []])"
  by (rule tcp_first_poll_error_lost) simp

end
