(* ===== verification/Session.thy ===== *)
theory Session
  imports Tcp Registry_Inv
begin

text \<open>
  The server (\<^verbatim>\<open>src/src/server/mod.rs\<close>): the session hello and its policy, the dispatch of a conn a
  client opens, the life of one client connection, and the accept loop over all of them.

  \<^verbatim>\<open>handle_client_connection\<close> is a state machine: one event is one thing its \<^verbatim>\<open>select!\<close> or one of its
  tasks waits for. Tasks in the session's \<^verbatim>\<open>JoinSet\<close> (forward conns and reverse listeners) end with the session;
  the conns a reverse listener accepts run in detached tasks and end on their own. A task is represented by
  the guard it holds. The texts of errors that come from the QUIC or the serialisation library are
  a parameter.
\<close>

section \<open>Session hello\<close>

fun validate_remotes :: "remote_request list \<Rightarrow> bool \<Rightarrow> bool \<Rightarrow> string + unit" where
  "validate_remotes [] allow_reverse allow_socks = Inr ()"
| "validate_remotes (r # rs) allow_reverse allow_socks =
     (if is_reversed r \<and> \<not> allow_reverse
      then Inl (''Reverse remotes are not allowed ('' @ show_remote r @ '')'')
      else if is_socks r \<and> \<not> allow_socks
      then Inl (''SOCKS5 remotes are not allowed ('' @ show_remote r @ '')'')
      else validate_remotes rs allow_reverse allow_socks)"

datatype hello_error =
  HelloStream string
| HelloControl control_error
| HelloPolicy string

definition perform_session_hello ::
  "codecs \<Rightarrow> nat \<Rightarrow> bool \<Rightarrow> bool \<Rightarrow> nat \<Rightarrow> string + conn \<Rightarrow> server_state \<Rightarrow>
   (hello_error + nat list) \<times> server_state \<times> conn option" where
  "perform_session_hello cs cref allow_reverse allow_socks now accepted st =
     (case accepted of
        Inl e \<Rightarrow> (Inl (HelloStream e), st, None)
      | Inr c \<Rightarrow>
         (case server_receive_session_hello cs c of
            (Inl e, c1) \<Rightarrow> (Inl (HelloControl e), st, Some c1)
          | (Inr hello, c1) \<Rightarrow>
             (case validate_remotes (remotes hello) allow_reverse allow_socks of
                Inl reason \<Rightarrow>
                  (Inl (HelloPolicy reason), st,
                   Some (snd (server_reply_session_hello cs (HelloFailed reason) c1)))
              | Inr _ \<Rightarrow>
                  let (ts, st1) = register_tunnels cref (remotes hello) now st;
                      tunnel_ids = map (\<lambda>t. tn_id (tunnel_heap st1 ! t)) ts in
                  (case server_reply_session_hello cs (HelloOk tunnel_ids) c1 of
                     (Inl e, c2) \<Rightarrow> (Inl (HelloControl e), st1, Some c2)
                   | (Inr _, c2) \<Rightarrow> (Inr ts, st1, Some c2)))))"

section \<open>Opening a conn\<close>

datatype forward_dispatch = DispatchTcp remote_request | DispatchUdp remote_request

fun dispatch_request :: "forward_dispatch \<Rightarrow> remote_request" where
  "dispatch_request (DispatchTcp r) = r"
| "dispatch_request (DispatchUdp r) = r"

definition peer_label :: "forward_dispatch \<Rightarrow> string option" where
  "peer_label d = remote_addr_string (dispatch_request d)"

definition resolve_dispatch :: "tunnel_entry \<Rightarrow> dynamic_target option \<Rightarrow> string + forward_dispatch" where
  "resolve_dispatch t dyn =
     (if tn_direction t \<noteq> Forward
      then Inl (''OpenConn on reverse tunnel '' @ show_word (tn_id t) @
        '' (server pushes reverse conns, not the client)'')
      else
        case (tn_kind t, dyn) of
          (remote_kind.Tcp l r, None) \<Rightarrow> Inr (DispatchTcp (remote_request_new Forward (remote_kind.Tcp l r)))
        | (remote_kind.Udp l r, None) \<Rightarrow> Inr (DispatchUdp (remote_request_new Forward (remote_kind.Udp l r)))
        | (Socks5 l, Some (DynTcp target)) \<Rightarrow>
            Inr (DispatchTcp (remote_request_new Forward (remote_kind.Tcp l target)))
        | (Socks5 l, Some (DynUdp target)) \<Rightarrow>
            Inr (DispatchUdp (remote_request_new Forward (remote_kind.Udp l target)))
        | (Socks5 l, None) \<Rightarrow>
            Inl (''OpenConn on SOCKS5 tunnel '' @ show_word (tn_id t) @ '' requires a `dynamic` target'')
        | (_, Some _) \<Rightarrow>
            Inl (''OpenConn on tunnel '' @ show_word (tn_id t) @ '' carried unexpected dynamic target''))"

datatype open_error =
  OpenControl control_error
| UnknownTunnel u64
| DispatchError string

text \<open>\<^verbatim>\<open>handle_open_conn\<close> up to the hand-off to the data plane: the guard and what it will run.\<close>

definition handle_open_conn ::
  "codecs \<Rightarrow> nat \<Rightarrow> conn \<Rightarrow> server_state \<Rightarrow>
   (open_error + forward_dispatch \<times> nat \<times> nat) \<times> server_state \<times> conn" where
  "handle_open_conn cs now c st =
     (case receive_open_conn cs c of
        (Inl e, c1) \<Rightarrow> (Inl (OpenControl e), st, c1)
      | (Inr op, c1) \<Rightarrow>
         (case dm_get (tunnels st) (tunnel_id op) of
            None \<Rightarrow>
              (Inl (UnknownTunnel (tunnel_id op)), st,
               snd (reply_open_conn cs (OpenFailed (''unknown tunnel id '' @ show_word (tunnel_id op))) c1))
          | Some tref \<Rightarrow>
             (case resolve_dispatch (tunnel_heap st ! tref) (dynamic op) of
                Inl e \<Rightarrow> (Inl (DispatchError e), st, snd (reply_open_conn cs (OpenFailed e) c1))
              | Inr d \<Rightarrow>
                 (case reply_open_conn cs OpenOk c1 of
                    (Inl e, c2) \<Rightarrow> (Inl (OpenControl e), st, c2)
                  | (Inr _, c2) \<Rightarrow>
                      (case register_conn tref (peer_label d) now st of
                         (guard, st1) \<Rightarrow> (Inr (d, guard), st1, c2))))))"

section \<open>One client connection\<close>

text \<open>How a connection ends.\<close>

datatype connection_error =
  ApplicationClosed nat bytes
| ConnectionClosed string
| LocallyClosed
| TimedOut
| ConnReset
| OtherError string

fun session_outcome :: "connection_error \<Rightarrow> string + string" where
  "session_outcome (ApplicationClosed code reason) =
     Inr (''client closed (code '' @ show_nat code @ '', '' @ from_utf8_lossy reason @ '')'')"
| "session_outcome (ConnectionClosed close) = Inr (''transport closed ('' @ close @ '')'')"
| "session_outcome LocallyClosed = Inr ''locally closed''"
| "session_outcome TimedOut = Inr ''idle timeout (peer went away)''"
| "session_outcome ConnReset = Inr ''connection reset by peer''"
| "session_outcome (OtherError e) = Inl e"

definition session_reason :: "connection_error \<Rightarrow> string" where
  "session_reason e = (case session_outcome e of Inr r \<Rightarrow> r | Inl t \<Rightarrow> ''error: '' @ t)"

datatype session_phase = Connecting | AwaitingHello | Serving | Over

record session =
  sess_id :: u64
  sess_peer :: socket_addr
  sess_phase :: session_phase
  sess_client :: nat
  tasks :: "(nat \<times> nat) list"
  handlers :: "nat list"
  detached :: "(nat \<times> nat) list"

datatype session_event =
  Connected
| ConnectFailed
| HelloStreamed "string + conn"
| Streamed conn
| TaskTraffic nat u64 u64
| TaskDone nat
| ReverseAccepted nat "string option"
| DetachedTraffic nat u64 u64
| DetachedDone nat
| Lost connection_error

record server_policy =
  codecs_of :: codecs
  show_hello_error :: "hello_error \<Rightarrow> string"
  allow_reverse :: bool
  allow_socks :: bool

definition session_connected :: "nat \<Rightarrow> server_state \<Rightarrow> session \<Rightarrow> server_state \<times> session" where
  "session_connected now st s =
     (case register_client (sess_id s) (sess_peer s) now st of
        (cref, st1) \<Rightarrow> (st1, s\<lparr>sess_phase := AwaitingHello, sess_client := cref\<rparr>))"

definition session_hello_step ::
  "server_policy \<Rightarrow> nat \<Rightarrow> string + conn \<Rightarrow> server_state \<Rightarrow> session \<Rightarrow> server_state \<times> session" where
  "session_hello_step pol now accepted st s =
     (case perform_session_hello (codecs_of pol) (sess_client s) (allow_reverse pol) (allow_socks pol) now accepted st of
        (Inl e, st1, _) \<Rightarrow>
          (deregister_client (sess_id s) (''hello rejected: '' @ show_hello_error pol e) now st1,
           s\<lparr>sess_phase := Over\<rparr>)
      | (Inr ts, st1, _) \<Rightarrow>
          (st1, s\<lparr>sess_phase := Serving,
             handlers := filter (\<lambda>t. tn_direction (tunnel_heap st1 ! t) = Reverse) ts\<rparr>))"

definition session_lost :: "nat \<Rightarrow> connection_error \<Rightarrow> server_state \<Rightarrow> session \<Rightarrow> server_state \<times> session" where
  "session_lost now e st s =
     (deregister_client (sess_id s) (session_reason e) now (fold close_conn (tasks s) st),
      s\<lparr>sess_phase := Over, tasks := [], handlers := []\<rparr>)"

definition drop_nth :: "nat \<Rightarrow> 'a list \<Rightarrow> 'a list" where
  "drop_nth k xs = take k xs @ drop (Suc k) xs"

text \<open>An event that does not fit the session's phase, or names a task that is not there, does nothing.\<close>

definition session_step ::
  "server_policy \<Rightarrow> nat \<Rightarrow> session_event \<Rightarrow> server_state \<Rightarrow> session \<Rightarrow> server_state \<times> session" where
  "session_step pol now ev st s =
     (case ev of
        Connected \<Rightarrow> if sess_phase s = Connecting then session_connected now st s else (st, s)
      | ConnectFailed \<Rightarrow> if sess_phase s = Connecting then (st, s\<lparr>sess_phase := Over\<rparr>) else (st, s)
      | HelloStreamed accepted \<Rightarrow>
          if sess_phase s = AwaitingHello then session_hello_step pol now accepted st s else (st, s)
      | Streamed c \<Rightarrow>
          if sess_phase s = Serving then
            (case handle_open_conn (codecs_of pol) now c st of
               (Inl _, st1, _) \<Rightarrow> (st1, s)
             | (Inr (_, guard), st1, _) \<Rightarrow> (st1, s\<lparr>tasks := tasks s @ [guard]\<rparr>))
          else (st, s)
      | TaskTraffic k n m \<Rightarrow> if k < length (tasks s) then (bump (snd (tasks s ! k)) n m st, s) else (st, s)
      | TaskDone k \<Rightarrow>
          if k < length (tasks s) then (close_conn (tasks s ! k) st, s\<lparr>tasks := drop_nth k (tasks s)\<rparr>) else (st, s)
      | ReverseAccepted k peer \<Rightarrow>
          if k < length (handlers s) then
            (case register_conn (handlers s ! k) peer now st of
               (guard, st1) \<Rightarrow> (st1, s\<lparr>detached := detached s @ [guard]\<rparr>))
          else (st, s)
      | DetachedTraffic k n m \<Rightarrow>
          if k < length (detached s) then (bump (snd (detached s ! k)) n m st, s) else (st, s)
      | DetachedDone k \<Rightarrow>
          if k < length (detached s)
          then (close_conn (detached s ! k) st, s\<lparr>detached := drop_nth k (detached s)\<rparr>) else (st, s)
      | Lost e \<Rightarrow> if sess_phase s = Serving then session_lost now e st s else (st, s))"

section \<open>The accept loop\<close>

text \<open>\<^verbatim>\<open>run_async\<close>: the sessions in the order their connections came in, and the free permits under
  \<^verbatim>\<open>--max-connections\<close>. A refused connection uses up a client id; it is listed as a session that is over.\<close>

record server =
  reg :: server_state
  permits :: "nat option"
  sessions :: "session list"

datatype server_event = Incoming socket_addr | InSession nat session_event

definition server_new :: "nat \<Rightarrow> socket_addr \<Rightarrow> nat option \<Rightarrow> server" where
  "server_new now addr max_connections =
     \<lparr> reg = server_state_new now addr, permits = max_connections, sessions = [] \<rparr>"

definition session_new :: "u64 \<Rightarrow> socket_addr \<Rightarrow> session_phase \<Rightarrow> session" where
  "session_new i peer ph =
     \<lparr> sess_id = i, sess_peer = peer, sess_phase = ph, sess_client = 0, tasks = [], handlers = [], detached = [] \<rparr>"

definition accept_connection :: "socket_addr \<Rightarrow> server \<Rightarrow> server" where
  "accept_connection peer srv =
     (let client_id = word_of_nat (Suc (length (sessions srv))) in
      if permits srv = Some 0
      then srv\<lparr>sessions := sessions srv @ [session_new client_id peer Over]\<rparr>
      else srv\<lparr>permits := map_option (\<lambda>n. n - 1) (permits srv),
             sessions := sessions srv @ [session_new client_id peer Connecting]\<rparr>)"

definition server_step :: "server_policy \<Rightarrow> nat \<times> server_event \<Rightarrow> server \<Rightarrow> server" where
  "server_step pol = (\<lambda>(now, ev) srv.
     case ev of
       Incoming peer \<Rightarrow> accept_connection peer srv
     | InSession k sev \<Rightarrow>
         if k < length (sessions srv) then
           let s = sessions srv ! k; (st1, s1) = session_step pol now sev (reg srv) s in
           srv\<lparr>reg := st1,
             permits := if sess_phase s \<noteq> Over \<and> sess_phase s1 = Over then map_option Suc (permits srv) else permits srv,
             sessions := (sessions srv)[k := s1]\<rparr>
         else srv)"

definition server_run :: "server_policy \<Rightarrow> (nat \<times> server_event) list \<Rightarrow> server \<Rightarrow> server" where
  "server_run pol evs srv = fold (server_step pol) evs srv"

end
