(* ===== verification/Session_Inv.thy ===== *)
theory Session_Inv
  imports Session
begin

text \<open>
  What the server guarantees over every interleaving of client sessions: consistent tables, the
  reverse and SOCKS policy, the cap on connections, and that a session takes its entries with it.
  Each step is shown to keep the invariant of its own session and to leave alone what the other sessions
  rely on. The hello and the opening of a conn are then treated end to end.
\<close>

section \<open>What one step leaves alone\<close>

definition reach :: "server_state \<Rightarrow> bool" where
  "reach st \<longleftrightarrow> (\<exists>log. registry_reachable st log)"

lemma reach_step: "reach st \<Longrightarrow> registry_step st l st' \<Longrightarrow> reach st'"
  unfolding reach_def using step by blast

lemma reach_wf: "reach st \<Longrightarrow> wf_state st"
  unfolding reach_def by (blast intro: reachable_wf)

lemma reach_ops:
  "reach (server_state_new now addr)"
  "reach st \<Longrightarrow> i \<notin> cl_id ` set (client_heap st) \<Longrightarrow> reach (snd (register_client i addr now st))"
  "reach st \<Longrightarrow> t < length (tunnel_heap st) \<Longrightarrow> Suc (length (conn_heap st)) < 2 ^ 64 \<Longrightarrow>
    reach (snd (register_conn t peer now st))"
  "reach st \<Longrightarrow> guard_live g st \<Longrightarrow> reach (bump (snd g) n m st)"
  "reach st \<Longrightarrow> guard_live g st \<Longrightarrow> reach (close_conn g st)"
  "reach st \<Longrightarrow> reach (deregister_client i reason now st)"
proof -
  show "reach (server_state_new now addr)" unfolding reach_def using start by blast
  show "reach st \<Longrightarrow> i \<notin> cl_id ` set (client_heap st) \<Longrightarrow> reach (snd (register_client i addr now st))"
    using client_in reach_step by blast
  show "reach st \<Longrightarrow> t < length (tunnel_heap st) \<Longrightarrow> Suc (length (conn_heap st)) < 2 ^ 64 \<Longrightarrow>
    reach (snd (register_conn t peer now st))" using conn_in reach_step by blast
  show "reach st \<Longrightarrow> guard_live g st \<Longrightarrow> reach (bump (snd g) n m st)"
    "reach st \<Longrightarrow> guard_live g st \<Longrightarrow> reach (close_conn g st)"
    using traffic [of "fst g" "snd g"] conn_out [of "fst g" "snd g"] reach_step by fastforce+
  show "reach st \<Longrightarrow> reach (deregister_client i reason now st)" using client_out reach_step by blast
qed

lemma snd_register_tunnels:
  "snd (register_tunnels cref (req # reqs) now st) =
   snd (register_tunnels cref reqs now (snd (register_tunnel cref req now st)))"
  by (simp split: prod.split)

lemma reach_tunnels:
  "reach st \<Longrightarrow> cref < length (client_heap st) \<Longrightarrow> registered st cref \<Longrightarrow>
   length (tunnel_heap st) + length reqs < 2 ^ 64 \<Longrightarrow> reach (snd (register_tunnels cref reqs now st))"
proof (induction reqs arbitrary: st)
  case (Cons req reqs)
  note eff = register_tunnel_effect [OF Cons.prems(2), of req now]
  let ?st = "snd (register_tunnel cref req now st)"
  have "reach ?st"
    using Cons.prems by (intro reach_step [OF Cons.prems(1) tunnel_in]) auto
  moreover have "registered ?st cref" "length (tunnel_heap ?st) + length reqs < 2 ^ 64"
    "cref < length (client_heap ?st)"
    using Cons.prems eff by (simp_all add: registered_def)
  ultimately have "reach (snd (register_tunnels cref reqs now ?st))" by (intro Cons.IH)
  then show ?case by (simp only: snd_register_tunnels)
qed simp

text \<open>The client \<^term>\<open>i\<close> may come or go and tables may grow; other clients, the declarations of tunnels
  and the guards in \<^term>\<open>G\<close> stay.\<close>

definition frame :: "u64 \<Rightarrow> (nat \<times> nat) set \<Rightarrow> server_state \<Rightarrow> server_state \<Rightarrow> bool" where
  "frame i G st st' \<longleftrightarrow>
     (\<forall>g\<in>G. guard_live g st \<longrightarrow> guard_live g st') \<and>
     length (tunnel_heap st) \<le> length (tunnel_heap st') \<and> length (conn_heap st) \<le> length (conn_heap st') \<and>
     length (client_heap st) \<le> length (client_heap st') \<and>
     (\<forall>c<length (client_heap st). cl_id (client_heap st' ! c) = cl_id (client_heap st ! c)) \<and>
     cl_id ` set (client_heap st') \<subseteq> insert i (cl_id ` set (client_heap st)) \<and>
     (\<forall>j. j \<noteq> i \<longrightarrow> dm_get (clients st') j = dm_get (clients st) j)"

lemma frame_refl [simp]: "frame i G st st"
  by (auto simp: frame_def)

lemma frame_trans:
  assumes "frame i G st st'" "frame i G st' st''"
  shows "frame i G st st''"
proof -
  from assms have "cl_id ` set (client_heap st') \<subseteq> insert i (cl_id ` set (client_heap st))"
    "cl_id ` set (client_heap st'') \<subseteq> insert i (cl_id ` set (client_heap st'))" by (simp_all add: frame_def)
  then have "cl_id ` set (client_heap st'') \<subseteq> insert i (cl_id ` set (client_heap st))" by blast
  with assms show ?thesis unfolding frame_def by (simp add: less_le_trans)
qed

lemma frame_register_client: "frame i G st (snd (register_client i addr now st))"
  by (auto simp: frame_def register_client_def Let_def guard_live_def nth_append)

lemma frame_register_tunnel:
  assumes "cref < length (client_heap st)"
  shows "frame i G st (snd (register_tunnel cref req now st))"
proof -
  have ids: "map cl_id (client_heap (snd (register_tunnel cref req now st))) = map cl_id (client_heap st)"
    using assms by (auto simp: register_tunnel_def Let_def map_update list_update_id intro: nth_equalityI)
       (metis list_update_id map_update nth_map)
  have len: "length (client_heap (snd (register_tunnel cref req now st))) = length (client_heap st)"
    using arg_cong [OF ids, of length] by simp
  have "cl_id (client_heap (snd (register_tunnel cref req now st)) ! c) = cl_id (client_heap st ! c)"
    if "c < length (client_heap st)" for c
    using that arg_cong [OF ids, of "\<lambda>xs. xs ! c"] len by simp
  moreover have "cl_id ` set (client_heap (snd (register_tunnel cref req now st))) = cl_id ` set (client_heap st)"
    using arg_cong [OF ids, of set] by simp
  ultimately show ?thesis
    using len unfolding frame_def
    by (auto simp: register_tunnel_def Let_def guard_live_def nth_append)
qed

lemma frame_register_tunnels:
  assumes "cref < length (client_heap st)"
  shows "frame i G st (snd (register_tunnels cref reqs now st))"
  using assms
proof (induction reqs arbitrary: st)
  case (Cons req reqs)
  have "cref < length (client_heap (snd (register_tunnel cref req now st)))"
    using Cons.prems by (simp add: register_tunnel_effect)
  from frame_trans [OF frame_register_tunnel [OF Cons.prems] Cons.IH [OF this]] show ?case
    by (simp only: snd_register_tunnels)
qed simp

lemma guard_register_conn:
  assumes "wf_state st" "t < length (tunnel_heap st)" "Suc (length (conn_heap st)) < 2 ^ 64"
  shows "guard_live g st \<Longrightarrow> guard_live g (snd (register_conn t peer now st))"
    and "fst (register_conn t peer now st) = (t, length (conn_heap st))"
    and "guard_live (t, length (conn_heap st)) (snd (register_conn t peer now st))"
proof -
  have ids: "ids_ok st" using assms(1) by (simp add: wf_state_def)
  show "guard_live g st \<Longrightarrow> guard_live g (snd (register_conn t peer now st))"
    using fresh_conn_id [OF ids assms(3), of "snd g"] assms(2)
    by (auto simp: guard_live_def register_conn_def Let_def nth_append nth_list_update)
  show "fst (register_conn t peer now st) = (t, length (conn_heap st))"
    "guard_live (t, length (conn_heap st)) (snd (register_conn t peer now st))"
    using assms(2) by (simp_all add: guard_live_def register_conn_def Let_def)
qed

lemma frame_register_conn:
  assumes "wf_state st" "t < length (tunnel_heap st)" "Suc (length (conn_heap st)) < 2 ^ 64"
  shows "frame i G st (snd (register_conn t peer now st))"
  using guard_register_conn(1) [OF assms]
  by (auto simp: frame_def) (auto simp: register_conn_def Let_def)

lemma frame_bump: "frame i G st (bump c n m st)"
proof -
  have "guard_live g (bump c n m st)" if "guard_live g st" for g
    using that by (cases "snd g = c") (auto simp: guard_live_def bump_def)
  then show ?thesis by (auto simp: frame_def bump_def)
qed

lemma guard_close_conn:
  assumes "wf_state st" "guard_live h st" "guard_live g st" "g \<noteq> h"
  shows "guard_live g (close_conn h st)"
proof -
  have ids: "ids_ok st" using assms(1) by (simp add: wf_state_def)
  have "cn_id (conn_heap st ! snd g) \<noteq> cn_id (conn_heap st ! snd h)" if "fst g = fst h"
    using cn_id_inj [OF ids, of "snd g" "snd h"] assms(2-4) that by (auto simp: guard_live_def prod_eq_iff)
  with assms(2-4) show ?thesis
    by (auto simp: guard_live_def close_conn_def snapshot_def Let_def nth_list_update split: prod.splits)
qed

lemma frame_close_conn:
  assumes "wf_state st" "guard_live h st" "h \<notin> G"
  shows "frame i G st (close_conn h st)"
  using guard_close_conn [OF assms(1,2)] assms(3)
  by (auto simp: frame_def) (auto simp: close_conn_def snapshot_def Let_def split: prod.splits)

lemma frame_deregister:
  assumes "wf_state st"
  shows "frame i G st (deregister_client i reason now st)"
proof (cases "dm_get (clients st) i")
  case (Some c)
  show ?thesis
    unfolding frame_def guard_live_def deregister_maps [OF assms Some] by auto
qed (simp add: deregister_unknown)

section \<open>Invariant of a session\<close>

definition policy_ok :: "server_policy \<Rightarrow> server_state \<Rightarrow> bool" where
  "policy_ok pol st \<longleftrightarrow> (\<forall>e\<in>set (tunnel_heap st).
     (tn_direction e = Reverse \<longrightarrow> allow_reverse pol) \<and> (\<forall>l. tn_kind e = Socks5 l \<longrightarrow> allow_socks pol))"

definition guards :: "session \<Rightarrow> (nat \<times> nat) list" where
  "guards s = tasks s @ detached s"

definition session_ok :: "server_state \<Rightarrow> session \<Rightarrow> bool" where
  "session_ok st s \<longleftrightarrow>
     (sess_phase s = Connecting \<longrightarrow> sess_id s \<notin> cl_id ` set (client_heap st)) \<and>
     (sess_phase s \<in> {AwaitingHello, Serving} \<longrightarrow>
        sess_client s < length (client_heap st) \<and> cl_id (client_heap st ! sess_client s) = sess_id s \<and>
        dm_get (clients st) (sess_id s) = Some (sess_client s)) \<and>
     (sess_phase s \<in> {Connecting, Over} \<longrightarrow> dm_get (clients st) (sess_id s) = None) \<and>
     (sess_phase s \<noteq> Serving \<longrightarrow> tasks s = [] \<and> handlers s = []) \<and>
     (\<forall>g\<in>set (guards s). guard_live g st) \<and> distinct (guards s) \<and>
     (\<forall>t\<in>set (handlers s). t < length (tunnel_heap st))"

lemma session_ok_frame:
  assumes "session_ok st s" "frame i (set (guards s)) st st'" "sess_id s \<noteq> i"
  shows "session_ok st' s"
  using assms unfolding session_ok_def frame_def by (auto dest: less_le_trans)

lemma policy_frame:
  assumes "policy_ok pol st" "length (tunnel_heap st') = length (tunnel_heap st)"
    "\<And>t. t < length (tunnel_heap st) \<Longrightarrow> tn_direction (tunnel_heap st' ! t) = tn_direction (tunnel_heap st ! t) \<and>
       tn_kind (tunnel_heap st' ! t) = tn_kind (tunnel_heap st ! t)"
  shows "policy_ok pol st'"
  using assms unfolding policy_ok_def all_set_conv_all_nth by auto

lemma nth_list_update_any: "xs[i := x] ! j = (if i = j \<and> j < length xs then x else xs ! j)"
  by (cases "i < length xs") (auto simp: nth_list_update list_update_beyond)

lemma policy_ops:
  assumes "policy_ok pol st"
  shows "policy_ok pol (snd (register_client i addr now st))"
    and "policy_ok pol (snd (register_conn t peer now st))"
    and "policy_ok pol (bump c n m st)" and "policy_ok pol (close_conn g st)"
    and "wf_state st \<Longrightarrow> policy_ok pol (deregister_client i reason now st)"
proof -
  show "policy_ok pol (snd (register_client i addr now st))" "policy_ok pol (bump c n m st)"
    using assms by (simp_all add: policy_ok_def register_client_def bump_def Let_def)
  show "policy_ok pol (snd (register_conn t peer now st))"
    by (rule policy_frame [OF assms]) (auto simp: register_conn_def Let_def nth_list_update_any)
  show "policy_ok pol (close_conn g st)"
    by (rule policy_frame [OF assms])
      (auto simp: close_conn_def snapshot_def Let_def nth_list_update_any split: prod.splits)
  show "policy_ok pol (deregister_client i reason now st)" if "wf_state st"
    using assms that deregister_maps(5) [OF that, of i]
    by (cases "dm_get (clients st) i") (simp_all add: policy_ok_def deregister_unknown)
qed

lemma validate_remotes_ok:
  "validate_remotes rs ar as = Inr () \<longleftrightarrow> (\<forall>r\<in>set rs. (is_reversed r \<longrightarrow> ar) \<and> (is_socks r \<longrightarrow> as))"
  by (induction rs) auto

lemma policy_tunnels:
  assumes "policy_ok pol st" "validate_remotes reqs (allow_reverse pol) (allow_socks pol) = Inr ()"
    "cref < length (client_heap st)"
  shows "policy_ok pol (snd (register_tunnels cref reqs now st))"
  using assms
proof (induction reqs arbitrary: st)
  case (Cons req reqs)
  have *: "(is_reversed req \<longrightarrow> allow_reverse pol) \<and> (is_socks req \<longrightarrow> allow_socks pol)"
    "validate_remotes reqs (allow_reverse pol) (allow_socks pol) = Inr ()"
    using Cons.prems(2) unfolding validate_remotes_ok by simp_all
  then have "policy_ok pol (snd (register_tunnel cref req now st))"
    using Cons.prems(1,3)
    by (auto simp: policy_ok_def register_tunnel_effect declared_def is_reversed_def is_socks_def)
  with Cons.prems(3) * show ?case
    unfolding snd_register_tunnels by (intro Cons.IH) (simp_all add: register_tunnel_effect)
qed simp

text \<open>One step of a session: its own invariant, the state's, and the frame for the other sessions.\<close>

definition step_ok ::
  "server_policy \<Rightarrow> server_state \<Rightarrow> session \<Rightarrow> server_state \<Rightarrow> session \<Rightarrow> bool" where
  "step_ok pol st s st' s' \<longleftrightarrow>
     reach st' \<and> policy_ok pol st' \<and> session_ok st' s' \<and> sess_id s' = sess_id s \<and>
     (\<forall>G. G \<inter> set (guards s) = {} \<longrightarrow> frame (sess_id s) G st st') \<and>
     (\<forall>g\<in>set (guards s'). g \<in> set (guards s) \<or> length (conn_heap st) \<le> snd g) \<and>
     (sess_phase s = Over \<longrightarrow> sess_phase s' = Over)"

lemma step_ok_refl: "reach st \<Longrightarrow> policy_ok pol st \<Longrightarrow> session_ok st s \<Longrightarrow> step_ok pol st s st s"
  by (simp add: step_ok_def)

lemma step_connected:
  assumes "reach st" "policy_ok pol st" "session_ok st s" "sess_phase s = Connecting"
    and "session_connected now st s = (st', s')"
  shows "step_ok pol st s st' s'"
proof -
  have id: "sess_id s \<notin> cl_id ` set (client_heap st)" using assms by (simp add: session_ok_def)
  have st': "st' = snd (register_client (sess_id s) (sess_peer s) now st)"
    "s' = s\<lparr>sess_phase := AwaitingHello, sess_client := length (client_heap st)\<rparr>"
    using assms(5) by (auto simp: session_connected_def register_client_def Let_def)
  have "session_ok st' s'"
    using assms(3,4) unfolding st'
    by (auto simp: session_ok_def guards_def register_client_def Let_def guard_live_def)
  with reach_ops(2) [OF assms(1) id] policy_ops(1) [OF assms(2)] assms(4) frame_register_client show ?thesis
    unfolding step_ok_def st' by (simp add: guards_def)
qed

lemma step_over:
  assumes "reach st" "policy_ok pol st" "session_ok st s" "sess_phase s = Connecting"
  shows "step_ok pol st s st (s\<lparr>sess_phase := Over\<rparr>)"
  using assms by (auto simp: step_ok_def session_ok_def guards_def)

lemma perform_hello_cases:
  assumes "perform_session_hello cs cref ar as now accepted st = (res, st1, c)"
  obtains "st1 = st" "\<exists>e. res = Inl e"
    | reqs where "st1 = snd (register_tunnels cref reqs now st)" "validate_remotes reqs ar as = Inr ()"
      "\<And>ts. res = Inr ts \<Longrightarrow> ts = fst (register_tunnels cref reqs now st)"
  using assms unfolding perform_session_hello_def Let_def
  by (auto split: sum.splits prod.splits) (metis fst_conv snd_conv)+

lemma tunnels_room:
  assumes "cref < length (client_heap st)"
  shows "length (tunnel_heap (snd (register_tunnels cref reqs now st))) = length (tunnel_heap st) + length reqs"
  using assms
proof (induction reqs arbitrary: st)
  case (Cons req reqs)
  then show ?case by (simp only: snd_register_tunnels) (simp add: register_tunnel_effect)
qed simp

lemma close_conns_ok:
  assumes "reach st" "policy_ok pol st" "\<forall>g\<in>set gs. guard_live g st" "distinct gs" "G \<inter> set gs = {}"
  shows "reach (fold close_conn gs st) \<and> policy_ok pol (fold close_conn gs st) \<and> frame i G st (fold close_conn gs st)"
  using assms
proof (induction gs arbitrary: st)
  case (Cons g gs)
  note wf = reach_wf [OF Cons.prems(1)]
  from Cons.prems have g: "guard_live g st" "g \<notin> G" by auto
  have rest: "\<forall>h\<in>set gs. guard_live h (close_conn g st)"
    using Cons.prems(3,4) guard_close_conn [OF wf g(1)] by auto
  from Cons.IH [OF reach_ops(5) [OF Cons.prems(1) g(1)] policy_ops(4) [OF Cons.prems(2)] rest] Cons.prems(4,5)
    frame_trans [OF frame_close_conn [OF wf g]]
  show ?case by auto
qed simp

lemma session_registered:
  "session_ok st s \<Longrightarrow> sess_phase s \<in> {AwaitingHello, Serving} \<Longrightarrow>
   sess_client s < length (client_heap st) \<and> registered st (sess_client s)"
  by (auto simp: session_ok_def registered_def)

lemma frame_self:
  assumes "frame i (set (guards s)) st st'" "session_ok st s" "clients st' = clients st"
    "sess_phase s \<noteq> Connecting \<or> client_heap st' = client_heap st"
  shows "session_ok st' s"
proof -
  from assms(1) have "\<forall>t. t < length (tunnel_heap st) \<longrightarrow> t < length (tunnel_heap st')"
    "sess_client s < length (client_heap st) \<longrightarrow> sess_client s < length (client_heap st') \<and>
      cl_id (client_heap st' ! sess_client s) = cl_id (client_heap st ! sess_client s)"
    "\<forall>g\<in>set (guards s). guard_live g st \<longrightarrow> guard_live g st'" by (simp_all add: frame_def less_le_trans)
  with assms(2-4) show ?thesis unfolding session_ok_def by (elim disjE) simp_all
qed

lemma clients_register_tunnels:
  "cref < length (client_heap st) \<Longrightarrow> clients (snd (register_tunnels cref reqs now st)) = clients st"
proof (induction reqs arbitrary: st)
  case (Cons req reqs)
  then show ?case by (simp only: snd_register_tunnels) (simp add: register_tunnel_effect)
qed simp

lemma tunnels_refs:
  assumes "cref < length (client_heap st)" "t \<in> set (fst (register_tunnels cref reqs now st))"
  shows "t < length (tunnel_heap (snd (register_tunnels cref reqs now st)))"
  using assms
proof (induction reqs arbitrary: st)
  case (Cons req reqs)
  let ?st = "snd (register_tunnel cref req now st)"
  have c: "cref < length (client_heap ?st)" using Cons.prems(1) by (simp add: register_tunnel_effect)
  have "t = length (tunnel_heap st) \<or> t \<in> set (fst (register_tunnels cref reqs now ?st))"
    using Cons.prems register_tunnel_effect(1) [OF Cons.prems(1), of req now] by (auto split: prod.splits)
  with Cons.IH [OF c] tunnels_room [OF c, of reqs now] Cons.prems(1) show ?case
    by (auto simp only: snd_register_tunnels) (simp add: register_tunnel_effect)
qed simp

lemma deregister_over:
  assumes "reach st" "policy_ok pol st" "session_ok st s" "sess_phase s \<in> {AwaitingHello, Serving}" "tasks s = []"
  shows "reach (deregister_client (sess_id s) r now st) \<and> policy_ok pol (deregister_client (sess_id s) r now st) \<and>
    session_ok (deregister_client (sess_id s) r now st) (s\<lparr>sess_phase := Over, tasks := [], handlers := []\<rparr>)"
proof -
  note wf = reach_wf [OF assms(1)]
  have get: "dm_get (clients st) (sess_id s) = Some (sess_client s)" using assms(3,4) by (auto simp: session_ok_def)
  have "session_ok (deregister_client (sess_id s) r now st) (s\<lparr>sess_phase := Over, tasks := [], handlers := []\<rparr>)"
    using assms(3-5) unfolding session_ok_def guards_def guard_live_def
    by (simp add: deregister_maps [OF wf get])
  with reach_ops(6) [OF assms(1)] policy_ops(5) [OF assms(2) wf] show ?thesis by simp
qed

text \<open>The state in which a hello leaves the server, before a rejected client is taken out again.\<close>

lemma hello_registers:
  assumes "reach st" "policy_ok pol st" "session_ok st s" "sess_phase s = AwaitingHello"
    and hello: "perform_session_hello (codecs_of pol) (sess_client s) (allow_reverse pol) (allow_socks pol) now
      accepted st = (res, st1, c)" and "length (tunnel_heap st1) < 2 ^ 64"
  shows "reach st1 \<and> policy_ok pol st1 \<and> session_ok st1 s \<and> (\<forall>G. frame (sess_id s) G st st1) \<and>
    (\<forall>ts. res = Inr ts \<longrightarrow> (\<forall>t\<in>set ts. t < length (tunnel_heap st1)))"
  using hello
proof (cases rule: perform_hello_cases)
  case 1
  with assms(1-3) show ?thesis by auto
next
  case (2 reqs)
  from session_registered [OF assms(3)] assms(4)
  have cl: "sess_client s < length (client_heap st)" "registered st (sess_client s)" by simp_all
  have "reach st1" unfolding 2(1)
    using assms(1,6) cl 2(1) tunnels_room [OF cl(1), of reqs now] by (intro reach_tunnels) simp_all
  moreover have "policy_ok pol st1" unfolding 2(1) using policy_tunnels [OF assms(2) 2(2) cl(1)] .
  moreover have fr: "frame (sess_id s) G st st1" for G unfolding 2(1) using frame_register_tunnels [OF cl(1)] .
  moreover have "session_ok st1 s"
    using frame_self [OF fr assms(3)] assms(4) clients_register_tunnels [OF cl(1)] 2(1) by simp
  ultimately show ?thesis using tunnels_refs [OF cl(1)] 2(1,3) by auto
qed

lemma step_hello:
  assumes "reach st" "policy_ok pol st" "session_ok st s" "sess_phase s = AwaitingHello"
    and "session_hello_step pol now accepted st s = (st', s')" "length (tunnel_heap st') < 2 ^ 64"
  shows "step_ok pol st s st' s'"
proof -
  obtain res st1 c where hello: "perform_session_hello (codecs_of pol) (sess_client s) (allow_reverse pol)
      (allow_socks pol) now accepted st = (res, st1, c)" by (metis prod_cases3)
  have empty: "tasks s = []" "handlers s = []" using assms(3,4) by (simp_all add: session_ok_def)
  note mid = hello_registers [OF assms(1-4) hello]
  show ?thesis
  proof (cases res)
    case (Inl e)
    let ?r = "''hello rejected: '' @ show_hello_error pol e"
    have "s\<lparr>sess_phase := Over, tasks := [], handlers := []\<rparr> = s\<lparr>sess_phase := Over\<rparr>"
      using empty by (cases s) simp
    with Inl assms(5) hello have st': "st' = deregister_client (sess_id s) ?r now st1"
      "s' = s\<lparr>sess_phase := Over, tasks := [], handlers := []\<rparr>" by (simp_all add: session_hello_step_def)
    then have "length (tunnel_heap st') = length (tunnel_heap st1)"
      by (simp add: deregister_client_def Let_def split: option.split)
    with mid assms(6) have mid: "reach st1" "policy_ok pol st1" "session_ok st1 s" "\<And>G. frame (sess_id s) G st st1"
      by simp_all
    have "frame (sess_id s) G st st'" for G
      unfolding st' using frame_trans [OF mid(4) frame_deregister [OF reach_wf [OF mid(1)]]] .
    with deregister_over [OF mid(1-3)] assms(4) empty show ?thesis
      unfolding step_ok_def st' by (simp add: guards_def)
  next
    case (Inr ts)
    with assms(5) hello have st': "st' = st1" "s' = s\<lparr>sess_phase := Serving,
        handlers := filter (\<lambda>t. tn_direction (tunnel_heap st1 ! t) = Reverse) ts\<rparr>"
      by (auto simp: session_hello_step_def)
    note mid = mid [folded st'(1), OF assms(6)]
    have "session_ok st' s'" using mid Inr assms(4) empty unfolding st'(2) session_ok_def guards_def by auto
    with mid assms(4) show ?thesis unfolding step_ok_def by (simp add: st'(2) guards_def)
  qed
qed

lemma step_lost:
  assumes "reach st" "policy_ok pol st" "session_ok st s" "sess_phase s = Serving"
    and "session_lost now e st s = (st', s')"
  shows "step_ok pol st s st' s'"
proof -
  let ?st = "fold close_conn (tasks s) st" and ?s = "s\<lparr>tasks := []\<rparr>"
  have live: "\<forall>g\<in>set (tasks s). guard_live g st" "distinct (tasks s)" "set (detached s) \<inter> set (tasks s) = {}"
    using assms(3) by (auto simp: session_ok_def guards_def)
  note close = close_conns_ok [OF assms(1,2) live(1,2)]
  have cl: "clients (fold close_conn gs x) = clients x" for gs x
    by (induction gs arbitrary: x) (auto simp: close_conn_def snapshot_def Let_def split: prod.splits)
  have "session_ok ?st ?s"
  proof (rule frame_self)
    show "session_ok st ?s" using assms(3,4) by (auto simp: session_ok_def guards_def)
    show "frame (sess_id s) (set (guards ?s)) st ?st" using close live(3) by (simp add: guards_def)
  qed (simp_all add: cl assms(4))
  from deregister_over [OF _ _ this, of pol] close [of "{}"] assms(4)
  have over: "reach st' \<and> policy_ok pol st' \<and> session_ok st' s'"
    using assms(5) by (auto simp: session_lost_def)
  have "frame (sess_id s) G st st'" if "G \<inter> set (guards s) = {}" for G
    using assms(5) close [of G "sess_id s"] that frame_deregister [OF reach_wf] frame_trans
    unfolding session_lost_def guards_def by (auto simp: Int_Un_distrib)
  moreover have "s' = s\<lparr>sess_phase := Over, tasks := [], handlers := []\<rparr>" using assms(5) by (simp add: session_lost_def)
  ultimately show ?thesis using over assms(4) unfolding step_ok_def by (simp add: guards_def)
qed

lemma step_new_guard:
  assumes "reach st" "policy_ok pol st" "session_ok st s" "sess_phase s = Serving" "t < length (tunnel_heap st)"
    and "Suc (length (conn_heap st)) < 2 ^ 64" "register_conn t peer now st = (g, st')"
    and "s' = s\<lparr>tasks := tasks s @ [g]\<rparr> \<or> s' = s\<lparr>detached := detached s @ [g]\<rparr>"
  shows "step_ok pol st s st' s'"
proof -
  note wf = reach_wf [OF assms(1)]
  have st': "st' = snd (register_conn t peer now st)" "g = (t, length (conn_heap st))" 
    using assms(7) guard_register_conn(2) [OF wf assms(5,6), of peer now] by simp_all
  have fr: "frame (sess_id s) G st st'" for G unfolding st' using frame_register_conn [OF wf assms(5,6)] .
  have "session_ok st' s"
    using frame_self [OF fr assms(3)] assms(4) by (simp add: st' register_conn_def Let_def)
  moreover have "guard_live g st'" unfolding st' by (rule guard_register_conn(3) [OF wf assms(5,6)])
  moreover have "g \<notin> set (guards s)" using assms(3) unfolding st' by (auto simp: session_ok_def guard_live_def)
  ultimately have "session_ok st' s'" using assms(4,8) by (auto simp: session_ok_def guards_def)
  moreover have "\<forall>h\<in>set (guards s'). h \<in> set (guards s) \<or> length (conn_heap st) \<le> snd h"
    using assms(8) unfolding st' by (auto simp: guards_def)
  moreover have "reach st'" "policy_ok pol st'" unfolding st'
    using reach_ops(3) [OF assms(1,5,6)] policy_ops(2) [OF assms(2)] by simp_all
  ultimately show ?thesis using fr assms(4,8) by (auto simp: step_ok_def)
qed

lemma step_traffic:
  assumes "reach st" "policy_ok pol st" "session_ok st s" "g \<in> set (guards s)"
  shows "step_ok pol st s (bump (snd g) n m st) s"
proof -
  have "guard_live g st" using assms(3,4) by (simp add: session_ok_def)
  from reach_ops(4) [OF assms(1) this] policy_ops(3) [OF assms(2)]
  have "reach (bump (snd g) n m st)" "policy_ok pol (bump (snd g) n m st)" by simp_all
  moreover have "session_ok (bump (snd g) n m st) s"
    by (rule frame_self [OF frame_bump assms(3)]) (simp_all add: bump_def)
  ultimately show ?thesis by (simp add: step_ok_def frame_bump)
qed

lemma step_close:
  assumes "reach st" "policy_ok pol st" "session_ok st s" "g \<in> set (guards s)"
    and "sess_phase s' = sess_phase s" "sess_id s' = sess_id s" "sess_client s' = sess_client s"
    and "handlers s' = handlers s" "tasks s = [] \<longrightarrow> tasks s' = []"
    and "set (guards s') = set (guards s) - {g}" "distinct (guards s')"
  shows "step_ok pol st s (close_conn g st) s'"
proof -
  note wf = reach_wf [OF assms(1)]
  have g: "guard_live g st" using assms(3,4) by (simp add: session_ok_def)
  have s': "session_ok st s'"
    using assms(3,5-11) unfolding session_ok_def by auto
  have cl: "clients (close_conn g st) = clients st" "client_heap (close_conn g st) = client_heap st"
    by (simp_all add: close_conn_def snapshot_def Let_def split: prod.splits)
  have fr: "frame (sess_id s) G st (close_conn g st)" if "g \<notin> G" for G using frame_close_conn [OF wf g that] .
  from fr [of "set (guards s')"] assms(10) have "frame (sess_id s) (set (guards s')) st (close_conn g st)" by simp
  from frame_self [OF this s'] cl have "session_ok (close_conn g st) s'" by simp
  moreover have "reach (close_conn g st)" "policy_ok pol (close_conn g st)"
    using reach_ops(5) [OF assms(1) g] policy_ops(4) [OF assms(2)] by simp_all
  ultimately show ?thesis using fr assms(4,5,6,10) by (auto simp: step_ok_def)
qed

lemma drop_nth:
  assumes "k < length xs" "distinct xs"
  shows "set (drop_nth k xs) = set xs - {xs ! k}" "distinct (drop_nth k xs)"
proof -
  have split: "xs = take k xs @ xs ! k # drop (Suc k) xs" using assms(1) by (simp add: id_take_nth_drop)
  from assms(2) have d: "distinct (take k xs @ xs ! k # drop (Suc k) xs)" using split by simp
  show "set (drop_nth k xs) = set xs - {xs ! k}"
    using d by (subst (2) split) (auto simp: drop_nth_def)
  show "distinct (drop_nth k xs)" using d by (simp add: drop_nth_def)
qed

lemma handle_open_conn_cases:
  assumes "handle_open_conn cs now c st = (res, st', c')"
  obtains e where "res = Inl e" "st' = st"
    | d g t i where "res = Inr (d, g)" "dm_get (tunnels st) i = Some t"
      "register_conn t (peer_label d) now st = (g, st')"
  using assms unfolding handle_open_conn_def
  by (auto split: sum.splits prod.splits option.splits)

lemma step_streamed:
  assumes ok: "reach st" "policy_ok pol st" "session_ok st s"
    and step: "session_step pol now (Streamed c) st s = (st', s')" and "length (conn_heap st') < 2 ^ 64"
  shows "step_ok pol st s st' s'"
proof (cases "sess_phase s = Serving")
  case True
  obtain res st1 c' where h: "handle_open_conn (codecs_of pol) now c st = (res, st1, c')" by (metis prod_cases3)
  then show ?thesis
  proof (cases rule: handle_open_conn_cases)
    case (1 e)
    with True h step step_ok_refl [OF ok] show ?thesis by (simp add: session_step_def)
  next
    case (2 d g t i)
    with True h step have s': "st' = st1" "s' = s\<lparr>tasks := tasks s @ [g]\<rparr>" by (auto simp: session_step_def)
    have "t < length (tunnel_heap st)" using index_ref [OF _ _ 2(2)] reach_wf [OF ok(1)] by (simp add: wf_state_def)
    moreover have "Suc (length (conn_heap st)) < 2 ^ 64"
      using 2(3) assms(5) s'(1) by (auto simp: register_conn_def Let_def)
    ultimately show ?thesis using step_new_guard [OF ok True _ _ 2(3)] s' by simp
  qed
qed (use step step_ok_refl [OF ok] in \<open>simp add: session_step_def\<close>)

lemma step_reverse_accepted:
  assumes ok: "reach st" "policy_ok pol st" "session_ok st s"
    and step: "session_step pol now (ReverseAccepted k peer) st s = (st', s')" and "length (conn_heap st') < 2 ^ 64"
  shows "step_ok pol st s st' s'"
proof (cases "k < length (handlers s)")
  case True
  have ph: "sess_phase s = Serving" using True ok(3) by (cases "sess_phase s = Serving") (simp_all add: session_ok_def)
  have t: "handlers s ! k < length (tunnel_heap st)" using True ok(3) by (simp add: session_ok_def)
  obtain g st1 where g: "register_conn (handlers s ! k) peer now st = (g, st1)" by fastforce
  with True step have s': "st' = st1" "s' = s\<lparr>detached := detached s @ [g]\<rparr>" by (auto simp: session_step_def)
  have "Suc (length (conn_heap st)) < 2 ^ 64" using g assms(5) s'(1) by (auto simp: register_conn_def Let_def)
  with step_new_guard [OF ok ph t _ g] s' show ?thesis by simp
qed (use step step_ok_refl [OF ok] in \<open>simp add: session_step_def\<close>)

lemma step_done:
  assumes ok: "reach st" "policy_ok pol st" "session_ok st s"
  shows "k < length (tasks s) \<Longrightarrow> step_ok pol st s (close_conn (tasks s ! k) st) (s\<lparr>tasks := drop_nth k (tasks s)\<rparr>)"
    and "k < length (detached s) \<Longrightarrow>
      step_ok pol st s (close_conn (detached s ! k) st) (s\<lparr>detached := drop_nth k (detached s)\<rparr>)"
proof -
  have dist: "distinct (tasks s)" "distinct (detached s)" "set (tasks s) \<inter> set (detached s) = {}"
    using ok(3) by (auto simp: session_ok_def guards_def)
  show "step_ok pol st s (close_conn (tasks s ! k) st) (s\<lparr>tasks := drop_nth k (tasks s)\<rparr>)"
    if k: "k < length (tasks s)"
    using dist drop_nth [OF k dist(1)] nth_mem [OF k] by (intro step_close [OF ok]) (auto simp: guards_def)
  show "step_ok pol st s (close_conn (detached s ! k) st) (s\<lparr>detached := drop_nth k (detached s)\<rparr>)"
    if k: "k < length (detached s)"
    using dist drop_nth [OF k dist(2)] nth_mem [OF k] by (intro step_close [OF ok]) (auto simp: guards_def)
qed

lemma session_step_ok:
  assumes ok: "reach st" "policy_ok pol st" "session_ok st s" and step: "session_step pol now ev st s = (st', s')"
    and "length (tunnel_heap st') < 2 ^ 64" "length (conn_heap st') < 2 ^ 64"
  shows "step_ok pol st s st' s'"
proof (cases ev)
  case Connected
  with step step_ok_refl [OF ok] step_connected [OF ok] show ?thesis
    by (auto simp: session_step_def split: if_splits)
next
  case ConnectFailed
  with step step_ok_refl [OF ok] step_over [OF ok] show ?thesis by (auto simp: session_step_def split: if_splits)
next
  case (HelloStreamed a)
  with step assms(5) step_ok_refl [OF ok] step_hello [OF ok] show ?thesis
    by (auto simp: session_step_def split: if_splits)
next
  case (Lost e)
  with step step_ok_refl [OF ok] step_lost [OF ok] show ?thesis by (auto simp: session_step_def split: if_splits)
next
  case (TaskTraffic k n m)
  with step step_ok_refl [OF ok] step_traffic [OF ok, of "tasks s ! k" n m] show ?thesis
    by (auto simp: session_step_def guards_def split: if_splits)
next
  case (DetachedTraffic k n m)
  with step step_ok_refl [OF ok] step_traffic [OF ok, of "detached s ! k" n m] show ?thesis
    by (auto simp: session_step_def guards_def split: if_splits)
next
  case (TaskDone k)
  with step step_ok_refl [OF ok] step_done(1) [OF ok] show ?thesis by (auto simp: session_step_def split: if_splits)
next
  case (DetachedDone k)
  with step step_ok_refl [OF ok] step_done(2) [OF ok] show ?thesis by (auto simp: session_step_def split: if_splits)
qed (use step assms(6) step_streamed [OF ok] step_reverse_accepted [OF ok] in blast)+

section \<open>Invariant of the server\<close>

definition live_sessions :: "server \<Rightarrow> nat" where
  "live_sessions srv = length (filter (\<lambda>s. sess_phase s \<noteq> Over) (sessions srv))"

definition permits_ok :: "nat option \<Rightarrow> server \<Rightarrow> bool" where
  "permits_ok cap srv \<longleftrightarrow> (case cap of None \<Rightarrow> permits srv = None
     | Some m \<Rightarrow> (\<exists>n. permits srv = Some n \<and> n + live_sessions srv = m))"

definition server_ok :: "server_policy \<Rightarrow> server \<Rightarrow> bool" where
  "server_ok pol srv \<longleftrightarrow> reach (reg srv) \<and> policy_ok pol (reg srv) \<and>
     (\<forall>k<length (sessions srv). sess_id (sessions srv ! k) = word_of_nat (Suc k) \<and>
        session_ok (reg srv) (sessions srv ! k)) \<and>
     (\<forall>j<length (sessions srv). \<forall>k<length (sessions srv). j \<noteq> k \<longrightarrow>
        set (guards (sessions srv ! j)) \<inter> set (guards (sessions srv ! k)) = {}) \<and>
     cl_id ` set (client_heap (reg srv)) \<subseteq> (\<lambda>k. word_of_nat (Suc k)) ` {..<length (sessions srv)}"

lemma server_ok_new: "server_ok pol (server_new now addr cap) \<and> permits_ok cap (server_new now addr cap)"
  by (auto simp: server_ok_def server_new_def permits_ok_def live_sessions_def reach_ops policy_ok_def
      split: option.split) (simp_all add: server_state_new_def)

lemma filter_update_length:
  assumes "k < length xs"
  shows "length (filter P (xs[k := x])) + (if P (xs ! k) then 1 else 0) =
    length (filter P xs) + (if P x then 1 else 0)"
proof -
  have "length (filter P (take k xs @ y # drop (Suc k) xs)) =
      length (filter P (take k xs)) + length (filter P (drop (Suc k) xs)) + (if P y then 1 else 0)" for y by simp
  from this [of x] this [of "xs ! k"] assms show ?thesis
    by (simp add: upd_conv_take_nth_drop flip: id_take_nth_drop)
qed

lemma accept_ok:
  assumes "server_ok pol srv" "permits_ok cap srv" "Suc (length (sessions srv)) < 2 ^ 64"
  shows "server_ok pol (accept_connection peer srv) \<and> permits_ok cap (accept_connection peer srv)"
proof -
  let ?n = "length (sessions srv)" and ?i = "word_of_nat (Suc (length (sessions srv))) :: u64"
  from assms(1) have ids: "cl_id ` set (client_heap (reg srv)) \<subseteq> (\<lambda>k. word_of_nat (Suc k)) ` {..<?n}"
    and wf: "wf_state (reg srv)" by (simp_all add: server_ok_def reach_wf)
  have neq: "?i \<noteq> word_of_nat (Suc k)" if "k < ?n" for k
    using word_of_Suc_inj [of ?n k] that assms(3) by (simp del: of_nat_Suc)
  have "?i \<notin> (\<lambda>k. word_of_nat (Suc k)) ` {..<?n}"
    using neq unfolding image_iff lessThan_iff Bex_def by (simp del: of_nat_Suc)
  then have fresh: "?i \<notin> cl_id ` set (client_heap (reg srv))" using ids by (rule contra_subsetD [rotated])
  have none: "dm_get (clients (reg srv)) ?i = None"
  proof (cases "dm_get (clients (reg srv)) ?i")
    case (Some c)
    with client_ref [OF _ Some] wf have "?i \<in> cl_id ` set (client_heap (reg srv))"
      unfolding wf_state_def by (metis image_eqI nth_mem)
    with fresh show ?thesis by contradiction
  qed
  have new: "session_ok (reg srv) (session_new ?i peer ph)" if "ph \<in> {Connecting, Over}" for ph
    using fresh none that by (auto simp: session_ok_def session_new_def guards_def)
  have srv: "server_ok pol (srv\<lparr>permits := p, sessions := sessions srv @ [session_new ?i peer ph]\<rparr>)"
    if "ph \<in> {Connecting, Over}" for ph p
    using assms(1) new [OF that] ids
    unfolding server_ok_def by (auto simp: nth_append less_Suc_eq session_new_def guards_def)
  have same: "srv\<lparr>sessions := x\<rparr> = srv\<lparr>permits := permits srv, sessions := x\<rparr>" for x by (cases srv) simp
  show ?thesis
  proof (cases "permits srv = Some 0")
    case True
    with srv [of Over "permits srv", folded same] assms(2) show ?thesis
      by (simp add: accept_connection_def permits_ok_def live_sessions_def session_new_def
          split: option.splits)
  next
    case False
    with srv [of Connecting] assms(2) show ?thesis
      by (auto simp: accept_connection_def permits_ok_def live_sessions_def session_new_def
          split: option.splits)
  qed
qed

text \<open>A step of one session, seen from the others.\<close>

lemma others_kept:
  assumes "server_ok pol srv" "k < length (sessions srv)" "length (sessions srv) < 2 ^ 64"
    and st: "step_ok pol (reg srv) (sessions srv ! k) st' s'" and j: "j < length (sessions srv)" "j \<noteq> k"
  shows "session_ok st' (sessions srv ! j) \<and> set (guards s') \<inter> set (guards (sessions srv ! j)) = {}"
proof -
  from assms(1,2) j have ok: "session_ok (reg srv) (sessions srv ! j)"
    and sep: "set (guards (sessions srv ! j)) \<inter> set (guards (sessions srv ! k)) = {}"
    and id: "sess_id (sessions srv ! j) = word_of_nat (Suc j)" "sess_id (sessions srv ! k) = word_of_nat (Suc k)"
    by (simp_all add: server_ok_def)
  have "frame (sess_id (sessions srv ! k)) (set (guards (sessions srv ! j))) (reg srv) st'"
    using st sep by (simp add: step_ok_def)
  moreover have "sess_id (sessions srv ! j) \<noteq> sess_id (sessions srv ! k)"
    using word_of_Suc_inj [of j k] j assms(2,3) unfolding id by simp
  moreover have "snd g < length (conn_heap (reg srv))" if "g \<in> set (guards (sessions srv ! j))" for g
    using ok that by (auto simp: session_ok_def guard_live_def)
  with st sep have "set (guards s') \<inter> set (guards (sessions srv ! j)) = {}" unfolding step_ok_def by fastforce
  ultimately show ?thesis using session_ok_frame [OF ok] by blast
qed

lemma client_ids_kept:
  assumes "server_ok pol srv" "k < length (sessions srv)" "step_ok pol (reg srv) (sessions srv ! k) st' s'"
  shows "cl_id ` set (client_heap st') \<subseteq> (\<lambda>k. word_of_nat (Suc k)) ` {..<length (sessions srv)}"
proof -
  have "frame (sess_id (sessions srv ! k)) {} (reg srv) st'" using assms(3) by (simp add: step_ok_def)
  then have "cl_id ` set (client_heap st') \<subseteq>
      insert (sess_id (sessions srv ! k)) (cl_id ` set (client_heap (reg srv)))" by (simp add: frame_def)
  moreover have "sess_id (sessions srv ! k) = word_of_nat (Suc k)" using assms(1,2) by (simp add: server_ok_def)
  then have "sess_id (sessions srv ! k) \<in> (\<lambda>k. word_of_nat (Suc k)) ` {..<length (sessions srv)}"
    using assms(2) by blast
  moreover have "cl_id ` set (client_heap (reg srv)) \<subseteq> (\<lambda>k. word_of_nat (Suc k)) ` {..<length (sessions srv)}"
    using assms(1) unfolding server_ok_def by blast
  ultimately show ?thesis by (rule subset_trans [OF _ insert_subsetI])
qed

lemma in_session_ok:
  assumes "server_ok pol srv" "permits_ok cap srv" "k < length (sessions srv)" "length (sessions srv) < 2 ^ 64"
    and step: "session_step pol now ev (reg srv) (sessions srv ! k) = (st', s')"
    and "length (tunnel_heap st') < 2 ^ 64" "length (conn_heap st') < 2 ^ 64"
  shows "server_ok pol (srv\<lparr>reg := st', permits := p, sessions := (sessions srv)[k := s']\<rparr>)"
    and "sess_phase (sessions srv ! k) = Over \<longrightarrow> sess_phase s' = Over"
proof -
  from assms(1,3) have ok: "reach (reg srv)" "policy_ok pol (reg srv)" "session_ok (reg srv) (sessions srv ! k)"
    and id: "\<And>j. j < length (sessions srv) \<Longrightarrow> sess_id (sessions srv ! j) = word_of_nat (Suc j)"
    and sep: "\<And>i j. i < length (sessions srv) \<Longrightarrow> j < length (sessions srv) \<Longrightarrow> i \<noteq> j \<Longrightarrow>
        set (guards (sessions srv ! i)) \<inter> set (guards (sessions srv ! j)) = {}"
    by (simp_all add: server_ok_def)
  from session_step_ok [OF ok step assms(6,7)] have st: "step_ok pol (reg srv) (sessions srv ! k) st' s'" .
  then show "sess_phase (sessions srv ! k) = Over \<longrightarrow> sess_phase s' = Over" by (simp add: step_ok_def)
  note others = others_kept [OF assms(1,3,4) st]
  show "server_ok pol (srv\<lparr>reg := st', permits := p, sessions := (sessions srv)[k := s']\<rparr>)"
    unfolding server_ok_def
  proof (simp, intro conjI allI impI)
    show "reach st'" "policy_ok pol st'" using st by (simp_all add: step_ok_def)
    fix j assume j: "j < length (sessions srv)"
    show "sess_id ((sessions srv)[k := s'] ! j) = 1 + word_of_nat j" "session_ok st' ((sessions srv)[k := s'] ! j)"
      using st others id j assms(3) by (auto simp: nth_list_update step_ok_def)
    fix i assume i: "i < length (sessions srv)" "j \<noteq> i"
    show "set (guards ((sessions srv)[k := s'] ! j)) \<inter> set (guards ((sessions srv)[k := s'] ! i)) = {}"
      using sep others j i assms(3) by (auto simp: nth_list_update)
  next
    show "cl_id ` set (client_heap st') \<subseteq> (\<lambda>k. 1 + word_of_nat k) ` {..<length (sessions srv)}"
      using client_ids_kept [OF assms(1,3) st] by simp
  qed
qed

lemma server_step_ok:
  assumes "server_ok pol srv" "permits_ok cap srv" "srv' = server_step pol ev srv"
    and "length (sessions srv') < 2 ^ 64" "length (tunnel_heap (reg srv')) < 2 ^ 64" "length (conn_heap (reg srv')) < 2 ^ 64"
  shows "server_ok pol srv' \<and> permits_ok cap srv'"
proof -
  obtain now e where ev: "ev = (now, e)" by fastforce
  show ?thesis
  proof (cases e)
    case (Incoming peer)
    with assms(3,4) ev have "srv' = accept_connection peer srv" "Suc (length (sessions srv)) < 2 ^ 64"
      by (auto simp: server_step_def accept_connection_def Let_def split: if_splits)
    with accept_ok [OF assms(1,2)] show ?thesis by simp
  next
    case (InSession k sev)
    show ?thesis
    proof (cases "k < length (sessions srv)")
      case True
      let ?s = "sessions srv ! k"
      obtain st1 s1 where step: "session_step pol now sev (reg srv) ?s = (st1, s1)" by fastforce
      define p where "p = (if sess_phase ?s \<noteq> Over \<and> sess_phase s1 = Over then map_option Suc (permits srv) else permits srv)"
      have srv': "srv' = srv\<lparr>reg := st1, permits := p, sessions := (sessions srv)[k := s1]\<rparr>"
        using assms(3) ev InSession True step by (simp add: server_step_def p_def Let_def)
      from in_session_ok [OF assms(1,2) True _ step] assms(4-6)
      have ok: "server_ok pol srv'" "sess_phase ?s = Over \<longrightarrow> sess_phase s1 = Over" by (simp_all add: srv')
      have "permits_ok cap srv'"
        using assms(2) ok(2) filter_update_length [OF True, of "\<lambda>s. sess_phase s \<noteq> Over" s1]
        unfolding srv' p_def
        by (auto simp: permits_ok_def live_sessions_def split: option.splits if_splits)
      with ok show ?thesis by simp
    qed (use assms ev InSession in \<open>simp add: server_step_def\<close>)
  qed
qed

lemma heap_sizes:
  "length (tunnel_heap st) \<le> length (tunnel_heap (snd (register_tunnels cref reqs now st)))"
  "conn_heap (snd (register_tunnels cref reqs now st)) = conn_heap st"
  "tunnel_heap (deregister_client i reason now st) = tunnel_heap st"
  "conn_heap (deregister_client i reason now st) = conn_heap st"
  "length (tunnel_heap (fold close_conn gs st)) = length (tunnel_heap st)"
  "conn_heap (fold close_conn gs st) = conn_heap st"
proof -
  have one: "length (tunnel_heap st) \<le> length (tunnel_heap (snd (register_tunnel cref req now st)))"
    "conn_heap (snd (register_tunnel cref req now st)) = conn_heap st" for req st
    by (simp_all add: register_tunnel_def Let_def)
  show "length (tunnel_heap st) \<le> length (tunnel_heap (snd (register_tunnels cref reqs now st)))"
    "conn_heap (snd (register_tunnels cref reqs now st)) = conn_heap st"
    by (induction reqs arbitrary: st)
      (auto simp: snd_register_tunnels one simp del: register_tunnels.simps(2) intro: order_trans [OF one(1)])
  show "tunnel_heap (deregister_client i reason now st) = tunnel_heap st"
    "conn_heap (deregister_client i reason now st) = conn_heap st"
    by (simp_all add: deregister_client_def Let_def split: option.split)
  show "length (tunnel_heap (fold close_conn gs st)) = length (tunnel_heap st)"
    "conn_heap (fold close_conn gs st) = conn_heap st"
    by (induction gs arbitrary: st) (auto simp: close_conn_def snapshot_def Let_def split: prod.splits)
qed

lemma session_step_grows:
  assumes "session_step pol now ev st s = (st', s')"
  shows "length (tunnel_heap st) \<le> length (tunnel_heap st') \<and> length (conn_heap st) \<le> length (conn_heap st')"
proof (cases ev)
  case (HelloStreamed a)
  obtain res st1 c where h: "perform_session_hello (codecs_of pol) (sess_client s) (allow_reverse pol)
      (allow_socks pol) now a st = (res, st1, c)" by (metis prod_cases3)
  have "length (tunnel_heap st) \<le> length (tunnel_heap st1) \<and> length (conn_heap st) \<le> length (conn_heap st1)"
    using h by (cases rule: perform_hello_cases) (auto simp: heap_sizes)
  with HelloStreamed h assms show ?thesis
    by (cases res) (auto simp: session_step_def session_hello_step_def heap_sizes split: if_splits)
next
  case (Streamed c)
  obtain res st1 c' where h: "handle_open_conn (codecs_of pol) now c st = (res, st1, c')" by (metis prod_cases3)
  have "length (tunnel_heap st) \<le> length (tunnel_heap st1) \<and> length (conn_heap st) \<le> length (conn_heap st1)"
    using h by (cases rule: handle_open_conn_cases) (auto simp: register_conn_def Let_def)
  with Streamed h assms show ?thesis
    by (cases res) (auto simp: session_step_def split: if_splits)
qed (use assms in \<open>auto simp: session_step_def session_connected_def session_lost_def heap_sizes register_client_def
    register_conn_def bump_def close_conn_def snapshot_def Let_def split: if_splits prod.splits\<close>)

lemma server_step_grows:
  "length (sessions srv) \<le> length (sessions (server_step pol ev srv)) \<and>
   length (tunnel_heap (reg srv)) \<le> length (tunnel_heap (reg (server_step pol ev srv))) \<and>
   length (conn_heap (reg srv)) \<le> length (conn_heap (reg (server_step pol ev srv)))"
  using session_step_grows
  by (auto simp: server_step_def accept_connection_def Let_def split: prod.splits server_event.splits)

definition within_ids :: "server \<Rightarrow> bool" where
  "within_ids srv \<longleftrightarrow> length (sessions srv) < 2 ^ 64 \<and> length (tunnel_heap (reg srv)) < 2 ^ 64 \<and>
     length (conn_heap (reg srv)) < 2 ^ 64"

lemma server_run_ok:
  "within_ids (server_run pol evs (server_new now addr cap)) \<Longrightarrow>
   server_ok pol (server_run pol evs (server_new now addr cap)) \<and>
   permits_ok cap (server_run pol evs (server_new now addr cap))"
proof (induction evs rule: rev_induct)
  case Nil
  then show ?case by (simp add: server_run_def server_ok_new)
next
  case (snoc ev evs)
  let ?srv = "server_run pol evs (server_new now addr cap)"
  have run: "server_run pol (evs @ [ev]) (server_new now addr cap) = server_step pol ev ?srv"
    by (simp add: server_run_def)
  have "within_ids ?srv" using snoc.prems server_step_grows [of ?srv pol ev] by (auto simp: within_ids_def run)
  with snoc.IH server_step_ok [of pol ?srv cap _ ev] snoc.prems show ?case by (simp add: within_ids_def run)
qed

lemma gone_client_no_tunnel:
  assumes "wf_state st" "client st i = None" "tunnel st j = Some e"
  shows "tn_client_id e \<noteq> i"
proof -
  from assms have ix: "index_ok st" and cl: "clients_ok st" by (simp_all add: wf_state_def)
  from assms(3) obtain r where r: "dm_get (tunnels st) j = Some r" "tunnel_heap st ! r = e" by (auto simp: tunnel_some)
  with ix obtain c where c: "c < length (client_heap st)" "registered st c"
    "dm_get (cl_tunnels (client_heap st ! c)) j = Some r" by (auto simp: index_ok_def)
  from tunnel_ref [OF cl c(1,3)] r(2) have "tn_client_id e = cl_id (client_heap st ! c)" by simp
  moreover from c(2) assms(2) have "cl_id (client_heap st ! c) \<noteq> i" by (auto simp: registered_def client_def)
  ultimately show ?thesis by simp
qed

lemma policy_tunnel:
  assumes "wf_state st" "policy_ok pol st" "tunnel st i = Some e"
  shows "(tn_direction e = Reverse \<longrightarrow> allow_reverse pol) \<and> (\<forall>l. tn_kind e = Socks5 l \<longrightarrow> allow_socks pol)"
proof -
  from assms(3) obtain r where r: "dm_get (tunnels st) i = Some r" "tunnel_heap st ! r = e" by (auto simp: tunnel_some)
  with index_ref [OF _ _ r(1)] assms(1) have "e \<in> set (tunnel_heap st)" by (auto simp: wf_state_def)
  with assms(2) show ?thesis by (simp add: policy_ok_def)
qed

text \<open>C2. However clients connect, negotiate, open and lose conns in whatever interleaving, the server keeps
  its tables consistent, no reverse tunnel exists without \<^verbatim>\<open>--allow-reverse\<close> and no SOCKS tunnel without
  \<^verbatim>\<open>--allow-socks\<close>, and a session that is over has left no client entry and no tunnel behind. The hypothesis
  is that the 64-bit id counters have not run out.\<close>

theorem server_run_safe:
  assumes "within_ids (server_run pol evs (server_new now addr cap))"
  shows "let srv = server_run pol evs (server_new now addr cap); st = reg srv in
    wf_state st \<and>
    (\<forall>i e. tunnel st i = Some e \<longrightarrow>
       (tn_direction e = Reverse \<longrightarrow> allow_reverse pol) \<and> (\<forall>l. tn_kind e = Socks5 l \<longrightarrow> allow_socks pol)) \<and>
    (\<forall>s\<in>set (sessions srv). sess_phase s = Over \<longrightarrow>
       client st (sess_id s) = None \<and> (\<forall>i e. tunnel st i = Some e \<longrightarrow> tn_client_id e \<noteq> sess_id s))"
proof -
  let ?srv = "server_run pol evs (server_new now addr cap)"
  from server_run_ok [OF assms] have ok: "reach (reg ?srv)" "policy_ok pol (reg ?srv)"
    "\<forall>s\<in>set (sessions ?srv). session_ok (reg ?srv) s" by (auto simp: server_ok_def in_set_conv_nth)
  note wf = reach_wf [OF ok(1)]
  have "client (reg ?srv) (sess_id s) = None" if "s \<in> set (sessions ?srv)" "sess_phase s = Over" for s
    using ok(3) that by (auto simp: session_ok_def client_def)
  with wf policy_tunnel [OF wf ok(2)] gone_client_no_tunnel [OF wf] show ?thesis unfolding Let_def by blast
qed

text \<open>C19. With \<^verbatim>\<open>--max-connections m\<close> at most \<open>m\<close> sessions are ever live, over all interleavings; every permit is
  either free or held by exactly one live session, so none leaks when sessions fail or end.\<close>

theorem max_connections_respected:
  assumes "within_ids (server_run pol evs (server_new now addr (Some m)))"
  shows "let srv = server_run pol evs (server_new now addr (Some m)) in
    live_sessions srv \<le> m \<and> permits srv = Some (m - live_sessions srv)"
proof -
  from server_run_ok [OF assms] obtain n where
    "permits (server_run pol evs (server_new now addr (Some m))) = Some n"
    "n + live_sessions (server_run pol evs (server_new now addr (Some m))) = m" by (auto simp: permits_ok_def)
  then show ?thesis by (auto simp: Let_def)
qed

section \<open>The hello, end to end\<close>


section \<open>Opening conns\<close>

lemma resolve_dispatch_Inr:
  assumes "resolve_dispatch e dyn = Inr d"
  shows "tn_direction e = Forward \<and>
    (case dyn of
       None \<Rightarrow> (\<exists>l r. (tn_kind e = remote_kind.Tcp l r \<and> d = DispatchTcp (remote_request_new Forward (remote_kind.Tcp l r))) \<or>
         (tn_kind e = remote_kind.Udp l r \<and> d = DispatchUdp (remote_request_new Forward (remote_kind.Udp l r))))
     | Some (DynTcp t) \<Rightarrow> (\<exists>l. tn_kind e = Socks5 l \<and> d = DispatchTcp (remote_request_new Forward (remote_kind.Tcp l t)))
     | Some (DynUdp t) \<Rightarrow> (\<exists>l. tn_kind e = Socks5 l \<and> d = DispatchUdp (remote_request_new Forward (remote_kind.Udp l t))))"
  using assms unfolding resolve_dispatch_def
  by (auto split: if_splits remote_kind.splits option.splits dynamic_target.splits)

text \<open>Where a tunnel's conns go: the declared target, or for SOCKS the target named when the conn is opened.\<close>

fun conn_target :: "remote_kind \<Rightarrow> dynamic_target option \<Rightarrow> host_port option" where
  "conn_target (remote_kind.Tcp l r) None = Some r"
| "conn_target (remote_kind.Udp l r) None = Some r"
| "conn_target (Socks5 l) (Some (DynTcp t)) = Some t"
| "conn_target (Socks5 l) (Some (DynUdp t)) = Some t"
| "conn_target _ _ = None"

text \<open>C9. The server opens a conn exactly when the request names a live forward tunnel and carries a
  target where, and only where, the tunnel's kind needs one. It then dials that target and no other,
  and the conn is listed under that tunnel with the target as its label; in every other case no state changes.\<close>

theorem handle_open_conn_exact:
  assumes "wf_state st" "receive_open_conn cs c = (Inr op, c1)" "reply_open_conn cs OpenOk c1 = (Inr (), c2)"
  shows "case handle_open_conn cs now c st of
      (Inr (d, g), st', _) \<Rightarrow>
        \<exists>e t. tunnel st (tunnel_id op) = Some e \<and> tn_direction e = Forward \<and> conn_target (tn_kind e) (dynamic op) = Some t \<and>
          peer_label d = Some (to_addr_string t) \<and>
          (case conn_heap st' ! snd g of n \<Rightarrow> cn_tunnel_id n = tunnel_id op \<and> cn_client_id n = tn_client_id e \<and>
             cn_peer n = Some (to_addr_string t) \<and> live_conn st' (cn_id n) = Some n)
    | (Inl _, st', _) \<Rightarrow> st' = st \<and>
        (\<forall>e. tunnel st (tunnel_id op) = Some e \<longrightarrow> tn_direction e = Reverse \<or> conn_target (tn_kind e) (dynamic op) = None)"
proof (cases "dm_get (tunnels st) (tunnel_id op)")
  case None
  with assms(2) show ?thesis by (simp add: handle_open_conn_def tunnel_def)
next
  case (Some r)
  let ?e = "tunnel_heap st ! r"
  have e: "tunnel st (tunnel_id op) = Some ?e" using Some by (simp add: tunnel_def)
  have r: "r < length (tunnel_heap st)" "tn_id ?e = tunnel_id op"
    using index_ref [OF _ _ Some] assms(1) by (simp_all add: wf_state_def)
  show ?thesis
  proof (cases "resolve_dispatch ?e (dynamic op)")
    case (Inl x)
    then have "tn_direction ?e = Reverse \<or> conn_target (tn_kind ?e) (dynamic op) = None"
      by (cases "tn_direction ?e"; cases "tn_kind ?e"; cases "dynamic op")
        (auto simp: resolve_dispatch_def split: dynamic_target.splits)
    with Inl Some e assms(2) show ?thesis by (simp add: handle_open_conn_def)
  next
    case (Inr d)
    from resolve_dispatch_Inr [OF Inr] obtain t where t: "tn_direction ?e = Forward"
      "conn_target (tn_kind ?e) (dynamic op) = Some t" "peer_label d = Some (to_addr_string t)"
      by (auto simp: peer_label_def remote_addr_string_def remote_request_new_def
          split: option.splits dynamic_target.splits)
    have "handle_open_conn cs now c st = (case register_conn r (peer_label d) now st of (g, st1) \<Rightarrow> (Inr (d, g), st1, c2))"
      using Some Inr assms(2,3) by (simp add: handle_open_conn_def)
    with e t r show ?thesis by (simp add: register_conn_def live_conn_def Let_def nth_append)
  qed
qed

text \<open>A conn is looked up by tunnel id alone: a session may open a conn on a tunnel that another
  client declared, and the conn is then accounted to that other client.\<close>

theorem open_conn_crosses_clients:
  assumes "wf_state st" "sess_phase s = Serving" "tunnel st i = Some e" "tn_client_id e \<noteq> sess_id s"
    and "tn_direction e = Forward" "conn_target (tn_kind e) None = Some t"
    and "receive_open_conn (codecs_of pol) c = (Inr \<lparr> tunnel_id = i, dynamic = None \<rparr>, c1)"
    and "reply_open_conn (codecs_of pol) OpenOk c1 = (Inr (), c2)"
  shows "\<exists>g st'. session_step pol now (Streamed c) st s = (st', s\<lparr>tasks := tasks s @ [g]\<rparr>) \<and>
    cn_tunnel_id (conn_heap st' ! snd g) = i \<and> cn_client_id (conn_heap st' ! snd g) \<noteq> sess_id s"
proof -
  from assms(3) obtain r where r: "dm_get (tunnels st) i = Some r" "tunnel_heap st ! r = e" by (auto simp: tunnel_some)
  have i: "tn_id e = i" using index_ref [OF _ _ r(1)] assms(1) r(2) by (simp add: wf_state_def)
  obtain d where d: "resolve_dispatch e None = Inr d"
    using assms(5,6) by (cases "tn_kind e") (auto simp: resolve_dispatch_def)
  have "handle_open_conn (codecs_of pol) now c st =
      (case register_conn r (peer_label d) now st of (g, st1) \<Rightarrow> (Inr (d, g), st1, c2))"
    using r d assms(7,8) by (simp add: handle_open_conn_def)
  moreover obtain g st' where g: "register_conn r (peer_label d) now st = (g, st')" by fastforce
  moreover from g r(2) i have "cn_tunnel_id (conn_heap st' ! snd g) = i" "cn_client_id (conn_heap st' ! snd g) = tn_client_id e"
    by (auto simp: register_conn_def Let_def)
  ultimately show ?thesis using assms(2,4) by (intro exI [of _ g] exI [of _ st']) (simp add: session_step_def)
qed

section \<open>An example\<close>

text \<open>A small codec: one byte per number.\<close>

definition byte_codecs :: codecs where
  "byte_codecs = \<lparr>
     hello_codec = \<lparr> to_bytes = (\<lambda>h. if h = \<lparr> remotes = [demo_req] \<rparr> then Some [7] else None),
       from_bytes = (\<lambda>bs. if bs = [7] then Some \<lparr> remotes = [demo_req] \<rparr> else None) \<rparr>,
     hello_response_codec = \<lparr> to_bytes = (\<lambda>r. case r of HelloOk ids \<Rightarrow> Some (map ucast ids) | HelloFailed _ \<Rightarrow> None),
       from_bytes = (\<lambda>bs. Some (HelloOk (map ucast bs))) \<rparr>,
     open_codec = \<lparr> to_bytes = (\<lambda>op. if dynamic op = None then Some [ucast (tunnel_id op)] else None),
       from_bytes = (\<lambda>bs. case bs of [b] \<Rightarrow> Some \<lparr> tunnel_id = ucast b, dynamic = None \<rparr> | _ \<Rightarrow> None) \<rparr>,
     open_response_codec = \<lparr> to_bytes = (\<lambda>r. Some (case r of OpenOk \<Rightarrow> [1] | OpenFailed _ \<Rightarrow> [0])),
       from_bytes = (\<lambda>bs. Some (if bs = [1] then OpenOk else OpenFailed [])) \<rparr> \<rparr>"

definition demo_policy :: server_policy where
  "demo_policy = \<lparr> codecs_of = byte_codecs, show_hello_error = (\<lambda>_. ''error''), allow_reverse = False, allow_socks = True \<rparr>"

definition tcp_req :: remote_request where
  "tcp_req = remote_request_new Forward (remote_kind.Tcp demo_addr (host_port_new ''example.org'' 80))"

text \<open>Client 1 has declared a TCP tunnel; client 2 has joined.\<close>

definition two_clients :: server_state where
  "two_clients = snd (register_client 2 demo_addr 6 (snd (register_tunnel 0 tcp_req 6 demo_joined)))"

lemma two_clients_reach: "reach two_clients"
proof -
  have j: "reach demo_joined" using demo_joined_reachable by (auto simp: reach_def)
  have "registry_step demo_joined [] (snd (register_tunnel 0 tcp_req 6 demo_joined))"
    by (rule tunnel_in) (simp_all add: demo_defs)
  from reach_step [OF j this] show ?thesis
    unfolding two_clients_def by (rule reach_ops(2)) (simp add: demo_defs)
qed

definition open_stream :: conn where
  "open_stream = open_line ([1, 0, 0, 0] @ [1])"

lemma le_bytes_1: "le_bytes 4 (Suc 0) = [1, 0, 0, 0]"
  by (simp add: le_bytes_def upt_rec)

lemma open_stream_run:
  "receive_open_conn byte_codecs open_stream = (Inr \<lparr> tunnel_id = 1, dynamic = None \<rparr>, open_line [])"
  "reply_open_conn byte_codecs OpenOk (open_line []) =
    (Inr (), (open_line [])\<lparr>outb := [1, 0, 0, 0, 1], wleft := 95\<rparr>)"
proof -
  have f: "control_frame (open_codec byte_codecs) \<lparr> tunnel_id = 1, dynamic = None \<rparr> = Some [1, 0, 0, 0, 1]"
    by (simp add: control_frame_def byte_codecs_def le_bytes_1 max_control_msg_def)
  from ctl.receive_frame [OF this, of open_stream "[]"]
  show "receive_open_conn byte_codecs open_stream = (Inr \<lparr> tunnel_id = 1, dynamic = None \<rparr>, open_line [])"
    by (simp add: receive_open_conn_def open_stream_def open_line_def)
  have "control_frame (open_response_codec byte_codecs) OpenOk = Some [1, 0, 0, 0, 1]"
    by (simp add: control_frame_def byte_codecs_def le_bytes_1 max_control_msg_def)
  from ctl.send_frame [OF this, of "open_line []"]
  show "reply_open_conn byte_codecs OpenOk (open_line []) =
    (Inr (), (open_line [])\<lparr>outb := [1, 0, 0, 0, 1], wleft := 95\<rparr>)"
    by (simp add: reply_open_conn_def open_line_def)
qed

lemma two_clients_tunnel:
  "tunnel two_clients 1 = Some (declared 1 1 6 tcp_req)"
  by (simp add: two_clients_def tunnel_def declared_def demo_defs)

theorem open_conn_crosses_clients_witness:
  "\<exists>g st'. session_step demo_policy 7 (Streamed open_stream) two_clients (session_new 2 demo_addr Serving) =
      (st', (session_new 2 demo_addr Serving)\<lparr>tasks := [g]\<rparr>) \<and>
    cn_client_id (conn_heap st' ! snd g) \<noteq> 2"
  using open_conn_crosses_clients [OF reach_wf [OF two_clients_reach], of "session_new 2 demo_addr Serving" 1
      "declared 1 1 6 tcp_req" "host_port_new ''example.org'' 80" demo_policy open_stream "open_line []"
      "(open_line [])\<lparr>outb := [1, 0, 0, 0, 1], wleft := 95\<rparr>" 7]
    open_stream_run two_clients_tunnel
  by (auto simp: session_new_def declared_def demo_policy_def tcp_req_def remote_request_new_def)

theorem handle_open_conn_exact_witness:
  "\<exists>d g st' c'. handle_open_conn byte_codecs 7 open_stream two_clients = (Inr (d, g), st', c') \<and>
     peer_label d = Some (to_addr_string (host_port_new ''example.org'' 80))"
proof -
  have t: "conn_target (tn_kind (declared 1 1 6 tcp_req)) None = Some (host_port_new ''example.org'' 80)"
    "tn_direction (declared 1 1 6 tcp_req) = Forward"
    by (simp_all add: declared_def tcp_req_def remote_request_new_def)
  from handle_open_conn_exact [OF reach_wf [OF two_clients_reach] open_stream_run(1,2), of 7]
  show ?thesis using t two_clients_tunnel by (auto split: prod.splits sum.splits)
qed

text \<open>Two connections arrive at a server that allows one; the first becomes a session.\<close>

definition demo_events :: "(nat \<times> server_event) list" where
  "demo_events = [(1, Incoming demo_addr), (2, Incoming demo_addr), (3, InSession 0 Connected)]"

definition demo_server :: server where
  "demo_server = server_run demo_policy demo_events (server_new 0 demo_addr (Some 1))"

lemma demo_events_run:
  "sessions demo_server =
    [(session_new 1 demo_addr Connecting)\<lparr>sess_phase := AwaitingHello\<rparr>, session_new 2 demo_addr Over]"
  "tunnel_heap (reg demo_server) = []"
  "conn_heap (reg demo_server) = []"
  by (simp_all add: demo_server_def server_run_def demo_events_def server_new_def server_step_def accept_connection_def
      session_step_def session_connected_def session_new_def register_client_def server_state_new_def Let_def)

theorem max_connections_respected_witness:
  "live_sessions demo_server = 1 \<and>
   permits demo_server = Some 0"
  using max_connections_respected [of demo_policy demo_events 0 demo_addr 1, folded demo_server_def]
  by (simp add: Let_def within_ids_def demo_events_run live_sessions_def session_new_def)

theorem server_run_safe_witness:
  "wf_state (reg demo_server) \<and>
   client (reg demo_server) 2 = None"
  using server_run_safe [of demo_policy demo_events 0 demo_addr "Some 1", folded demo_server_def]
  by (simp add: Let_def within_ids_def demo_events_run session_new_def)


end
