(* ===== verification/Flow_Table.thy ===== *)
theory Flow_Table
  imports Rusnel_Prelude "HOL-Library.Sublist"
begin

text \<open>
  The table of conns that the UDP receive loops keep: the forward UDP listener
  (\<^verbatim>\<open>src/src/common/udp.rs\<close>, keyed by source) and the SOCKS5 UDP relay
  (\<^verbatim>\<open>src/src/common/socks.rs\<close>, keyed by source and target) have the same loop over a
  \<^verbatim>\<open>DashMap\<close> of channel senders and the same life of the spawned task. It is modelled once,
  over the type of keys, as a state machine over the events of the loop and of the tasks in
  any order. A flow keeps what its task has taken from the channel beside what is queued.
\<close>

section \<open>State\<close>

text \<open>A task runs, then its receiver is gone, then it has removed its table entry.\<close>

datatype phase = Running | Ended | Removed

record 'k flow =
  flow_key :: 'k
  queue :: "bytes list"
  taken :: "bytes list"
  phase :: phase

record 'k flow_table =
  conns :: "'k \<rightharpoonup> nat"
  flows :: "'k flow list"

definition flow_table_init :: "'k flow_table" where
  "flow_table_init = \<lparr> conns = Map.empty, flows = [] \<rparr>"

section \<open>Operations\<close>

text \<open>A sender is the index of its flow; the channel is closed once the receiver is gone.\<close>

definition is_closed :: "'k flow_table \<Rightarrow> nat \<Rightarrow> bool" where
  "is_closed st tx = (\<not> (tx < length (flows st) \<and> phase (flows st ! tx) = Running))"

definition update_flow :: "nat \<Rightarrow> ('k flow \<Rightarrow> 'k flow) \<Rightarrow> 'k flow_table \<Rightarrow> 'k flow_table" where
  "update_flow i f st = st\<lparr>flows := (flows st)[i := f (flows st ! i)]\<rparr>"

definition try_send :: "nat \<Rightarrow> nat \<Rightarrow> bytes \<Rightarrow> 'k flow_table \<Rightarrow> 'k flow_table" where
  "try_send capacity tx payload st =
     (if is_closed st tx \<or> capacity \<le> length (queue (flows st ! tx)) then st
      else update_flow tx (\<lambda>fl. fl\<lparr>queue := queue fl @ [payload]\<rparr>) st)"

definition spawn_flow :: "'k \<Rightarrow> 'k flow_table \<Rightarrow> nat \<times> 'k flow_table" where
  "spawn_flow k st =
     (length (flows st),
      st\<lparr>conns := (conns st)(k \<mapsto> length (flows st)),
        flows := flows st @ [\<lparr> flow_key = k, queue = [], taken = [], phase = Running \<rparr>]\<rparr>)"

text \<open>One turn of the receive loop: look the conn up, drop the entry if its channel is
  closed, open a new conn if there is none, and offer the payload to the channel.\<close>

definition flow_datagram :: "nat \<Rightarrow> 'k \<Rightarrow> bytes \<Rightarrow> 'k flow_table \<Rightarrow> 'k flow_table" where
  "flow_datagram capacity k payload st =
     (let existing = conns st k;
          (existing, st) =
            (case existing of
               Some tx \<Rightarrow>
                 if is_closed st tx then (None, st\<lparr>conns := (conns st)(k := None)\<rparr>) else (Some tx, st)
             | None \<Rightarrow> (None, st));
          (sender, st) = (case existing of Some tx \<Rightarrow> (tx, st) | None \<Rightarrow> spawn_flow k st)
      in try_send capacity sender payload st)"

text \<open>The task of a conn: it takes the next queued payload, ends (dropping its receiver),
  and later removes the entry of its key.\<close>

definition flow_take :: "nat \<Rightarrow> 'k flow_table \<Rightarrow> 'k flow_table" where
  "flow_take i st =
     (if is_closed st i then st
      else (case queue (flows st ! i) of
              [] \<Rightarrow> st
            | p # ps \<Rightarrow> update_flow i (\<lambda>fl. fl\<lparr>queue := ps, taken := taken fl @ [p]\<rparr>) st))"

definition flow_end :: "nat \<Rightarrow> 'k flow_table \<Rightarrow> 'k flow_table" where
  "flow_end i st =
     (if i < length (flows st) \<and> phase (flows st ! i) = Running
      then update_flow i (\<lambda>fl. fl\<lparr>phase := Ended\<rparr>) st else st)"

definition flow_cleanup :: "nat \<Rightarrow> 'k flow_table \<Rightarrow> 'k flow_table" where
  "flow_cleanup i st =
     (if i < length (flows st) \<and> phase (flows st ! i) = Ended
      then update_flow i (\<lambda>fl. fl\<lparr>phase := Removed\<rparr>)
             (st\<lparr>conns := (conns st)(flow_key (flows st ! i) := None)\<rparr>)
      else st)"

datatype 'k flow_event =
  Arrive 'k bytes
| Take nat
| End nat
| Cleanup nat

fun flow_step :: "nat \<Rightarrow> 'k flow_event \<Rightarrow> 'k flow_table \<Rightarrow> 'k flow_table" where
  "flow_step capacity (Arrive k p) st = flow_datagram capacity k p st"
| "flow_step capacity (Take i) st = flow_take i st"
| "flow_step capacity (End i) st = flow_end i st"
| "flow_step capacity (Cleanup i) st = flow_cleanup i st"

definition flow_run :: "nat \<Rightarrow> 'k flow_event list \<Rightarrow> 'k flow_table" where
  "flow_run capacity evs = fold (flow_step capacity) evs flow_table_init"

section \<open>Isolation of the flows\<close>

definition arrivals :: "'k \<Rightarrow> 'k flow_event list \<Rightarrow> bytes list" where
  "arrivals a evs =
     concat (map (\<lambda>e. case e of Arrive k p \<Rightarrow> if k = a then [p] else [] | _ \<Rightarrow> []) evs)"

lemma arrivals_snoc [simp]:
  "arrivals a (evs @ [e]) = arrivals a evs @
     (case e of Arrive k p \<Rightarrow> if k = a then [p] else [] | _ \<Rightarrow> [])"
  by (simp add: arrivals_def)

text \<open>Of one flow: its payloads came in for its key, in order of arrival, and its queue
  is within the capacity. Of the table: an entry names a flow of its key.\<close>

definition flow_ok :: "nat \<Rightarrow> 'k flow_event list \<Rightarrow> 'k flow \<Rightarrow> bool" where
  "flow_ok n evs fl \<longleftrightarrow> subseq (taken fl @ queue fl) (arrivals (flow_key fl) evs) \<and>
     length (queue fl) \<le> n"

definition table_ok :: "'k flow_table \<Rightarrow> bool" where
  "table_ok st \<longleftrightarrow> (\<forall>k i. conns st k = Some i \<longrightarrow>
     i < length (flows st) \<and> flow_key (flows st ! i) = k)"

definition flows_ok :: "nat \<Rightarrow> 'k flow_event list \<Rightarrow> 'k flow_table \<Rightarrow> bool" where
  "flows_ok n evs st \<longleftrightarrow> table_ok st \<and> (\<forall>fl\<in>set (flows st). flow_ok n evs fl)"

lemma flow_ok_later: "flow_ok n evs fl \<Longrightarrow> flow_ok n (evs @ [e]) fl"
  by (auto simp: flow_ok_def intro: list_emb_append2 subseq_order.trans split: flow_event.split)

lemma flows_ok_later: "flows_ok n evs st \<Longrightarrow> flows_ok n (evs @ [e]) st"
  by (auto simp: flows_ok_def intro: flow_ok_later)

lemma flows_ok_update:
  assumes "flows_ok n evs st" "i < length (flows st) \<Longrightarrow> flow_ok n evs (flows st ! i) \<Longrightarrow> flow_ok n evs (f (flows st ! i))"
    and "\<And>fl. flow_key (f fl) = flow_key fl"
  shows "flows_ok n evs (update_flow i f st)"
proof -
  have "table_ok (update_flow i f st)"
    using assms(1,3)
    by (cases "i < length (flows st)") (auto simp: flows_ok_def table_ok_def update_flow_def nth_list_update list_update_beyond)
  moreover have "\<forall>fl\<in>set (flows (update_flow i f st)). flow_ok n evs fl"
  proof (cases "i < length (flows st)")
    case True
    with assms show ?thesis
      by (auto simp: flows_ok_def update_flow_def dest!: set_update_subset_insert [THEN subsetD])
  qed (use assms in \<open>simp add: flows_ok_def update_flow_def list_update_beyond\<close>)
  ultimately show ?thesis by (simp add: flows_ok_def)
qed

lemma flows_ok_remove: "flows_ok n evs st \<Longrightarrow> flows_ok n evs (st\<lparr>conns := (conns st)(k := None)\<rparr>)"
  by (auto simp: flows_ok_def table_ok_def)

lemma flows_ok_spawn:
  "flows_ok n evs st \<Longrightarrow> flows_ok n evs (snd (spawn_flow k st))"
  by (auto simp: flows_ok_def table_ok_def flow_ok_def spawn_flow_def nth_append intro: less_SucI)

lemma flows_ok_try_send:
  assumes "flows_ok n evs st" "tx < length (flows st)" "flow_key (flows st ! tx) = k"
  shows "flows_ok n (evs @ [Arrive k p]) (try_send n tx p st)"
proof (cases "is_closed st tx \<or> n \<le> length (queue (flows st ! tx))")
  case False
  have "flow_ok n evs (flows st ! tx)" using assms(1,2) by (simp add: flows_ok_def)
  with False assms(3) have "flow_ok n (evs @ [Arrive k p])
      ((flows st ! tx)\<lparr>queue := queue (flows st ! tx) @ [p]\<rparr>)"
    using list_emb_append_mono [of "(=)" "taken (flows st ! tx) @ queue (flows st ! tx)" "arrivals k evs"
        "[p]" "[p]"]
    by (auto simp: flow_ok_def)
  with False show ?thesis
    using flows_ok_later [OF assms(1)]
    by (auto simp: try_send_def intro!: flows_ok_update)
qed (use assms flows_ok_later in \<open>simp add: try_send_def\<close>)

lemma flows_ok_datagram:
  assumes "flows_ok n evs st"
  shows "flows_ok n (evs @ [Arrive k p]) (flow_datagram n k p st)"
proof -
  have spawn: "flows_ok n (evs @ [Arrive k p])
      (try_send n (fst (spawn_flow k st')) p (snd (spawn_flow k st')))"
    if "flows_ok n evs st'" for st'
    by (rule flows_ok_try_send) (use that flows_ok_spawn in \<open>auto simp: spawn_flow_def\<close>)
  show ?thesis
  proof (cases "conns st k")
    case None
    with spawn [OF assms] show ?thesis by (simp add: flow_datagram_def case_prod_beta)
  next
    case (Some tx)
    with assms have "tx < length (flows st)" "flow_key (flows st ! tx) = k"
      by (auto simp: flows_ok_def table_ok_def)
    with Some assms spawn [OF flows_ok_remove [OF assms]] show ?thesis
      by (cases "is_closed st tx")
        (simp_all add: flow_datagram_def flows_ok_try_send case_prod_beta Let_def)
  qed
qed

lemma flows_ok_step: "flows_ok n evs st \<Longrightarrow> flows_ok n (evs @ [e]) (flow_step n e st)"
proof (cases e)
  case (Take i)
  assume "flows_ok n evs st"
  then have "flows_ok n (evs @ [e]) st" by (rule flows_ok_later)
  with Take show ?thesis
    by (auto simp: flow_take_def flow_ok_def intro!: flows_ok_update split: list.split)
next
  case (End i)
  assume "flows_ok n evs st"
  then have "flows_ok n (evs @ [e]) st" by (rule flows_ok_later)
  with End show ?thesis by (auto simp: flow_end_def flow_ok_def intro!: flows_ok_update)
next
  case (Cleanup i)
  assume "flows_ok n evs st"
  then have "flows_ok n (evs @ [e]) st" by (rule flows_ok_later)
  with Cleanup show ?thesis
    by (auto simp: flow_cleanup_def flow_ok_def intro!: flows_ok_update flows_ok_remove)
qed (simp add: flows_ok_datagram)

lemma flows_ok_run: "flows_ok n evs (flow_run n evs)"
proof (induction evs rule: rev_induct)
  case Nil
  then show ?case by (simp add: flow_run_def flow_table_init_def flows_ok_def table_ok_def)
next
  case (snoc e evs)
  then show ?case using flows_ok_step by (simp add: flow_run_def)
qed


lemma flow_isolation:
  assumes "i < length (flows (flow_run n evs))"
  shows "subseq (taken (flows (flow_run n evs) ! i) @ queue (flows (flow_run n evs) ! i))
      (arrivals (flow_key (flows (flow_run n evs) ! i)) evs)"
    and "length (queue (flows (flow_run n evs) ! i)) \<le> n"
  using flows_ok_run [of n evs] assms by (simp_all add: flows_ok_def flow_ok_def)

lemmas flow_run_simps = flow_run_def flow_table_init_def flow_datagram_def spawn_flow_def
  try_send_def is_closed_def update_flow_def flow_end_def flow_cleanup_def flow_take_def Let_def

end
