(* ===== verification/Udp.thy ===== *)
theory Udp
  imports Framing Counted Flow_Table
begin

text \<open>
  UDP tunnels (\<^verbatim>\<open>src/src/common/udp.rs\<close>): the two pumps between a UDP socket and a QUIC
  stream, the server end of a UDP conn, and the client's table of per-source conns.

  A socket is the list of datagrams it still delivers before it reports an error and the
  number of sends it accepts. The per-source table is the one of \<^verbatim>\<open>Flow_Table\<close> with the
  source address as key.
\<close>

section \<open>Pumps\<close>

definition max_datagram :: nat where
  "max_datagram = 65535"

datatype udp_error =
  UdpRecvFailed
| UdpSendFailed
| UdpFrame datagram_error
| NoHostPort
| TargetParseFailed

definition count_out :: "nat \<Rightarrow> counters option \<Rightarrow> counters option" where
  "count_out n cs = map_option (add_out (word_of_nat n)) cs"

definition count_in :: "nat \<Rightarrow> counters option \<Rightarrow> counters option" where
  "count_in n cs = map_option (add_in (word_of_nat n)) cs"

fun pump_socket_to_stream ::
  "socket_addr \<Rightarrow> (socket_addr \<times> bytes) list \<Rightarrow> counters option \<Rightarrow> conn \<Rightarrow>
   udp_error \<times> counters option \<times> conn" where
  "pump_socket_to_stream udp_address [] cs c = (UdpRecvFailed, cs, c)"
| "pump_socket_to_stream udp_address ((received_addr, datagram) # rest) cs c =
     (let buf = take max_datagram datagram in
      if received_addr \<noteq> udp_address then pump_socket_to_stream udp_address rest cs c
      else
        (case write_datagram buf c of
           (Inl e, c') \<Rightarrow> (UdpFrame e, cs, c')
         | (Inr _, c') \<Rightarrow>
             pump_socket_to_stream udp_address rest (count_out (length buf) cs) c'))"

lemma read_datagram_consumes:
  "read_datagram n c = (Inr p, c') \<Longrightarrow> length (inb c') < length (inb c)"
  by (auto simp: read_datagram_def io_bind_def io_lift_def io_err_def read_exact_def Let_def
      split: if_splits)

function pump_stream_to_socket ::
  "socket_addr \<Rightarrow> nat \<Rightarrow> counters option \<Rightarrow> conn \<Rightarrow>
   udp_error \<times> (bytes \<times> socket_addr) list \<times> counters option \<times> conn" where
  "pump_stream_to_socket udp_address sends cs c =
     (case read_datagram max_datagram c of
        (Inl e, c') \<Rightarrow> (UdpFrame e, [], cs, c')
      | (Inr payload, c') \<Rightarrow>
          (case sends of
             0 \<Rightarrow> (UdpSendFailed, [], cs, c')
           | Suc k \<Rightarrow>
               (case pump_stream_to_socket udp_address k (count_in (length payload) cs) c' of
                  (e, sent, r) \<Rightarrow> (e, (payload, udp_address) # sent, r))))"
  by pat_completeness auto
termination
  by (relation "measure (\<lambda>(_, _, _, c). length (inb c))") (auto dest: read_datagram_consumes [OF sym])

declare pump_stream_to_socket.simps [simp del]

section \<open>The server end\<close>

text \<open>The target of a UDP conn on the server and the address its socket is bound to.\<close>

definition tunnel_udp_server_target :: "remote_request \<Rightarrow> udp_error + socket_addr \<times> string" where
  "tunnel_udp_server_target request =
     and_then (ok_or NoHostPort (remote_addr_string request)) (\<lambda>s.
     and_then (ok_or TargetParseFailed (parse_socket_addr s)) (\<lambda>remote_addr.
     let bind_addr = (if is_ipv6 remote_addr then ''[::]:0'' else ''0.0.0.0:0'') in
     Inr (remote_addr, bind_addr)))"

section \<open>The client's table of conns\<close>

definition conn_channel_capacity :: nat where
  "conn_channel_capacity = 4096"

text \<open>One turn of the receive loop of \<^verbatim>\<open>tunnel_udp_client\<close> on a datagram, and the life of the
  task \<^verbatim>\<open>spawn_udp_conn\<close> starts, over the table keyed by the source address.\<close>

definition client_datagram :: "socket_addr \<Rightarrow> bytes \<Rightarrow> socket_addr flow_table \<Rightarrow> socket_addr flow_table" where
  "client_datagram src datagram = flow_datagram conn_channel_capacity src (take max_datagram datagram)"

fun udp_step :: "socket_addr flow_event \<Rightarrow> socket_addr flow_table \<Rightarrow> socket_addr flow_table" where
  "udp_step (Arrive src datagram) st = client_datagram src datagram st"
| "udp_step (Take i) st = flow_take i st"
| "udp_step (End i) st = flow_end i st"
| "udp_step (Cleanup i) st = flow_cleanup i st"

definition udp_run :: "socket_addr flow_event list \<Rightarrow> socket_addr flow_table" where
  "udp_run evs = fold udp_step evs flow_table_init"

section \<open>What the pumps deliver\<close>

definition payloads_from :: "socket_addr \<Rightarrow> (socket_addr \<times> bytes) list \<Rightarrow> bytes list" where
  "payloads_from a ds = map (\<lambda>(_, p). take max_datagram p) (filter (\<lambda>(src, _). src = a) ds)"

lemma payloads_from_simps [simp]:
  "payloads_from a [] = []"
  "payloads_from a ((src, p) # ds) =
     (if src = a then take max_datagram p # payloads_from a ds else payloads_from a ds)"
  by (simp_all add: payloads_from_def)

definition total_len :: "bytes list \<Rightarrow> nat" where
  "total_len ps = sum_list (map length ps)"

lemma total_len_simps [simp]: "total_len [] = 0" "total_len (p # ps) = length p + total_len ps"
  by (simp_all add: total_len_def)

lemma count_in_compose [simp]:
  "count_in n (count_in m cs) = count_in (m + n) cs" "count_in 0 cs = cs"
  by (cases cs; simp add: count_in_def add_in_def; simp add: word_greater_zero_iff add.assoc)+

lemma count_out_compose [simp]:
  "count_out n (count_out m cs) = count_out (m + n) cs" "count_out 0 cs = cs"
  by (cases cs; simp add: count_out_def add_out_def; simp add: word_greater_zero_iff add.assoc)+

lemma datagram_frame_take [simp]:
  "datagram_frame (take max_datagram p)
   = Some (le_bytes 2 (length (take max_datagram p)) @ take max_datagram p)"
  by (simp add: datagram_frame_def max_datagram_def)

lemma frames_payloads: "\<exists>g. dgram.frames (payloads_from a ds) = Some g"
proof (induction ds)
  case (Cons d ds)
  then show ?case
    by (cases d) auto
qed simp

lemma pump_socket_frames:
  assumes "dgram.frames (payloads_from a ds) = Some g" "\<not> fin c" "length g \<le> wleft c"
  shows "pump_socket_to_stream a ds cs c =
    (UdpRecvFailed, count_out (total_len (payloads_from a ds)) cs,
     c\<lparr>outb := outb c @ g, wleft := wleft c - length g\<rparr>)"
  using assms
proof (induction ds arbitrary: g cs c)
  case (Cons d ds)
  obtain src p where d: "d = (src, p)" by (cases d)
  show ?case
  proof (cases "src = a")
    case True
    with Cons.prems d obtain f fs where f: "datagram_frame (take max_datagram p) = Some f"
        "dgram.frames (payloads_from a ds) = Some fs" "g = f @ fs"
      by (auto simp: dgram.frames_Cons simp del: dgram.frames.simps)
    with Cons.prems have "write_datagram (take max_datagram p) c
        = (Inr (), c\<lparr>outb := outb c @ f, wleft := wleft c - length f\<rparr>)"
      by (intro dgram.send_frame) auto
    with True d f Cons.prems Cons.IH [OF f(2)] show ?thesis by (simp add: Let_def)
  qed (use d Cons in simp)
qed simp

lemma pump_stream_frames:
  assumes "dgram.frames ps = Some g" "inb c = g" "length ps \<le> sends"
  shows "\<exists>e. pump_stream_to_socket a sends cs c =
    (e, map (\<lambda>p. (p, a)) ps, count_in (total_len ps) cs, c\<lparr>inb := []\<rparr>)"
  using assms
proof (induction ps arbitrary: g sends cs c)
  case Nil
  then show ?case
    using dgram.receive_eof [of c]
    by (auto simp: pump_stream_to_socket.simps [of a sends cs c] max_datagram_def)
next
  case (Cons p ps)
  from Cons.prems(1) obtain f fs where f: "datagram_frame p = Some f" "dgram.frames ps = Some fs" "g = f @ fs"
    by (auto simp: dgram.frames_Cons simp del: dgram.frames.simps)
  with Cons.prems have r: "read_datagram 65535 c = (Inr p, c\<lparr>inb := fs\<rparr>)"
    by (intro dgram.receive_frame) auto
  obtain k where k: "sends = Suc k" "length ps \<le> k" using Cons.prems(3) by (cases sends) auto
  from Cons.IH [OF f(2) _ k(2), of "c\<lparr>inb := fs\<rparr>" "count_in (length p) cs"] obtain e where
    "pump_stream_to_socket a k (count_in (length p) cs) (c\<lparr>inb := fs\<rparr>)
      = (e, map (\<lambda>p. (p, a)) ps, count_in (total_len ps) (count_in (length p) cs), c\<lparr>inb := []\<rparr>)"
    by auto
  with r k show ?case
    by (auto simp: pump_stream_to_socket.simps [of a "Suc k" cs c] max_datagram_def)
qed

lemma datagram_frame_Some:
  "datagram_frame p = Some f \<longleftrightarrow> length p \<le> 65535 \<and> f = le_bytes 2 (length p) @ p"
  by (auto simp: datagram_frame_def)

lemma frames_length: "dgram.frames ps = Some g \<Longrightarrow> length g = 2 * length ps + total_len ps"
proof (induction ps arbitrary: g)
  case (Cons p ps)
  then obtain f fs where "datagram_frame p = Some f" "dgram.frames ps = Some fs" "g = f @ fs"
    by (auto simp: dgram.frames_Cons simp del: dgram.frames.simps)
  with Cons.IH show ?case by (auto simp: datagram_frame_Some)
qed simp

text \<open>UDP datagrams cross the tunnel as they are: what the two pumps deliver at the far
  socket is the list of datagrams received from the tunnel's peer address, in order, none
  merged, split or lost (zero-length ones included), with datagrams from any other source
  left out; and the bytes the near side counts as sent are the bytes the far side counts
  as received. The stream is assumed to accept the bytes and the far socket the sends.\<close>

theorem udp_pump_end_to_end:
  assumes "pump_socket_to_stream a ds near c = (e, near', c')"
    and "pump_stream_to_socket b sends far (d\<lparr>inb := outb c'\<rparr>) = (e', sent, far', d')"
    and "\<not> fin c" "outb c = []"
    and "2 * length (payloads_from a ds) + total_len (payloads_from a ds) \<le> wleft c"
    and "length (payloads_from a ds) \<le> sends"
  shows "sent = map (\<lambda>p. (p, b)) (payloads_from a ds) \<and>
    near' = count_out (total_len (payloads_from a ds)) near \<and>
    far' = count_in (total_len (payloads_from a ds)) far"
proof -
  obtain g where g: "dgram.frames (payloads_from a ds) = Some g" using frames_payloads by blast
  with assms(3-5) pump_socket_frames [OF g, of c near]
  have "pump_socket_to_stream a ds near c = (UdpRecvFailed,
      count_out (total_len (payloads_from a ds)) near, c\<lparr>outb := g, wleft := wleft c - length g\<rparr>)"
    by (simp add: frames_length)
  with assms(1) have c': "near' = count_out (total_len (payloads_from a ds)) near" "outb c' = g" by auto
  from pump_stream_frames [OF g _ assms(6), of "d\<lparr>inb := outb c'\<rparr>" b far] assms(2) c' show ?thesis
    by auto
qed

definition sample_peer :: socket_addr where
  "sample_peer = SocketAddrV4 (Ipv4 10 0 0 1) 53"

definition sample_other :: socket_addr where
  "sample_other = SocketAddrV4 (Ipv4 10 0 0 2) 53"

definition sample_datagrams :: "(socket_addr \<times> bytes) list" where
  "sample_datagrams = [(sample_peer, [1, 2]), (sample_other, [9]), (sample_peer, []), (sample_peer, [3])]"

theorem udp_pump_end_to_end_witness:
  "let (e, near', c') = pump_socket_to_stream sample_peer sample_datagrams None (open_line []);
       (e', sent, far', d') = pump_stream_to_socket sample_other 5 None ((open_line [])\<lparr>inb := outb c'\<rparr>)
   in sent = [([1, 2], sample_other), ([], sample_other), ([3], sample_other)]"
proof -
  obtain e near' c' where 1: "pump_socket_to_stream sample_peer sample_datagrams None (open_line [])
      = (e, near', c')" by (metis prod_cases3)
  obtain e' sent far' d' where 2:
    "pump_stream_to_socket sample_other 5 None ((open_line [])\<lparr>inb := outb c'\<rparr>) = (e', sent, far', d')"
    by (metis prod_cases4)
  show ?thesis
    using udp_pump_end_to_end [OF 1 2] 1 2
    by (simp add: sample_datagrams_def sample_peer_def sample_other_def open_line_def max_datagram_def)
qed

section \<open>Isolation of the per-source conns\<close>

fun truncated :: "socket_addr flow_event \<Rightarrow> socket_addr flow_event" where
  "truncated (Arrive src datagram) = Arrive src (take max_datagram datagram)"
| "truncated e = e"

lemma udp_run_flow: "udp_run evs = flow_run conn_channel_capacity (map truncated evs)"
proof -
  have "udp_step e st = flow_step conn_channel_capacity (truncated e) st" for e st
    by (cases e) (simp_all add: client_datagram_def)
  then have "udp_step = (\<lambda>e. flow_step conn_channel_capacity (truncated e))" by (intro ext)
  then show ?thesis by (simp add: udp_run_def flow_run_def fold_map comp_def)
qed

text \<open>The datagrams received from a source, as the receive buffer holds them.\<close>

definition received_from :: "socket_addr \<Rightarrow> socket_addr flow_event list \<Rightarrow> bytes list" where
  "received_from a evs =
     concat (map (\<lambda>e. case e of Arrive src p \<Rightarrow> if src = a then [take max_datagram p] else [] | _ \<Rightarrow> []) evs)"

lemma arrivals_truncated: "arrivals a (map truncated evs) = received_from a evs"
proof (induction evs)
  case (Cons e evs)
  then show ?case by (cases e) (simp_all add: arrivals_def received_from_def)
qed (simp add: arrivals_def received_from_def)

text \<open>C31. Per-source isolation of forward UDP: whatever the interleaving of received
  datagrams and task events, the payloads handed to a conn's stream (taken or still
  queued) are a subsequence, in order, of the datagrams received from that conn's own
  source, and no queue exceeds its capacity. Datagrams may be dropped but never reach
  another source's conn.\<close>

theorem udp_flow_isolation:
  assumes "i < length (flows (udp_run evs))"
  shows "subseq (taken (flows (udp_run evs) ! i) @ queue (flows (udp_run evs) ! i))
      (received_from (flow_key (flows (udp_run evs) ! i)) evs) \<and>
    length (queue (flows (udp_run evs) ! i)) \<le> conn_channel_capacity"
  using assms flow_isolation [of i conn_channel_capacity "map truncated evs"]
  by (simp add: udp_run_flow arrivals_truncated)

theorem udp_flow_isolation_witness:
  "let evs = [Arrive sample_peer [1], Arrive sample_other [2], Take 0, Arrive sample_peer [3]] in
   taken (flows (udp_run evs) ! 0) @ queue (flows (udp_run evs) ! 0) = [[1], [3]] \<and>
   subseq [[1], [3]] (received_from sample_peer evs)"
  using udp_flow_isolation [of 0
      "[Arrive sample_peer [1], Arrive sample_other [2], Take 0, Arrive sample_peer [3]]"]
  by (simp add: udp_run_def client_datagram_def flow_run_simps conn_channel_capacity_def
      max_datagram_def sample_peer_def sample_other_def)

text \<open>The removal of a finished conn's entry is not tied to that conn: when a source
  sends again after its conn ended and before the ended task removes the entry, the
  removal deletes the entry of the new, running conn, and the next datagram of that
  source opens yet another one.\<close>

theorem udp_cleanup_race:
  "let st = udp_run [Arrive src p, End 0, Arrive src q, Cleanup 0] in
   conns st src = None \<and> flow_key (flows st ! 1) = src \<and> phase (flows st ! 1) = Running \<and>
   conns (client_datagram src r st) src = Some 2"
  by (simp add: udp_run_def client_datagram_def flow_run_simps conn_channel_capacity_def)

section \<open>Targets of the server end\<close>

lemma parse_socket_addr_name:
  assumes "\<not> is_digit 10 c" "c \<noteq> CHR ''[''"
  shows "parse_socket_addr (c # s) = None"
  using assms read_ipv4_addr_stops [of "c # s"]
  by (simp add: parse_socket_addr_def parse_with_def read_socket_addr_def read_socket_addr_v6_def)

text \<open>For a UDP remote whose host is an IP literal the server end dials exactly that
  address and binds its socket in the same address family.\<close>

theorem udp_server_target_literal:
  assumes "kind r = remote_kind.Udp l \<lparr> host = show_ip a, port = p \<rparr>"
  shows "tunnel_udp_server_target r =
    Inr (sock_new a p, case a of V4 _ \<Rightarrow> ''0.0.0.0:0'' | V6 _ \<Rightarrow> ''[::]:0'')"
  using assms parse_addr_string [of a p]
  by (cases a) (simp_all add: tunnel_udp_server_target_def remote_addr_string_def)

theorem udp_server_target_literal_witness:
  "tunnel_udp_server_target
     (remote_request_new Forward (remote_kind.Udp sample_peer \<lparr> host = show_ip (V4 (Ipv4 8 8 8 8)), port = 53 \<rparr>))
   = Inr (SocketAddrV4 (Ipv4 8 8 8 8) 53, ''0.0.0.0:0'')"
  using udp_server_target_literal [of "remote_request_new Forward
      (remote_kind.Udp sample_peer \<lparr> host = show_ip (V4 (Ipv4 8 8 8 8)), port = 53 \<rparr>)"
      sample_peer "V4 (Ipv4 8 8 8 8)" 53]
  by (simp add: remote_request_new_def)

text \<open>A UDP remote with a host name does not work: the server end parses the target as a
  socket address and never resolves it, so every host that starts like a name (neither a
  digit nor a bracket, and not an IPv6 literal) fails, although \<^verbatim>\<open>HostPort\<close> documents that
  names survive to the actual connect.\<close>

theorem udp_server_target_name_fails:
  assumes "kind r = remote_kind.Udp l \<lparr> host = c # s, port = p \<rparr>"
    and "\<not> is_digit 10 c" "c \<noteq> CHR ''[''" "parse_ipv6 (c # s) = None"
  shows "tunnel_udp_server_target r = Inl TargetParseFailed"
  using assms by (simp add: tunnel_udp_server_target_def remote_addr_string_def to_addr_string_def
      parse_socket_addr_name)

lemma localhost_not_ipv6: "parse_ipv6 ''localhost'' = None"
proof -
  have "read_groups 0 8 ''localhost'' = ([], False, ''localhost'')"
    by (rule read_groups_end) (simp_all add: ends_groups_def no_dot_def is_digit_def to_digit_def)
  then show ?thesis by (simp add: parse_ipv6_def parse_with_def read_ipv6_addr_def)
qed

theorem udp_server_target_name_fails_witness:
  "tunnel_udp_server_target
     (remote_request_new Forward (remote_kind.Udp sample_peer \<lparr> host = ''localhost'', port = 53 \<rparr>))
   = Inl TargetParseFailed"
  using udp_server_target_name_fails [of "remote_request_new Forward
      (remote_kind.Udp sample_peer \<lparr> host = ''localhost'', port = 53 \<rparr>)" sample_peer
      "CHR ''l''" "''ocalhost''" 53]
  by (simp add: remote_request_new_def localhost_not_ipv6 is_digit_def to_digit_def)

end
