(* ===== verification/Socks.thy ===== *)
theory Socks
  imports Udp
begin

text \<open>
  The SOCKS5 front end (\<^verbatim>\<open>src/src/common/socks.rs\<close>): the handshake on the accepted TCP
  connection, the CONNECT path, and the UDP ASSOCIATE relay with its per-datagram header.
  Indexing and slicing of buffers are checked: an out-of-range access is \<^verbatim>\<open>Panic\<close>.

  The handshake is characterised by the byte strings it accepts, the header parser and
  writer are inverse to each other, and the relay's table is the one of \<^verbatim>\<open>Flow_Table\<close> keyed
  by source and target.
\<close>

section \<open>Handshake\<close>

datatype socks_request =
  Connect host_port
| UdpAssociate

datatype socks_error =
  SocksIo io_error
| UnsupportedVersion u8
| UnsupportedCommand u8
| UnsupportedAddressType u8

abbreviation socks_read :: "nat \<Rightarrow> conn \<Rightarrow> (socks_error + bytes) \<times> conn" where
  "socks_read n \<equiv> io_lift SocksIo (read_exact n)"

abbreviation socks_write :: "bytes \<Rightarrow> conn \<Rightarrow> (socks_error + unit) \<times> conn" where
  "socks_write bs \<equiv> io_lift SocksIo (write_all bs)"

definition ipv4_from :: "bytes \<Rightarrow> ipv4" where
  "ipv4_from bs = Ipv4 (bs ! 0) (bs ! 1) (bs ! 2) (bs ! 3)"

definition port_from :: "bytes \<Rightarrow> u16" where
  "port_from bs = from_be_bytes16 (bs ! 0) (bs ! 1)"

definition read_socks_addr :: "u8 \<Rightarrow> conn \<Rightarrow> (socks_error + host_port) \<times> conn" where
  "read_socks_addr atyp =
     (if atyp = 1 then
        io_bind (socks_read 4) (\<lambda>addr.
        io_bind (socks_read 2) (\<lambda>p.
        io_ok (host_port_new (show_ipv4 (ipv4_from addr)) (port_from p))))
      else if atyp = 3 then
        io_bind (socks_read 1) (\<lambda>len.
        io_bind (socks_read (unat (len ! 0))) (\<lambda>domain.
        io_bind (socks_read 2) (\<lambda>p.
        io_ok (host_port_new (from_utf8_lossy domain) (port_from p)))))
      else if atyp = 4 then
        io_bind (socks_read 16) (\<lambda>addr.
        io_bind (socks_read 2) (\<lambda>p.
        io_ok (host_port_new (show_ipv6 (of_octets6 addr)) (port_from p))))
      else
        io_bind (socks_write [5, 8]) (\<lambda>_. io_err (UnsupportedAddressType atyp)))"

definition socks_handshake :: "conn \<Rightarrow> (socks_error + socks_request) \<times> conn" where
  "socks_handshake =
     io_bind (socks_read 2) (\<lambda>buf.
     if buf ! 0 \<noteq> 5 then io_err (UnsupportedVersion (buf ! 0))
     else
       io_bind (socks_read (unat (buf ! 1))) (\<lambda>_.
       io_bind (socks_write [5, 0]) (\<lambda>_.
       io_bind (socks_read 4) (\<lambda>req.
       let cmd = req ! 1; atyp = req ! 3 in
       io_bind (read_socks_addr atyp) (\<lambda>target.
       if cmd = 1 then io_ok (Connect target)
       else if cmd = 3 then io_ok UdpAssociate
       else io_bind (socks_write [5, 7]) (\<lambda>_. io_err (UnsupportedCommand cmd)))))))"

text \<open>The CONNECT path: the conn is opened on the QUIC stream \<^verbatim>\<open>q\<close> first, and only then is
  success reported on the SOCKS connection \<^verbatim>\<open>s\<close>; the byte pump that follows takes over both.\<close>

datatype connect_error =
  OpenConnFailed control_error
| ReplyFailed io_error

definition start_client_dynamic_tunnel ::
  "codecs \<Rightarrow> u64 \<Rightarrow> host_port \<Rightarrow> conn \<Rightarrow> conn \<Rightarrow> (connect_error + unit) \<times> conn \<times> conn" where
  "start_client_dynamic_tunnel cs tid target q s =
     (case send_open_conn cs \<lparr> tunnel_id = tid, dynamic = Some (DynTcp target) \<rparr> q of
        (Inl e, q') \<Rightarrow> (Inl (OpenConnFailed e), q', s)
      | (Inr _, q') \<Rightarrow>
          (case write_all [5, 0, 0, 1, 0, 0, 0, 0, 0, 0] s of
             (Inl e, s') \<Rightarrow> (Inl (ReplyFailed e), q', s')
           | (Inr _, s') \<Rightarrow> (Inr (), q', s')))"

section \<open>UDP ASSOCIATE\<close>

definition socks_max_datagram :: nat where
  "socks_max_datagram = 65535"

definition socks_udp_channel_capacity :: nat where
  "socks_udp_channel_capacity = 4096"

definition udp_associate_bind_addr :: "remote_request \<Rightarrow> socket_addr" where
  "udp_associate_bind_addr original_remote = sock_new (sock_ip (local_socket_addr original_remote)) 0"

definition udp_associate_reply :: "socket_addr \<Rightarrow> bytes" where
  "udp_associate_reply addr =
     [5, 0, 0] @
     (case sock_ip addr of
        V4 v4 \<Rightarrow> [1] @ octets4 v4
      | V6 v6 \<Rightarrow> [4] @ octets6 v6) @
     be_bytes16 (sock_port addr)"

definition write_socks_udp_associate_reply :: "socket_addr \<Rightarrow> conn \<Rightarrow> (io_error + unit) \<times> conn" where
  "write_socks_udp_associate_reply addr = write_all (udp_associate_reply addr)"

datatype header_error =
  HeaderTooShort
| Fragmented
| TruncatedV4
| TruncatedV6
| TruncatedDomain
| UnknownAtyp u8
| Panic

definition byte_at :: "bytes \<Rightarrow> nat \<Rightarrow> header_error + u8" where
  "byte_at buf i = ok_or Panic (index_opt buf i)"

definition slice :: "bytes \<Rightarrow> nat \<Rightarrow> nat \<Rightarrow> header_error + bytes" where
  "slice buf i j = (if i \<le> j \<and> j \<le> length buf then Inr (take (j - i) (drop i buf)) else Inl Panic)"

definition parse_socks_udp_header :: "bytes \<Rightarrow> header_error + host_port \<times> bytes" where
  "parse_socks_udp_header buf =
     (if length buf < 4 then Inl HeaderTooShort
      else
        and_then (byte_at buf 2) (\<lambda>frag.
        if frag \<noteq> 0 then Inl Fragmented
        else
          and_then (byte_at buf 3) (\<lambda>atyp.
          and_then
            (if atyp = 1 then
               if length buf < 4 + 4 + 2 then Inl TruncatedV4
               else
                 and_then (byte_at buf 4) (\<lambda>a. and_then (byte_at buf 5) (\<lambda>b.
                 and_then (byte_at buf 6) (\<lambda>c. and_then (byte_at buf 7) (\<lambda>d.
                 and_then (byte_at buf 8) (\<lambda>hi. and_then (byte_at buf 9) (\<lambda>lo.
                 Inr (host_port_new (show_ipv4 (Ipv4 a b c d)) (from_be_bytes16 hi lo), 10)))))))
             else if atyp = 4 then
               if length buf < 4 + 16 + 2 then Inl TruncatedV6
               else
                 and_then (slice buf 4 20) (\<lambda>octets.
                 and_then (byte_at buf 20) (\<lambda>hi. and_then (byte_at buf 21) (\<lambda>lo.
                 Inr (host_port_new (show_ipv6 (of_octets6 octets)) (from_be_bytes16 hi lo), 22))))
             else if atyp = 3 then
               if length buf < 5 then Inl TruncatedDomain
               else
                 and_then (byte_at buf 4) (\<lambda>l.
                 let len = unat l in
                 if length buf < 5 + len + 2 then Inl TruncatedDomain
                 else
                   and_then (slice buf 5 (5 + len)) (\<lambda>domain.
                   and_then (byte_at buf (5 + len)) (\<lambda>hi. and_then (byte_at buf (5 + len + 1)) (\<lambda>lo.
                   Inr (host_port_new (from_utf8_lossy domain) (from_be_bytes16 hi lo), 5 + len + 2)))))
             else Inl (UnknownAtyp atyp)) (\<lambda>(target, hdr_len).
          and_then (slice buf hdr_len (length buf)) (\<lambda>payload.
          Inr (target, payload))))))"

definition wrap_socks_udp_reply :: "host_port \<Rightarrow> bytes \<Rightarrow> bytes" where
  "wrap_socks_udp_reply target payload =
     [0, 0, 0] @
     (case parse_ipv4 (host target) of
        Some ip \<Rightarrow> [1] @ octets4 ip
      | None \<Rightarrow>
          (case parse_ipv6 (host target) of
             Some ip \<Rightarrow> [4] @ octets6 ip
           | None \<Rightarrow>
               let bs = as_bytes (host target); len = min (length bs) 255 in
               [3] @ [word_of_nat len] @ take len bs)) @
     be_bytes16 (port target) @ payload"

text \<open>One turn of the relay loop, and the life of the task \<^verbatim>\<open>spawn_socks_udp_conn\<close> starts, over
  the table keyed by source and target.\<close>

type_synonym relay_key = "socket_addr \<times> host_port"

definition relay_datagram ::
  "socket_addr \<Rightarrow> bytes \<Rightarrow> relay_key flow_table \<Rightarrow> relay_key flow_table" where
  "relay_datagram src datagram st =
     (case parse_socks_udp_header (take socks_max_datagram datagram) of
        Inl e \<Rightarrow> st
      | Inr (target, payload) \<Rightarrow> flow_datagram socks_udp_channel_capacity (src, target) payload st)"

datatype relay_event =
  Relay socket_addr bytes
| RelayTake nat
| RelayEnd nat
| RelayCleanup nat

fun relay_step :: "relay_event \<Rightarrow> relay_key flow_table \<Rightarrow> relay_key flow_table" where
  "relay_step (Relay src datagram) st = relay_datagram src datagram st"
| "relay_step (RelayTake i) st = flow_take i st"
| "relay_step (RelayEnd i) st = flow_end i st"
| "relay_step (RelayCleanup i) st = flow_cleanup i st"

definition relay_run :: "relay_event list \<Rightarrow> relay_key flow_table" where
  "relay_run evs = fold relay_step evs flow_table_init"

section \<open>What the handshake accepts\<close>

datatype socks_addr = AddrV4 ipv4 | AddrV6 ipv6 | AddrDomain bytes

fun addr_atyp :: "socks_addr \<Rightarrow> u8" where
  "addr_atyp (AddrV4 _) = 1"
| "addr_atyp (AddrV6 _) = 4"
| "addr_atyp (AddrDomain _) = 3"

fun addr_bytes :: "socks_addr \<Rightarrow> bytes" where
  "addr_bytes (AddrV4 a) = octets4 a"
| "addr_bytes (AddrV6 a) = octets6 a"
| "addr_bytes (AddrDomain d) = word_of_nat (length d) # d"

fun addr_host :: "socks_addr \<Rightarrow> string" where
  "addr_host (AddrV4 a) = show_ipv4 a"
| "addr_host (AddrV6 a) = show_ipv6 a"
| "addr_host (AddrDomain d) = from_utf8_lossy d"

fun addr_ok :: "socks_addr \<Rightarrow> bool" where
  "addr_ok (AddrDomain d) = (length d \<le> 255)"
| "addr_ok _ = True"

definition request_bytes :: "bytes \<Rightarrow> u8 \<Rightarrow> u8 \<Rightarrow> u8 \<Rightarrow> socks_addr \<Rightarrow> u16 \<Rightarrow> bytes" where
  "request_bytes methods ver cmd rsv a p =
     [5, word_of_nat (length methods)] @ methods @ [ver, cmd, rsv, addr_atyp a] @ addr_bytes a @ be_bytes16 p"

lemma read_exact_iff:
  "read_exact n c = (Inr bs, c') \<longleftrightarrow> (\<exists>rest. inb c = bs @ rest \<and> length bs = n \<and> c' = c\<lparr>inb := rest\<rparr>)"
  by (auto simp: read_exact_def) (metis append_take_drop_id)

lemma write_all_iff:
  "bs \<noteq> [] \<Longrightarrow> write_all bs c = (Inr u, c') \<longleftrightarrow>
   \<not> fin c \<and> length bs \<le> wleft c \<and> c' = c\<lparr>outb := outb c @ bs, wleft := wleft c - length bs\<rparr>"
  by (auto simp: write_all_def)

lemma octets4_ipv4_from [simp]: "length bs = 4 \<Longrightarrow> octets4 (ipv4_from bs) = bs"
  by (auto simp: ipv4_from_def numeral_eq_Suc length_Suc_conv)

lemma ipv4_from_octets4 [simp]: "ipv4_from (octets4 a) = a"
  by (cases a) (simp add: ipv4_from_def)

lemma be_bytes16_port_from [simp]: "length bs = 2 \<Longrightarrow> be_bytes16 (port_from bs) = bs"
  by (auto simp: port_from_def numeral_2_eq_2 length_Suc_conv be_bytes16_from_be_bytes16)

lemma port_from_be_bytes16 [simp]: "port_from (be_bytes16 p) = p"
  by (simp add: port_from_def be_bytes16_def)

lemma octets6_of_octets6 [simp]: "length bs = 16 \<Longrightarrow> octets6 (of_octets6 bs) = bs"
proof -
  assume "length bs = 16"
  then have "bs = map (\<lambda>i. bs ! i) [0..<16]" by (metis map_nth)
  also have "\<dots> = concat (map be_bytes16 (map (\<lambda>i. from_be_bytes16 (bs ! (2 * i)) (bs ! (2 * i + 1))) [0..<8]))"
    by (simp add: be_bytes16_from_be_bytes16 upt_rec numeral_eq_Suc)
  also have "\<dots> = octets6 (of_octets6 bs)"
    by (simp add: octets6_def of_octets6_def of_segments_def upt_rec)
  finally show ?thesis by simp
qed

lemma unat_byte_length: "length (d :: bytes) \<le> 255 \<Longrightarrow> unat (word_of_nat (length d) :: u8) = length d"
  by (subst unat_of_nat) simp

lemma io_ok_Inr_iff: "io_ok a c = (Inr b, c') \<longleftrightarrow> b = a \<and> c' = c"
  by (auto simp: io_ok_def)

lemma io_err_Inr_iff: "io_err e c = (Inr b, c') \<longleftrightarrow> False"
  by (auto simp: io_err_def)

lemmas io_Inr_iffs = io_bind_Inr_iff io_lift_Inr_iff io_ok_Inr_iff io_err_Inr_iff read_exact_iff

lemma read_socks_addr_iff:
  "read_socks_addr atyp c = (Inr hp, c') \<longleftrightarrow>
   (\<exists>a p rest. addr_ok a \<and> atyp = addr_atyp a \<and> inb c = addr_bytes a @ be_bytes16 p @ rest \<and>
      hp = \<lparr> host = addr_host a, port = p \<rparr> \<and> c' = c\<lparr>inb := rest\<rparr>)" (is "?l = ?r")
proof
  assume ?r
  then obtain a p rest where a: "addr_ok a" "atyp = addr_atyp a" "inb c = addr_bytes a @ be_bytes16 p @ rest"
      "hp = \<lparr> host = addr_host a, port = p \<rparr>" "c' = c\<lparr>inb := rest\<rparr>" by blast
  then show ?l
    by (cases a) (auto simp: read_socks_addr_def io_bind_def io_lift_def io_ok_def read_exact_def
        host_port_new_def unat_byte_length)
next
  assume ?l
  then consider (v4) "atyp = 1" | (v6) "atyp = 4" | (dom) "atyp = 3"
    by (auto simp: read_socks_addr_def io_Inr_iffs split: if_splits)
  then show ?r
  proof cases
    case v4
    with \<open>?l\<close> obtain bs q rest where "inb c = bs @ q @ rest" "length bs = 4" "length q = 2"
        "hp = host_port_new (show_ipv4 (ipv4_from bs)) (port_from q)" "c' = c\<lparr>inb := rest\<rparr>"
      by (auto simp: read_socks_addr_def io_Inr_iffs)
    with v4 show ?thesis
      by (intro exI [of _ "AddrV4 (ipv4_from bs)"] exI [of _ "port_from q"] exI [of _ rest])
        (simp add: host_port_new_def)
  next
    case v6
    with \<open>?l\<close> obtain bs q rest where "inb c = bs @ q @ rest" "length bs = 16" "length q = 2"
        "hp = host_port_new (show_ipv6 (of_octets6 bs)) (port_from q)" "c' = c\<lparr>inb := rest\<rparr>"
      by (auto simp: read_socks_addr_def io_Inr_iffs)
    with v6 show ?thesis
      by (intro exI [of _ "AddrV6 (of_octets6 bs)"] exI [of _ "port_from q"] exI [of _ rest])
        (simp add: host_port_new_def)
  next
    case dom
    with \<open>?l\<close> obtain l d q rest where "inb c = l @ d @ q @ rest" "length l = 1" "length d = unat (l ! 0)"
        "length q = 2" "hp = host_port_new (from_utf8_lossy d) (port_from q)" "c' = c\<lparr>inb := rest\<rparr>"
      by (auto simp: read_socks_addr_def io_Inr_iffs)
    with dom show ?thesis
      by (intro exI [of _ "AddrDomain d"] exI [of _ "port_from q"] exI [of _ rest])
        (auto simp: host_port_new_def length_Suc_conv)
  qed
qed

definition request_of :: "u8 \<Rightarrow> host_port \<Rightarrow> socks_request option" where
  "request_of cmd hp = (if cmd = 1 then Some (Connect hp) else if cmd = 3 then Some UdpAssociate else None)"

lemma socks_handshake_InrE:
  assumes "socks_handshake c = (Inr req, c')"
  obtains buf methods req4 r hp where
    "inb c = buf @ methods @ req4 @ r" "length buf = 2" "buf ! 0 = 5"
    "length methods = unat (buf ! 1)" "length req4 = 4" "\<not> fin c" "2 \<le> wleft c"
    "read_socks_addr (req4 ! 3) (c\<lparr>outb := outb c @ [5, 0], wleft := wleft c - 2, inb := r\<rparr>) = (Inr hp, c')"
    "request_of (req4 ! 1) hp = Some req"
proof -
  from assms obtain buf r1 where 1: "inb c = buf @ r1" "length buf = 2" "buf ! 0 = 5"
    and k1: "io_bind (socks_read (unat (buf ! 1))) (\<lambda>_. io_bind (socks_write [5, 0]) (\<lambda>_.
       io_bind (socks_read 4) (\<lambda>req.
       let cmd = req ! 1; atyp = req ! 3 in
       io_bind (read_socks_addr atyp) (\<lambda>target.
       if cmd = 1 then io_ok (Connect target)
       else if cmd = 3 then io_ok UdpAssociate
       else io_bind (socks_write [5, 7]) (\<lambda>_. io_err (UnsupportedCommand cmd))))))
      (c\<lparr>inb := r1\<rparr>) = (Inr req, c')"
    unfolding socks_handshake_def
    by (subst (asm) io_bind_Inr_iff) (auto simp: io_lift_Inr_iff read_exact_iff io_err_Inr_iff split: if_splits)
  from k1 obtain methods req4 r where 2: "r1 = methods @ req4 @ r" "length methods = unat (buf ! 1)"
      "length req4 = 4" "\<not> fin c" "2 \<le> wleft c"
    and k2: "io_bind (read_socks_addr (req4 ! 3)) (\<lambda>target.
       if req4 ! 1 = 1 then io_ok (Connect target)
       else if req4 ! 1 = 3 then io_ok UdpAssociate
       else io_bind (socks_write [5, 7]) (\<lambda>_. io_err (UnsupportedCommand (req4 ! 1))))
      (c\<lparr>outb := outb c @ [5, 0], wleft := wleft c - 2, inb := r\<rparr>) = (Inr req, c')"
    by (auto simp: io_bind_Inr_iff [of "socks_read n" for n] io_bind_Inr_iff [of "socks_write [5, 0]"]
        io_lift_Inr_iff read_exact_iff write_all_iff Let_def numeral_2_eq_2 simp del: One_nat_def)
  from k2 obtain hp where
      "read_socks_addr (req4 ! 3) (c\<lparr>outb := outb c @ [5, 0], wleft := wleft c - 2, inb := r\<rparr>) = (Inr hp, c')"
      "request_of (req4 ! 1) hp = Some req"
    by (auto simp: io_Inr_iffs request_of_def split: if_splits)
  with 1 2 that show thesis by simp
qed

lemma socks_handshake_ok:
  assumes "length methods \<le> 255" "addr_ok a" "inb c = request_bytes methods ver cmd rsv a p @ rest"
    and "request_of cmd \<lparr> host = addr_host a, port = p \<rparr> = Some req" "\<not> fin c" "2 \<le> wleft c"
  shows "socks_handshake c = (Inr req, c\<lparr>outb := outb c @ [5, 0], wleft := wleft c - 2, inb := rest\<rparr>)"
proof -
  let ?c1 = "c\<lparr>outb := outb c @ [5, 0], wleft := wleft c - 2, inb := addr_bytes a @ be_bytes16 p @ rest\<rparr>"
  have "read_socks_addr (addr_atyp a) ?c1
      = (Inr \<lparr> host = addr_host a, port = p \<rparr>, ?c1\<lparr>inb := rest\<rparr>)"
    using assms(2) by (auto simp: read_socks_addr_iff)
  with assms show ?thesis
    by (auto simp: socks_handshake_def io_bind_def io_lift_def io_ok_def read_exact_def write_all_def
        request_bytes_def request_of_def unat_byte_length Let_def numeral_2_eq_2 [symmetric] split: if_splits)
qed


section \<open>The UDP datagram header\<close>

lemma byte_at_ok [simp]: "i < length buf \<Longrightarrow> byte_at buf i = Inr (buf ! i)"
  by (simp add: byte_at_def)

lemma slice_ok [simp]: "i \<le> j \<Longrightarrow> j \<le> length buf \<Longrightarrow> slice buf i j = Inr (take (j - i) (drop i buf))"
  by (simp add: slice_def)

text \<open>The datagram parser never indexes or slices out of range: for every datagram a
  SOCKS client can send, of any length and content, it returns a target and payload or one
  of its own errors.\<close>

theorem parse_socks_udp_header_no_panic: "parse_socks_udp_header buf \<noteq> Inl Panic"
  by (auto simp: parse_socks_udp_header_def Let_def)

text \<open>The targets that fit the header: IP literals in their printed form, and names of at
  most 255 bytes that are not IP literals.\<close>

definition header_target :: "host_port \<Rightarrow> bool" where
  "header_target t \<longleftrightarrow>
     (\<exists>a. host t = show_ip a) \<or>
     (parse_ipv4 (host t) = None \<and> parse_ipv6 (host t) = None \<and>
      utf8_valid (as_bytes (host t)) \<and> length (host t) \<le> 255)"

lemma nth_append_right [simp]: "n = length xs \<Longrightarrow> (xs @ y # ys) ! n = y"
  by (simp add: nth_append)

lemma parse_header_v4:
  "parse_socks_udp_header ([r0, r1, 0, 1] @ octets4 a @ be_bytes16 p @ payload)
   = Inr (\<lparr> host = show_ipv4 a, port = p \<rparr>, payload)"
  by (cases a) (simp add: parse_socks_udp_header_def be_bytes16_def host_port_new_def)

lemma parse_header_v6:
  "parse_socks_udp_header ([r0, r1, 0, 4] @ octets6 a @ be_bytes16 p @ payload)
   = Inr (\<lparr> host = show_ipv6 a, port = p \<rparr>, payload)"
proof -
  obtain hi lo where p: "be_bytes16 p = [hi, lo]" "from_be_bytes16 hi lo = p"
    by (simp add: be_bytes16_def)
  have "slice ([r0, r1, 0, 4] @ octets6 a @ hi # lo # payload) 4 20 = Inr (octets6 a)"
    by simp
  moreover have "([r0, r1, 0, 4] @ octets6 a @ hi # lo # payload) ! 20 = hi"
    "([r0, r1, 0, 4] @ octets6 a @ hi # lo # payload) ! 21 = lo"
    by (simp_all add: nth_append nth_Cons')
  ultimately show ?thesis
    using p by (simp add: parse_socks_udp_header_def host_port_new_def)
qed

lemma parse_header_domain:
  assumes "length d \<le> 255"
  shows "parse_socks_udp_header ([r0, r1, 0, 3, word_of_nat (length d)] @ d @ be_bytes16 p @ payload)
   = Inr (\<lparr> host = from_utf8_lossy d, port = p \<rparr>, payload)"
proof -
  obtain hi lo where p: "be_bytes16 p = [hi, lo]" "from_be_bytes16 hi lo = p"
    by (simp add: be_bytes16_def)
  let ?buf = "[r0, r1, 0, 3, word_of_nat (length d)] @ d @ hi # lo # payload"
  have "?buf ! (5 + length d) = hi" "?buf ! (5 + length d + 1) = lo"
    by (simp_all add: nth_append nth_Cons')
  moreover have "slice ?buf 5 (5 + length d) = Inr d" by simp
  moreover have "drop (7 + length d) ?buf = payload" by (simp add: numeral_eq_Suc)
  ultimately show ?thesis
    using p unat_byte_length [OF assms] by (simp add: parse_socks_udp_header_def host_port_new_def Let_def)
qed

text \<open>C30. The reply header of the relay is the inverse of its parser: a reply wrapped for a
  target parses back to that target and payload, for IPv4, IPv6 and domain targets, so a
  SOCKS client reads each reply as coming from the host and port it sent to.\<close>

theorem socks_udp_header_roundtrip:
  assumes "header_target t"
  shows "parse_socks_udp_header (wrap_socks_udp_reply t payload) = Inr (t, payload)"
proof (cases "\<exists>a. host t = show_ip a")
  case True
  then obtain a where a: "host t = show_ip a" by blast
  show ?thesis
  proof (cases a)
    case (V4 x)
    with a parse_header_v4 [of 0 0 x "port t" payload] show ?thesis
      by (cases t) (simp add: wrap_socks_udp_reply_def)
  next
    case (V6 x)
    have "parse_ipv4 (show_ipv6 x) = None"
      using read_ipv4_addr_show_ipv6 [of x] by (simp add: parse_ipv4_def parse_with_def)
    with V6 a parse_header_v6 [of 0 0 x "port t" payload] show ?thesis
      by (cases t) (simp add: wrap_socks_udp_reply_def)
  qed
next
  case False
  with assms have d: "parse_ipv4 (host t) = None" "parse_ipv6 (host t) = None"
      "utf8_valid (as_bytes (host t))" "length (host t) \<le> 255"
    by (auto simp: header_target_def)
  then show ?thesis
    using parse_header_domain [of "as_bytes (host t)" 0 0 "port t" payload]
    by (cases t) (simp add: wrap_socks_udp_reply_def from_utf8_lossy_as_bytes min_absorb1)
qed

lemma localhost_header_target: "header_target \<lparr> host = ''localhost'', port = 53 \<rparr>"
  using localhost_not_ipv6
  by (simp add: header_target_def as_bytes_def utf8_valid_ascii parse_ipv4_def parse_with_def
      read_ipv4_addr_stops is_digit_def to_digit_def)

theorem socks_udp_header_roundtrip_witness:
  "parse_socks_udp_header (wrap_socks_udp_reply \<lparr> host = ''localhost'', port = 53 \<rparr> [1, 2])
   = Inr (\<lparr> host = ''localhost'', port = 53 \<rparr>, [1, 2])"
  by (rule socks_udp_header_roundtrip) (rule localhost_header_target)

section \<open>Isolation in the relay\<close>

fun relay_flow_event :: "relay_event \<Rightarrow> relay_key flow_event option" where
  "relay_flow_event (Relay src datagram) =
     (case parse_socks_udp_header (take socks_max_datagram datagram) of
        Inl e \<Rightarrow> None
      | Inr (target, payload) \<Rightarrow> Some (Arrive (src, target) payload))"
| "relay_flow_event (RelayTake i) = Some (Take i)"
| "relay_flow_event (RelayEnd i) = Some (End i)"
| "relay_flow_event (RelayCleanup i) = Some (Cleanup i)"

lemma relay_run_flow: "relay_run evs = flow_run socks_udp_channel_capacity (List.map_filter relay_flow_event evs)"
proof -
  have step: "relay_step e st =
      (case relay_flow_event e of None \<Rightarrow> st | Some f \<Rightarrow> flow_step socks_udp_channel_capacity f st)" for e st
    by (cases e) (auto simp: relay_datagram_def split: sum.split)
  have "fold relay_step evs st = fold (flow_step socks_udp_channel_capacity) (List.map_filter relay_flow_event evs) st"
    for st
    by (induction evs arbitrary: st) (auto simp: step map_filter_simps split: option.split)
  then show ?thesis by (simp add: relay_run_def flow_run_def)
qed

text \<open>The payloads a source sent to a target: those of its datagrams that parse.\<close>

definition relayed :: "relay_key \<Rightarrow> relay_event list \<Rightarrow> bytes list" where
  "relayed k evs = arrivals k (List.map_filter relay_flow_event evs)"

text \<open>C32. Isolation of the SOCKS5 UDP relay: whatever the interleaving of datagrams and task
  events, the payloads handed to a conn's stream are a subsequence, in order, of the
  payloads its own source sent to its own target. No datagram reaches the stream of another
  source or of another target.\<close>

theorem relay_isolation:
  assumes "i < length (flows (relay_run evs))"
  shows "subseq (taken (flows (relay_run evs) ! i) @ queue (flows (relay_run evs) ! i))
      (relayed (flow_key (flows (relay_run evs) ! i)) evs) \<and>
    length (queue (flows (relay_run evs) ! i)) \<le> socks_udp_channel_capacity"
  using assms flow_isolation [of i socks_udp_channel_capacity "List.map_filter relay_flow_event evs"]
  by (simp add: relay_run_flow relayed_def)

definition sample_relay :: "relay_event list" where
  "sample_relay = [Relay sample_peer ([0, 0, 0, 1] @ octets4 (Ipv4 8 8 8 8) @ be_bytes16 53 @ [7])]"

lemma sample_relay_run:
  "relay_run sample_relay =
   \<lparr> conns = [(sample_peer, \<lparr> host = show_ipv4 (Ipv4 8 8 8 8), port = 53 \<rparr>) \<mapsto> 0],
     flows = [\<lparr> flow_key = (sample_peer, \<lparr> host = show_ipv4 (Ipv4 8 8 8 8), port = 53 \<rparr>),
       queue = [[7]], taken = [], phase = Running \<rparr>] \<rparr>"
proof -
  have "take socks_max_datagram ([0, 0, 0, 1] @ octets4 (Ipv4 8 8 8 8) @ be_bytes16 53 @ [7])
      = [0, 0, 0, 1] @ octets4 (Ipv4 8 8 8 8) @ be_bytes16 53 @ [7]"
    by (simp add: socks_max_datagram_def)
  then show ?thesis
    using parse_header_v4 [of 0 0 "Ipv4 8 8 8 8" 53 "[7]"]
    by (simp add: relay_run_def sample_relay_def relay_datagram_def flow_run_simps
        socks_udp_channel_capacity_def)
qed

theorem relay_isolation_witness:
  "subseq [[7]] (relayed (sample_peer, \<lparr> host = show_ipv4 (Ipv4 8 8 8 8), port = 53 \<rparr>) sample_relay)"
  using relay_isolation [of 0 sample_relay] by (simp add: sample_relay_run)

section \<open>CONNECT\<close>

text \<open>Success is reported to the SOCKS client only after the peer accepted the conn: if
  the bytes on the QUIC stream are not an acceptance, nothing is written to the SOCKS
  connection, and when the start succeeds the client has received exactly the ten-byte
  success reply.\<close>

theorem socks_connect_reply_after_accept:
  "case start_client_dynamic_tunnel cs tid target q s of
     (Inl (OpenConnFailed e), q', s') \<Rightarrow> s' = s
   | (Inl (ReplyFailed e), q', s') \<Rightarrow>
       fst (send_open_conn cs \<lparr> tunnel_id = tid, dynamic = Some (DynTcp target) \<rparr> q) = Inr ()
   | (Inr u, q', s') \<Rightarrow>
       fst (send_open_conn cs \<lparr> tunnel_id = tid, dynamic = Some (DynTcp target) \<rparr> q) = Inr () \<and>
       outb s' = outb s @ [5, 0, 0, 1, 0, 0, 0, 0, 0, 0] \<and> inb s' = inb s"
  by (auto simp: start_client_dynamic_tunnel_def dest!: write_all_Inr split: prod.splits sum.splits)

end
