(* ===== verification/Listeners.thy ===== *)
theory Listeners
  imports Directory Session_Inv Tcp Socks Udp
begin

text \<open>
  The tasks behind the listeners: what happens to one accepted TCP connection
  (\<^verbatim>\<open>tunnel_tcp_client\<close>, \<^verbatim>\<open>src/src/common/tcp.rs\<close>), to one SOCKS5 connection
  (\<^verbatim>\<open>tunnel_socks_client\<close>, \<^verbatim>\<open>handle_socks_udp_associate\<close>, \<^verbatim>\<open>src/src/common/socks.rs\<close>) and in one UDP
  conn (\<^verbatim>\<open>run_udp_conn\<close>, \<^verbatim>\<open>run_socks_udp_conn\<close>), with the conns they register and close in the server's
  state. On the client the handle is absent and nothing is registered.
\<close>

section \<open>Handles and guards\<close>

text \<open>\<^verbatim>\<open>TunnelHandle::open_conn\<close> through an optional handle, and the drop of the guard after the conn's traffic.\<close>

definition handle_open_conn_guard ::
  "nat option \<Rightarrow> string \<Rightarrow> nat \<Rightarrow> server_state \<Rightarrow> (nat \<times> nat) option \<times> server_state" where
  "handle_open_conn_guard handle peer now st =
     (case handle of
        None \<Rightarrow> (None, st)
      | Some t \<Rightarrow> (case register_conn t (Some peer) now st of (g, st1) \<Rightarrow> (Some g, st1)))"

definition guard_counters :: "(nat \<times> nat) option \<Rightarrow> counters option" where
  "guard_counters g = map_option (\<lambda>_. counters_new) g"

definition drop_guard :: "(nat \<times> nat) option \<Rightarrow> u64 option \<Rightarrow> u64 option \<Rightarrow> server_state \<Rightarrow> server_state" where
  "drop_guard guard n_in n_out st =
     (case guard of
        None \<Rightarrow> st
      | Some g \<Rightarrow> close_conn g (bump (snd g) (case n_in of Some n \<Rightarrow> n | None \<Rightarrow> 0) (case n_out of Some n \<Rightarrow> n | None \<Rightarrow> 0) st))"

section \<open>TCP connections\<close>

datatype listen_error =
  OpenBiFailed string
| OpenRejected control_error
| HandshakeFailed socks_error
| ConnectRefused connect_error

text \<open>The task of one accepted connection, from the opening of its stream to its end; \<^term>\<open>evs\<close> are the polls
  of its pump.\<close>

definition tunnel_tcp_client_conn ::
  "codecs \<Rightarrow> u64 \<Rightarrow> nat option \<Rightarrow> socket_addr \<Rightarrow> nat \<Rightarrow> string + conn \<Rightarrow> nat \<Rightarrow> nat \<Rightarrow> poll_event list \<Rightarrow> server_state \<Rightarrow>
   (listen_error + duplex) \<times> server_state" where
  "tunnel_tcp_client_conn cs tid handle peer now bi room_quic room_tcp evs st =
     (case bi of
        Inl e \<Rightarrow> (Inl (OpenBiFailed e), st)
      | Inr stream \<Rightarrow>
         (case send_open_conn cs \<lparr> tunnel_id = tid, dynamic = None \<rparr> stream of
            (Inl e, _) \<Rightarrow> (Inl (OpenRejected e), st)
          | (Inr _, _) \<Rightarrow>
             (case handle_open_conn_guard handle (show_sock peer) now st of
                (guard, st1) \<Rightarrow>
                  let d = tunnel_tcp_stream (guard_counters guard) room_quic room_tcp evs in
                  (Inr d, drop_guard guard (counted (rx d)) (counted (tx d)) st1))))"

section \<open>SOCKS5 connections\<close>

datatype socks_task = SocksTcp duplex | SocksUdp conn

text \<open>Unlike a TCP listener, a CONNECT registers its conn before the peer has accepted it.\<close>

definition tunnel_socks_client_conn ::
  "codecs \<Rightarrow> u64 \<Rightarrow> nat option \<Rightarrow> socket_addr \<Rightarrow> nat \<Rightarrow> conn \<Rightarrow> string + conn \<Rightarrow> nat \<Rightarrow> nat \<Rightarrow> poll_event list \<Rightarrow> server_state \<Rightarrow>
   (listen_error + socks_task) \<times> server_state" where
  "tunnel_socks_client_conn cs tid handle peer now local_conn bi room_quic room_tcp evs st =
     (case socks_handshake local_conn of
        (Inl e, _) \<Rightarrow> (Inl (HandshakeFailed e), st)
      | (Inr UdpAssociate, local1) \<Rightarrow> (Inr (SocksUdp local1), st)
      | (Inr (Connect target), local1) \<Rightarrow>
         (case bi of
            Inl e \<Rightarrow> (Inl (OpenBiFailed e), st)
          | Inr stream \<Rightarrow>
             (case handle_open_conn_guard handle (show_sock peer @ ''=>'' @ to_addr_string target) now st of
                (guard, st1) \<Rightarrow>
                 (case start_client_dynamic_tunnel cs tid target stream local1 of
                    (Inl e, _, _) \<Rightarrow> (Inl (ConnectRefused e), drop_guard guard None None st1)
                  | (Inr _, _, _) \<Rightarrow>
                      let d = tunnel_tcp_stream (guard_counters guard) room_quic room_tcp evs in
                      (Inr (SocksTcp d), drop_guard guard (counted (rx d)) (counted (tx d)) st1)))))"

text \<open>\<^verbatim>\<open>handle_socks_udp_associate\<close>: the relay socket is bound and reported, then the relay runs until the control
  connection ends or fails. Closing it aborts the receive loop; the tasks of the conns, which were spawned apart, go on.\<close>

datatype assoc_event = Control "io_error + bytes" | RelayEv relay_event

definition assoc_step :: "assoc_event \<Rightarrow> bool \<times> relay_key flow_table \<Rightarrow> bool \<times> relay_key flow_table" where
  "assoc_step ev = (\<lambda>(control_open, st).
     case ev of
       Control r \<Rightarrow> (control_open \<and> (case r of Inl _ \<Rightarrow> False | Inr bs \<Rightarrow> bs \<noteq> []), st)
     | RelayEv (Relay src datagram) \<Rightarrow> (control_open, if control_open then relay_datagram src datagram st else st)
     | RelayEv e \<Rightarrow> (control_open, relay_step e st))"

definition handle_socks_udp_associate ::
  "(socket_addr \<Rightarrow> io_error + socket_addr) \<Rightarrow> remote_request \<Rightarrow> conn \<Rightarrow> assoc_event list \<Rightarrow>
   io_error + conn \<times> bool \<times> relay_key flow_table" where
  "handle_socks_udp_associate bind_udp original_remote tcp_conn evs =
     and_then (bind_udp (udp_associate_bind_addr original_remote)) (\<lambda>bound.
     case write_socks_udp_associate_reply bound tcp_conn of
       (Inl e, _) \<Rightarrow> Inl e
     | (Inr _, c) \<Rightarrow> Inr (c, fold assoc_step evs (True, flow_table_init)))"

section \<open>UDP conns\<close>

text \<open>The two branches of a UDP conn's \<^verbatim>\<open>select!\<close> in the order they make progress: a payload from the queue, the
  queue closed, no payload for the idle time, or one datagram of the stream. \<^term>\<open>wrap\<close> is what is sent to the source
  for a payload.\<close>

datatype udp_conn_event = FromQueue bytes | QueueClosed | IdleTimeout | FromStream

datatype udp_conn_end = StillOpen | ConnDone | ConnFailed udp_error

fun udp_conn_loop ::
  "(bytes \<Rightarrow> bytes) \<Rightarrow> socket_addr \<Rightarrow> udp_conn_event list \<Rightarrow> nat \<Rightarrow> counters option \<Rightarrow> conn \<Rightarrow>
   udp_conn_end \<times> (bytes \<times> socket_addr) list \<times> counters option \<times> conn" where
  "udp_conn_loop wrap source [] sends cs c = (StillOpen, [], cs, c)"
| "udp_conn_loop wrap source (FromQueue p # es) sends cs c =
     (case write_datagram p c of
        (Inl e, c1) \<Rightarrow> (ConnFailed (UdpFrame e), [], cs, c1)
      | (Inr _, c1) \<Rightarrow> udp_conn_loop wrap source es sends (count_out (length p) cs) c1)"
| "udp_conn_loop wrap source (QueueClosed # es) sends cs c = (ConnDone, [], cs, c)"
| "udp_conn_loop wrap source (IdleTimeout # es) sends cs c = (ConnDone, [], cs, c)"
| "udp_conn_loop wrap source (FromStream # es) sends cs c =
     (case read_datagram max_datagram c of
        (Inl e, c1) \<Rightarrow> (ConnFailed (UdpFrame e), [], cs, c1)
      | (Inr payload, c1) \<Rightarrow>
         (case sends of
            0 \<Rightarrow> (ConnFailed UdpSendFailed, [], cs, c1)
          | Suc k \<Rightarrow>
             (case udp_conn_loop wrap source es k (count_in (length payload) cs) c1 of
                (r, sent, x) \<Rightarrow> (r, (wrap payload, source) # sent, x))))"

definition run_udp_conn ::
  "codecs \<Rightarrow> u64 \<Rightarrow> socket_addr \<Rightarrow> string + conn \<Rightarrow> udp_conn_event list \<Rightarrow> nat \<Rightarrow> counters option \<Rightarrow>
   listen_error + udp_conn_end \<times> (bytes \<times> socket_addr) list \<times> counters option \<times> conn" where
  "run_udp_conn cs tid source bi evs sends counters =
     (case bi of
        Inl e \<Rightarrow> Inl (OpenBiFailed e)
      | Inr stream \<Rightarrow>
         (case send_open_conn cs \<lparr> tunnel_id = tid, dynamic = None \<rparr> stream of
            (Inl e, _) \<Rightarrow> Inl (OpenRejected e)
          | (Inr _, c) \<Rightarrow> Inr (udp_conn_loop id source evs sends counters c)))"

definition run_socks_udp_conn ::
  "codecs \<Rightarrow> u64 \<Rightarrow> socket_addr \<Rightarrow> host_port \<Rightarrow> string + conn \<Rightarrow> udp_conn_event list \<Rightarrow> nat \<Rightarrow> counters option \<Rightarrow>
   listen_error + udp_conn_end \<times> (bytes \<times> socket_addr) list \<times> counters option \<times> conn" where
  "run_socks_udp_conn cs tid source target bi evs sends counters =
     (case bi of
        Inl e \<Rightarrow> Inl (OpenBiFailed e)
      | Inr stream \<Rightarrow>
         (case send_open_conn cs \<lparr> tunnel_id = tid, dynamic = Some (DynUdp target) \<rparr> stream of
            (Inl e, _) \<Rightarrow> Inl (OpenRejected e)
          | (Inr _, c) \<Rightarrow> Inr (udp_conn_loop (wrap_socks_udp_reply target) source evs sends counters c)))"

section \<open>Which listener a reverse tunnel gets\<close>

datatype listener = ListenTcp | ListenUdp | ListenSocks

text \<open>\<^verbatim>\<open>spawn_reverse_handler\<close>: the listener, the request it is given and the tunnel it announces.\<close>

definition spawn_reverse_handler :: "tunnel_entry \<Rightarrow> listener \<times> remote_request \<times> u64" where
  "spawn_reverse_handler e =
     (case tn_kind e of
        remote_kind.Tcp _ _ \<Rightarrow> ListenTcp | remote_kind.Udp _ _ \<Rightarrow> ListenUdp | Socks5 _ \<Rightarrow> ListenSocks,
      remote_request_new (tn_direction e) (tn_kind e), tn_id e)"

text \<open>The request a handler works with is the one that was declared, apart from the stdio mark, which reverse remotes
  never have.\<close>

lemma reverse_request_declared:
  "snd (spawn_reverse_handler (declared i cid now req)) = (req\<lparr>stdio := False\<rparr>, i)"
  by (simp add: spawn_reverse_handler_def declared_def remote_request_new_def)

section \<open>A conn leaves only its totals behind\<close>

lemma guard_live_register:
  assumes "t < length (tunnel_heap st)"
  shows "guard_live (fst (register_conn t peer now st)) (snd (register_conn t peer now st))"
  using assms by (simp add: guard_live_def register_conn_def Let_def)

lemma guard_live_bump: "guard_live g st \<Longrightarrow> guard_live g (bump c n m st)"
  by (cases "c = snd g") (auto simp: guard_live_def bump_def)

lemma register_conn_parts:
  "fst (register_conn t peer now st) = (t, length (conn_heap st))"
  "length (conn_heap (snd (register_conn t peer now st))) = Suc (length (conn_heap st))"
  "cn_id (conn_heap (snd (register_conn t peer now st)) ! length (conn_heap st)) = next_conn_id st + 1"
  "length (tunnel_heap (snd (register_conn t peer now st))) = length (tunnel_heap st)"
  by (simp_all add: register_conn_def Let_def)

lemma conn_life:
  fixes st :: server_state and peer :: "string option" and now t :: nat and n m :: u64
  assumes "wf_state st" "t < length (tunnel_heap st)" "Suc (length (conn_heap st)) < 2 ^ 64"
  defines "st1 \<equiv> snd (register_conn t peer now st)" and "g \<equiv> fst (register_conn t peer now st)"
  defines "st2 \<equiv> close_conn g (bump (snd g) n m st1)"
  shows "wf_state st2 \<and> abs_dir st2 = abs_dir st \<and>
    tunnel_bytes st2 t = (fst (tunnel_bytes st t) + n, snd (tunnel_bytes st t) + m) \<and>
    total_conns (tunnel_heap st2 ! t) = total_conns (tunnel_heap st ! t) + 1"
proof -
  let ?c = "length (conn_heap st)"
  have g: "g = (t, ?c)" by (simp add: g_def register_conn_parts)
  have wf1: "wf_state st1" unfolding st1_def by (rule wf_register_conn [OF assms(1-3)])
  have live1: "guard_live (t, ?c) st1" using guard_live_register [OF assms(2), of peer now] g by (simp add: st1_def g_def)
  have len: "?c < length (conn_heap st1)" "t < length (tunnel_heap st1)" "length (tunnel_heap (bump ?c n m st1)) = length (tunnel_heap st1)"
    using assms(2) by (simp_all add: st1_def register_conn_parts bump_def)
  have wfb: "wf_state (bump ?c n m st1)" by (rule wf_bump [OF wf1 len(1)])
  have liveb: "guard_live (t, ?c) (bump ?c n m st1)" by (rule guard_live_bump [OF live1])
  have "wf_state st2" unfolding st2_def g by (simp add: wf_close_conn [OF wfb liveb])
  moreover have "abs_dir st2 = abs_dir st"
  proof -
    have "cn_id (conn_heap (bump ?c n m st1) ! ?c) = next_conn_id st + 1"
      using len(1) by (simp add: bump_def st1_def register_conn_parts)
    moreover have "dir_conns (abs_dir st) (next_conn_id st + 1) = None"
      using fresh_in_index(2) [OF assms(1,3)] by (simp add: abs_defs)
    ultimately show ?thesis
      unfolding st2_def g using len(2,3)
      by (simp add: abs_close abs_traffic st1_def abs_open [OF assms(1,2)] fun_upd_idem directory.equality)
  qed
  moreover have "tunnel_bytes st2 t = (fst (tunnel_bytes st t) + n, snd (tunnel_bytes st t) + m)"
  proof -
    have "tunnel_bytes st2 t = tunnel_bytes (bump ?c n m st1) t"
      unfolding st2_def g using len(2,3) by (simp add: bytes_close_conn [OF wfb liveb])
    also have "\<dots> = (fst (tunnel_bytes st1 t) + n, snd (tunnel_bytes st1 t) + m)"
      by (simp add: bytes_bump [OF wf1 live1 len(2)])
    finally show ?thesis by (simp add: st1_def bytes_register_conn [OF assms(1,2,2,3)])
  qed
  moreover have "total_conns (tunnel_heap st2 ! t) = total_conns (tunnel_heap st ! t) + 1"
    using assms(2) by (simp add: st2_def g close_conn_def bump_def snapshot_def st1_def register_conn_def Let_def)
  ultimately show ?thesis by blast
qed

lemma copy_buf_counted: "counted (snd (copy_buf rs h)) = None \<longleftrightarrow> counted h = None"
  by (induction rs h rule: copy_buf.induct) (auto simp: count_read_def Let_def split: prod.splits sum.splits)

lemma poll_half_counted:
  assumes "\<And>h. counted (on_eof h) = counted h" "\<And>h. counted (on_abort h) = counted h"
  shows "counted (snd (poll_half on_eof on_abort rs h)) = None \<longleftrightarrow> counted h = None"
  using copy_buf_counted [of rs h] assms
  by (auto simp: poll_half_def conclude_def split: half_status.splits prod.splits option.splits copy_outcome.splits if_splits)

lemma stream_counted:
  "counted (tx (tunnel_tcp_stream (Some k) rq rt evs)) \<noteq> None \<and> counted (rx (tunnel_tcp_stream (Some k) rq rt evs)) \<noteq> None"
proof (induction evs rule: rev_induct)
  case Nil
  then show ?case by (simp add: tunnel_tcp_stream_def half_new_def)
next
  case (snoc ev evs)
  have p: "counted (snd (poll_half send_shutdown send_reset rs h)) = None \<longleftrightarrow> counted h = None"
    "counted (snd (poll_half send_shutdown send_shutdown rs h)) = None \<longleftrightarrow> counted h = None" for rs h
    by (rule poll_half_counted; simp add: send_shutdown_def send_reset_def)+
  have n: "counted (notify h) = counted h" for h by (simp add: notify_def)
  from snoc show ?case
    by (cases ev) (simp_all add: tunnel_tcp_stream_def tunnel_tcp_poll_def duplex_poll_def case_prod_beta p n)
qed


lemma demo_open_accepted:
  "\<exists>c. send_open_conn byte_codecs \<lparr> tunnel_id = 1, dynamic = None \<rparr> open_stream = (Inr (), c)"
proof -
  have w: "control_frame (open_codec byte_codecs) \<lparr> tunnel_id = 1, dynamic = None \<rparr> = Some [1, 0, 0, 0, 1]"
    and r: "control_frame (open_response_codec byte_codecs) OpenOk = Some [1, 0, 0, 0, 1]"
    by (simp_all add: control_frame_def byte_codecs_def le_bytes_1 max_control_msg_def)
  show ?thesis
    using ctl.send_frame [OF w, of open_stream]
      ctl.receive_frame [OF r, of "open_stream\<lparr>outb := outb open_stream @ [1, 0, 0, 0, 1], wleft := wleft open_stream - 5\<rparr>" "[]"]
    by (simp add: send_open_conn_def io_bind_def io_ok_def open_stream_def open_line_def)
qed


section \<open>Interleavings of a UDP conn\<close>

definition queued :: "udp_conn_event list \<Rightarrow> bytes list" where
  "queued es = concat (map (\<lambda>e. case e of FromQueue p \<Rightarrow> [p] | _ \<Rightarrow> []) es)"

definition stream_turns :: "udp_conn_event list \<Rightarrow> nat" where
  "stream_turns es = length (filter (\<lambda>e. e = FromStream) es)"

lemma count_commute: "count_out n (count_in m cs) = count_in m (count_out n cs)"
  by (cases cs) (simp_all add: count_in_def count_out_def add_in_def add_out_def)

text \<open>The two branches of a UDP conn do not disturb each other: in whatever order they make progress, the stream gets
  the queued payloads as datagrams in their order, the source gets the stream's datagrams, wrapped, in theirs, and the
  counters hold both sums; nothing is lost, split or merged while stream and socket accept the data.\<close>

theorem udp_conn_interleaving:
  assumes "QueueClosed \<notin> set es" "IdleTimeout \<notin> set es"
    and "dgram.frames (queued es) = Some g_out" "dgram.frames ps = Some g_in" "stream_turns es = length ps"
    and "inb c = g_in @ rest" "\<not> fin c" "length g_out \<le> wleft c" "length ps \<le> sends"
  shows "udp_conn_loop wrap source es sends cs c =
    (StillOpen, map (\<lambda>p. (wrap p, source)) ps, count_in (total_len ps) (count_out (total_len (queued es)) cs),
     c\<lparr>inb := rest, outb := outb c @ g_out, wleft := wleft c - length g_out\<rparr>)"
  using assms
proof (induction es arbitrary: ps g_out g_in sends cs c)
  case Nil
  then show ?case by (simp add: queued_def stream_turns_def)
next
  case (Cons e es)
  show ?case
  proof (cases e)
    case (FromQueue p)
    with Cons.prems(3) obtain f fs where f: "datagram_frame p = Some f" "dgram.frames (queued es) = Some fs" "g_out = f @ fs"
      by (auto simp: queued_def dgram.frames_Cons simp del: dgram.frames.simps)
    with Cons.prems have "write_datagram p c = (Inr (), c\<lparr>outb := outb c @ f, wleft := wleft c - length f\<rparr>)"
      by (intro dgram.send_frame) auto
    with Cons FromQueue f show ?thesis by (simp add: queued_def stream_turns_def count_commute)
  next
    case FromStream
    with Cons.prems(5) obtain q qs where ps: "ps = q # qs" by (cases ps) (auto simp: stream_turns_def)
    with Cons.prems(4) obtain f fs where f: "datagram_frame q = Some f" "dgram.frames qs = Some fs" "g_in = f @ fs"
      by (auto simp: dgram.frames_Cons simp del: dgram.frames.simps)
    with Cons.prems(6) have "read_datagram max_datagram c = (Inr q, c\<lparr>inb := fs @ rest\<rparr>)"
      by (simp add: max_datagram_def dgram.receive_frame)
    moreover obtain k where "sends = Suc k" using Cons.prems(9) ps by (cases sends) auto
    ultimately show ?thesis using Cons FromStream f ps by (simp add: queued_def stream_turns_def count_commute)
  qed (use Cons.prems in auto)
qed

theorem udp_conn_interleaving_witness:
  "\<exists>c'. udp_conn_loop id demo_addr [FromQueue [7], FromStream, FromQueue []] 1 (Some counters_new)
     \<lparr> inb = [2, 0, 8, 9], outb = [], wleft = 5, fin = False \<rparr> = (StillOpen, [([8, 9], demo_addr)], Some (counters_new\<lparr>bytes_in := 2, bytes_out := 1\<rparr>), c')"
proof -
  have "le_bytes 2 0 = [0, 0]" "le_bytes 2 (Suc 0) = [1, 0]" "le_bytes 2 2 = [2, 0]" by (simp_all add: le_bytes_def upt_rec)
  then have "dgram.frames (queued [FromQueue [7], FromStream, FromQueue []]) = Some [1, 0, 7, 0, 0]"
    "dgram.frames [[8, 9]] = Some [2, 0, 8, 9]"
    by (simp_all add: queued_def datagram_frame_def numeral_2_eq_2)
  from udp_conn_interleaving [OF _ _ this, of "\<lparr> inb = [2, 0, 8, 9], outb = [], wleft = 5, fin = False \<rparr>" "[]" 1 id demo_addr "Some counters_new"]
  show ?thesis
    by (simp add: stream_turns_def queued_def count_in_def count_out_def add_in_def add_out_def counters_new_def)
qed

section \<open>The life of a UDP association\<close>

definition flow_contents :: "'k flow_table \<Rightarrow> ('k \<times> bytes list) list" where
  "flow_contents st = map (\<lambda>fl. (flow_key fl, taken fl @ queue fl)) (flows st)"

lemma contents_task [simp]:
  "flow_contents (flow_take i st) = flow_contents st" "flow_contents (flow_end i st) = flow_contents st"
  "flow_contents (flow_cleanup i st) = flow_contents st"
  by (auto simp: flow_contents_def flow_take_def flow_end_def flow_cleanup_def is_closed_def update_flow_def map_update
      intro!: list_update_same_conv [THEN iffD2] split: list.splits)



end
