(* ===== verification/Client.thy ===== *)
theory Client
  imports Session_Inv "HOL-Library.Multiset"
begin

text \<open>
  The client (\<^verbatim>\<open>src/src/client/mod.rs\<close>, \<^verbatim>\<open>ServerEndpoint\<close> and \<^verbatim>\<open>ReconnectConfig\<close> of \<^verbatim>\<open>src/src/lib.rs\<close>, and the
  address handling of \<^verbatim>\<open>src/src/main.rs\<close>): candidate addresses, the race between them, the reconnect
  loop, the session after its hello, and the conns the server pushes.

  The environment decides how an attempt ends, which of the racing attempts completes first, and when the
  shutdown signal arrives; these are inputs. Durations are nanoseconds, capped as \<^verbatim>\<open>Duration\<close> is.
\<close>

section \<open>Addresses\<close>

record server_endpoint =
  addrs :: "socket_addr list"
  ep_host :: string

definition primary :: "server_endpoint \<Rightarrow> socket_addr option" where
  "primary ep = (case addrs ep of [] \<Rightarrow> None | a # _ \<Rightarrow> Some a)"

definition show_endpoint :: "server_endpoint \<Rightarrow> string" where
  "show_endpoint ep =
     (case addrs ep of
        [addr] \<Rightarrow>
          if ep_host ep = show_ip (sock_ip addr) then show_sock addr
          else ep_host ep @ '' ('' @ show_sock addr @ '')''
      | as \<Rightarrow> ep_host ep @ '' ('' @ join '', '' (map show_sock as) @ '')'')"

fun interleave :: "'a list \<Rightarrow> 'a list \<Rightarrow> 'a list" where
  "interleave [] [] = []"
| "interleave (a # as) [] = a # interleave as []"
| "interleave [] (b # bs) = b # interleave [] bs"
| "interleave (a # as) (b # bs) = a # b # interleave as bs"

definition interleave_address_families :: "socket_addr list \<Rightarrow> socket_addr list" where
  "interleave_address_families resolved =
     (let v4 = filter (\<lambda>a. \<not> is_ipv6 a) resolved; v6 = filter is_ipv6 resolved in
      if v6 \<noteq> [] \<and> v4 \<noteq> [] then interleave v6 v4 else interleave v4 v6)"

text \<open>\<^verbatim>\<open>parse_server_addr\<close>; \<^term>\<open>resolve\<close> is the system's resolver.\<close>

definition parse_server_addr :: "(string \<Rightarrow> string + socket_addr list) \<Rightarrow> string \<Rightarrow> string + server_endpoint" where
  "parse_server_addr resolve s =
     and_then
       (case strip_prefix ''['' s of
          Some rest \<Rightarrow>
            (case split_once (CHR '']'') rest of
               None \<Rightarrow> Inl (''malformed IPv6 address in `'' @ s @ ''` (missing `]`)'')
             | Some (h, _) \<Rightarrow> Inr h)
        | None \<Rightarrow>
            (case rsplit_once (CHR '':'') s of
               None \<Rightarrow> Inl (''expected host:port in `'' @ s @ ''`'')
             | Some (h, _) \<Rightarrow> Inr h)) (\<lambda>h.
     and_then (map_err (\<lambda>e. ''failed to resolve server address `'' @ s @ ''`: '' @ e) (resolve s)) (\<lambda>resolved.
     if resolved = [] then Inl (''no addresses found for server `'' @ s @ ''`'')
     else Inr \<lparr> addrs = interleave_address_families resolved, ep_host = h \<rparr>))"

section \<open>Connecting\<close>

text \<open>One QUIC endpoint per address family, made on first use; \<^term>\<open>create\<close> may fail.\<close>

record 'e endpoint_pool =
  pool_v4 :: "'e option"
  pool_v6 :: "'e option"

definition endpoint_pool_new ::
  "(socket_addr \<Rightarrow> string + 'e) \<Rightarrow> socket_addr \<Rightarrow> string + 'e endpoint_pool" where
  "endpoint_pool_new create prim =
     and_then (create prim) (\<lambda>e.
     Inr (if is_ipv6 prim then \<lparr> pool_v4 = None, pool_v6 = Some e \<rparr> else \<lparr> pool_v4 = Some e, pool_v6 = None \<rparr>))"

definition get_for ::
  "(socket_addr \<Rightarrow> string + 'e) \<Rightarrow> socket_addr \<Rightarrow> 'e endpoint_pool \<Rightarrow> (string + 'e) \<times> 'e endpoint_pool" where
  "get_for create addr p =
     (case (if is_ipv6 addr then pool_v6 p else pool_v4 p) of
        Some e \<Rightarrow> (Inr e, p)
      | None \<Rightarrow>
         (case create addr of
            Inl x \<Rightarrow> (Inl x, p)
          | Inr e \<Rightarrow> (Inr e, if is_ipv6 addr then p\<lparr>pool_v6 := Some e\<rparr> else p\<lparr>pool_v4 := Some e\<rparr>)))"

definition happy_eyeballs_delay :: nat where
  "happy_eyeballs_delay = 250"

text \<open>The attempts that start, each with its stagger in milliseconds, the pool and the last error.\<close>

fun launch ::
  "(socket_addr \<Rightarrow> string + 'e) \<Rightarrow> ('e \<Rightarrow> socket_addr \<Rightarrow> string + 'c) \<Rightarrow> nat \<Rightarrow> socket_addr list \<Rightarrow>
   'e endpoint_pool \<Rightarrow> string option \<Rightarrow> (nat \<times> socket_addr \<times> 'c) list \<times> 'e endpoint_pool \<times> string option" where
  "launch create connect idx [] p err = ([], p, err)"
| "launch create connect idx (a # as) p err =
     (case get_for create a p of
        (Inl e, p1) \<Rightarrow>
          launch create connect (Suc idx) as p1 (Some (show_sock a @ '': failed to build endpoint: '' @ e))
      | (Inr ep, p1) \<Rightarrow>
         (case connect ep a of
            Inl e \<Rightarrow> launch create connect (Suc idx) as p1 (Some (show_sock a @ '': '' @ e))
          | Inr c \<Rightarrow>
             (case launch create connect (Suc idx) as p1 err of
                (races, p2, err2) \<Rightarrow> ((happy_eyeballs_delay * idx, a, c) # races, p2, err2))))"

text \<open>The race: attempts in the order they complete.\<close>

fun race :: "(socket_addr \<times> (string + 'q)) list \<Rightarrow> string option \<Rightarrow> string + 'q" where
  "race [] err =
     Inl (''all candidate addresses failed (last error: '' @ (case err of None \<Rightarrow> ''<none>'' | Some e \<Rightarrow> e) @ '')'')"
| "race ((a, Inr q) # rs) err = Inr q"
| "race ((a, Inl e) # rs) err = race rs (Some (show_sock a @ '': '' @ e))"

definition happy_eyeballs_connect ::
  "(socket_addr \<Rightarrow> string + 'e) \<Rightarrow> ('e \<Rightarrow> socket_addr \<Rightarrow> string + 'c) \<Rightarrow>
   ((nat \<times> socket_addr \<times> 'c) list \<Rightarrow> (socket_addr \<times> (string + 'q)) list) \<Rightarrow> socket_addr list \<Rightarrow>
   'e endpoint_pool \<Rightarrow> (string + 'q) \<times> 'e endpoint_pool" where
  "happy_eyeballs_connect create connect complete as p =
     (if as = [] then (Inl ''no candidate addresses to connect to'', p)
      else
        case launch create connect 0 as p None of
          (races, p1, err) \<Rightarrow> (race (complete races) err, p1))"

text \<open>\<^verbatim>\<open>proxied_connect\<close>: only the first address, through the proxy.\<close>

definition proxied_connect :: "(socket_addr \<Rightarrow> string + 'q) \<Rightarrow> server_endpoint \<Rightarrow> string + 'q" where
  "proxied_connect via ep =
     (case addrs ep of [] \<Rightarrow> Inl ''no candidate addresses to connect to'' | a # _ \<Rightarrow> via a)"

section \<open>Reconnecting\<close>

definition duration_max :: nat where
  "duration_max = (2 ^ 64 - 1) * 1000000000 + 999999999"

definition next_backoff :: "nat \<Rightarrow> nat \<Rightarrow> nat" where
  "next_backoff current max_backoff = min (min (current * 2) duration_max) max_backoff"

record reconnect_config =
  max_retries :: "u32 option"
  initial_backoff :: nat
  max_backoff :: nat

definition reconnect_default :: reconnect_config where
  "reconnect_default = \<lparr> max_retries = None, initial_backoff = 200 * 1000000, max_backoff = 300 * 1000000000 \<rparr>"

datatype session_end = Shutdown | Disconnected string

text \<open>How one round ends: interrupted while connecting, no connection, or a session that ended.\<close>

datatype round = Interrupted | NoConnection string | Session session_end

definition saturating_add1 :: "u32 \<Rightarrow> u32" where
  "saturating_add1 n = (if n = - 1 then n else n + 1)"

text \<open>The loop over the rounds and, after each, whether the shutdown signal cuts the sleep short. The result
  is the sleeps and how the loop returned, if it did.\<close>

fun run_with_reconnect ::
  "reconnect_config \<Rightarrow> (round \<times> bool) list \<Rightarrow> nat \<Rightarrow> u32 \<Rightarrow> nat list \<times> (string + unit) option" where
  "run_with_reconnect cfg [] backoff attempt = ([], None)"
| "run_with_reconnect cfg ((r, interrupted) # rs) backoff attempt =
     (if r = Interrupted \<or> r = Session Shutdown then ([], Some (Inr ()))
      else
        let (backoff, attempt) =
              (case r of Session _ \<Rightarrow> (initial_backoff cfg, 0) | _ \<Rightarrow> (backoff, attempt));
            attempt = saturating_add1 attempt in
        if (case max_retries cfg of Some mx \<Rightarrow> attempt > mx | None \<Rightarrow> False)
        then ([], Some (Inl (''giving up after '' @ show_word (attempt - 1) @ '' reconnect attempt(s)'')))
        else if interrupted then ([backoff], Some (Inr ()))
        else
          case run_with_reconnect cfg rs (next_backoff backoff (max_backoff cfg)) attempt of
            (sleeps, res) \<Rightarrow> (backoff # sleeps, res))"

definition reconnect_loop :: "reconnect_config \<Rightarrow> (round \<times> bool) list \<Rightarrow> nat list \<times> (string + unit) option" where
  "reconnect_loop cfg rs = run_with_reconnect cfg rs (initial_backoff cfg) 0"

section \<open>A session\<close>

definition send_session_hello ::
  "codecs \<Rightarrow> remote_request list \<Rightarrow> conn \<Rightarrow> (control_error + u64 list) \<times> conn" where
  "send_session_hello cs rs c = client_send_session_hello cs \<lparr> remotes = rs \<rparr> c"

definition remotes_by_id :: "u64 list \<Rightarrow> remote_request list \<Rightarrow> u64 \<rightharpoonup> remote_request" where
  "remotes_by_id ids rs = map_of (rev (zip ids rs))"

datatype forward_handler =
  StdioHandler u64
| SocksHandler remote_request u64
| TcpHandler remote_request u64
| UdpHandler remote_request u64

definition handle_forward_tunnel :: "remote_request \<Rightarrow> u64 \<Rightarrow> forward_handler" where
  "handle_forward_tunnel r tid =
     (if is_stdio r then StdioHandler tid
      else case kind r of
        Socks5 _ \<Rightarrow> SocksHandler r tid
      | remote_kind.Tcp _ _ \<Rightarrow> TcpHandler r tid
      | remote_kind.Udp _ _ \<Rightarrow> UdpHandler r tid)"

text \<open>\<^verbatim>\<open>run_connection\<close>: the forward handlers it starts, whether each asks for shutdown when it ends, and how
  the session ends: \<^term>\<open>closed\<close> is the reason the connection closed, \<^verbatim>\<open>None\<close> if the shutdown signal came first.\<close>

definition run_connection ::
  "(control_error \<Rightarrow> string) \<Rightarrow> codecs \<Rightarrow> remote_request list \<Rightarrow> conn \<Rightarrow> string option \<Rightarrow>
   (forward_handler \<times> bool) list \<times> (u64 \<rightharpoonup> remote_request) \<times> session_end" where
  "run_connection show_err cs rs c closed =
     (case send_session_hello cs rs c of
        (Inl e, _) \<Rightarrow> ([], Map.empty, Disconnected (''session hello failed: '' @ show_err e))
      | (Inr ids, _) \<Rightarrow>
          (map (\<lambda>(r, i). (handle_forward_tunnel r i, is_stdio r)) (filter (\<lambda>(r, i). direction r \<noteq> Reverse) (zip rs ids)),
           remotes_by_id ids rs,
           case closed of None \<Rightarrow> Shutdown | Some reason \<Rightarrow> Disconnected reason))"

section \<open>Conns the server pushes\<close>

datatype reverse_dispatch = ReverseTcp remote_request | ReverseUdp remote_request

fun reverse_request :: "reverse_dispatch \<Rightarrow> remote_request" where
  "reverse_request (ReverseTcp r) = r"
| "reverse_request (ReverseUdp r) = r"

definition show_reverse_dispatch :: "reverse_dispatch \<Rightarrow> string" where
  "show_reverse_dispatch d = show_remote (reverse_request d)"

definition resolve_reverse_dispatch ::
  "remote_request \<Rightarrow> dynamic_target option \<Rightarrow> string + reverse_dispatch" where
  "resolve_reverse_dispatch parent dyn =
     (if direction parent \<noteq> Reverse
      then Inl (''server pushed conn on a forward tunnel ('' @ show_remote parent @ '') '' @
        map char_of [226, 128, 148 :: nat] @ '' protocol error'')
      else
        case (kind parent, dyn) of
          (remote_kind.Tcp l r, None) \<Rightarrow> Inr (ReverseTcp (remote_request_new Reverse (remote_kind.Tcp l r)))
        | (remote_kind.Udp l r, None) \<Rightarrow> Inr (ReverseUdp (remote_request_new Reverse (remote_kind.Udp l r)))
        | (Socks5 l, Some (DynTcp target)) \<Rightarrow>
            Inr (ReverseTcp (remote_request_new Reverse (remote_kind.Tcp l target)))
        | (Socks5 l, Some (DynUdp target)) \<Rightarrow>
            Inr (ReverseUdp (remote_request_new Reverse (remote_kind.Udp l target)))
        | (Socks5 l, None) \<Rightarrow> Inl ''server pushed reverse SOCKS5 conn without a dynamic target''
        | (_, Some _) \<Rightarrow> Inl ''server pushed unexpected dynamic target on non-SOCKS reverse tunnel'')"

definition client_accept_reverse_conn ::
  "codecs \<Rightarrow> (u64 \<rightharpoonup> remote_request) \<Rightarrow> conn \<Rightarrow> (open_error + reverse_dispatch) \<times> conn" where
  "client_accept_reverse_conn cs by_id c =
     (case receive_open_conn cs c of
        (Inl e, c1) \<Rightarrow> (Inl (OpenControl e), c1)
      | (Inr op, c1) \<Rightarrow>
         (case by_id (tunnel_id op) of
            None \<Rightarrow>
              (Inl (UnknownTunnel (tunnel_id op)),
               snd (reply_open_conn cs (OpenFailed (''unknown tunnel id '' @ show_word (tunnel_id op))) c1))
          | Some parent \<Rightarrow>
             (case resolve_reverse_dispatch parent (dynamic op) of
                Inl e \<Rightarrow> (Inl (DispatchError e), snd (reply_open_conn cs (OpenFailed e) c1))
              | Inr d \<Rightarrow>
                 (case reply_open_conn cs OpenOk c1 of
                    (Inl e, c2) \<Rightarrow> (Inl (OpenControl e), c2)
                  | (Inr _, c2) \<Rightarrow> (Inr d, c2)))))"

section \<open>Candidate order\<close>

lemma mset_interleave [simp]: "mset (interleave xs ys) = mset xs + mset ys"
  by (induction xs ys rule: interleave.induct) simp_all

lemma mset_families: "mset (interleave_address_families rs) = mset rs"
proof -
  have "mset (filter is_ipv6 rs) + mset (filter (\<lambda>a. \<not> is_ipv6 a) rs) = mset rs"
    using multiset_partition [of "mset rs" is_ipv6] by simp
  then show ?thesis by (simp add: interleave_address_families_def Let_def add.commute del: mset_filter)
qed

lemma interleave_nth:
  "k < min (length xs) (length ys) \<Longrightarrow> interleave xs ys ! (2 * k) = xs ! k \<and> interleave xs ys ! Suc (2 * k) = ys ! k"
proof (induction xs ys arbitrary: k rule: interleave.induct)
  case (4 a as b bs)
  then show ?case by (cases k) auto
qed auto

text \<open>Reordering the resolved addresses loses and invents none, and as long as both families have addresses left it
  alternates IPv6 and IPv4, each family in the resolver's order, so the second attempt is always the other family.\<close>

theorem interleave_families_exact:
  defines "v4 \<equiv> filter (\<lambda>a. \<not> is_ipv6 a)" and "v6 \<equiv> filter is_ipv6"
  assumes "k < min (length (v4 rs)) (length (v6 rs))"
  shows "mset (interleave_address_families rs) = mset rs \<and>
    interleave_address_families rs ! (2 * k) = v6 rs ! k \<and>
    interleave_address_families rs ! Suc (2 * k) = v4 rs ! k"
proof -
  from assms(3) have "v4 rs \<noteq> []" "v6 rs \<noteq> []" by auto
  then have "interleave_address_families rs = interleave (v6 rs) (v4 rs)"
    by (simp add: interleave_address_families_def v4_def v6_def Let_def)
  with interleave_nth [of k "v6 rs" "v4 rs"] assms(3) mset_families [of rs] show ?thesis by (simp del: mset_interleave)
qed

theorem interleave_families_exact_witness:
  "interleave_address_families [SocketAddrV4 (Ipv4 127 0 0 1) 80, SocketAddrV6 (Ipv6 0 0 0 0 0 0 0 1) 80 0 0] ! 0 =
   SocketAddrV6 (Ipv6 0 0 0 0 0 0 0 1) 80 0 0"
  using interleave_families_exact [of 0 "[SocketAddrV4 (Ipv4 127 0 0 1) 80, SocketAddrV6 (Ipv6 0 0 0 0 0 0 0 1) 80 0 0]"]
  by simp

section \<open>The race\<close>

lemma race_ok: "(\<exists>q. race rs err = Inr q) \<longleftrightarrow> (\<exists>a q. (a, Inr q) \<in> set rs)"
  by (induction rs err rule: race.induct) auto

lemma race_winner: "race rs err = Inr q \<Longrightarrow> \<exists>a. (a, Inr q) \<in> set rs"
  by (induction rs err rule: race.induct) auto

text \<open>When every endpoint and every attempt can be set up, all addresses race, in order, 250 ms apart.\<close>

lemma launch_all:
  assumes "\<And>a. \<exists>e. create a = Inr e" "\<And>e a. \<exists>c. connect e a = Inr c"
  shows "map (\<lambda>(s, a, c). (s, a)) (fst (launch create connect i as p err)) =
    zip (map (\<lambda>k. 250 * k) [i..<i + length as]) as"
proof (induction as arbitrary: i p)
  case (Cons a as)
  have "\<exists>ep p1. get_for create a p = (Inr ep, p1)"
    using assms(1) [of a] by (auto simp: get_for_def split: option.splits)
  then obtain ep p1 where g: "get_for create a p = (Inr ep, p1)" by blast
  from assms(2) obtain c where c: "connect ep a = Inr c" by blast
  show ?case
    using Cons.IH [of "Suc i" p1] g c
    by (auto simp: upt_conv_Cons happy_eyeballs_delay_def split: prod.split simp del: upt_Suc)
qed simp

lemma happy_eyeballs_ok:
  assumes "as \<noteq> []"
  shows "(\<exists>q. fst (happy_eyeballs_connect create connect complete as p) = Inr q) \<longleftrightarrow>
    (\<exists>a q. (a, Inr q) \<in> set (complete (fst (launch create connect 0 as p None))))"
  using assms by (simp add: happy_eyeballs_connect_def race_ok split: prod.split)

section \<open>Backoff\<close>

lemma next_backoff_iter:
  assumes "mx \<le> duration_max"
  shows "((\<lambda>b. next_backoff b mx) ^^ k) b = (if k = 0 then b else min (b * 2 ^ k) mx)"
proof (induction k)
  case (Suc k)
  then show ?case using assms by (auto simp: next_backoff_def min_def)
qed simp

definition failures :: "string list \<Rightarrow> (round \<times> bool) list" where
  "failures es = map (\<lambda>e. (NoConnection e, False)) es"

lemma saturating_add1_unat: "unat a < 2 ^ 32 - 1 \<Longrightarrow> unat (saturating_add1 a) = Suc (unat a)"
proof -
  assume a: "unat a < 2 ^ 32 - 1"
  have "unat (- 1 :: u32) = 2 ^ 32 - 1" by (simp add: unsigned_minus_1_eq_mask mask_eq_exp_minus_1)
  with a have "a \<noteq> - 1" by auto
  with a show ?thesis by (simp add: saturating_add1_def unat_word_ariths)
qed

lemma run_failures:
  assumes "\<And>m. max_retries cfg = Some m \<Longrightarrow> unat a + length es \<le> unat m"
  shows "\<exists>a'. run_with_reconnect cfg (failures es @ rs) b a =
    (case run_with_reconnect cfg rs (((\<lambda>b. next_backoff b (max_backoff cfg)) ^^ length es) b) a' of
       (s, r) \<Rightarrow> (map (\<lambda>k. ((\<lambda>b. next_backoff b (max_backoff cfg)) ^^ k) b) [0..<length es] @ s, r)) \<and>
    (max_retries cfg \<noteq> None \<longrightarrow> unat a' = unat a + length es)"
  using assms
proof (induction es arbitrary: a b)
  case Nil
  then show ?case by (intro exI [of _ a]) (simp add: failures_def split: prod.split)
next
  case (Cons e es)
  let ?f = "\<lambda>b. next_backoff b (max_backoff cfg)" and ?a = "saturating_add1 a"
  have a: "unat ?a = Suc (unat a)" "\<not> ?a > m" if m: "max_retries cfg = Some m" for m
  proof -
    have "unat m < 2 ^ 32" using unsigned_less [of m] by simp
    with Cons.prems [OF m] have "unat a < 2 ^ 32 - 1" by simp
    from saturating_add1_unat [OF this] show "unat ?a = Suc (unat a)" .
    with Cons.prems [OF m] show "\<not> ?a > m" by (simp add: word_less_nat_alt)
  qed
  have "\<And>m. max_retries cfg = Some m \<Longrightarrow> unat ?a + length es \<le> unat m" using Cons.prems a by fastforce
  from Cons.IH [OF this, of "?f b"] obtain a' where a':
    "run_with_reconnect cfg (failures es @ rs) (?f b) ?a =
      (case run_with_reconnect cfg rs ((?f ^^ length es) (?f b)) a' of
         (s, r) \<Rightarrow> (map (\<lambda>k. (?f ^^ k) (?f b)) [0..<length es] @ s, r))"
    "max_retries cfg \<noteq> None \<longrightarrow> unat a' = unat ?a + length es" by blast
  have shift: "(?f ^^ k) (?f b) = (?f ^^ Suc k) b" for k using funpow_swap1 [of ?f k b] by simp
  have upt: "map (\<lambda>k. (?f ^^ k) b) [0..<Suc n] = b # map (\<lambda>k. (?f ^^ Suc k) b) [0..<n]" for n
    by (simp add: upt_conv_Cons map_Suc_upt [symmetric] comp_def del: upt_Suc)
  have "\<not> (case max_retries cfg of Some mx \<Rightarrow> ?a > mx | None \<Rightarrow> False)" using a(2) by (auto split: option.split)
  then have "run_with_reconnect cfg (failures (e # es) @ rs) b a =
      (case run_with_reconnect cfg (failures es @ rs) (?f b) ?a of (s, r) \<Rightarrow> (b # s, r))"
    by (simp add: failures_def Let_def)
  with a' a(1) show ?case
    by (intro exI [of _ a']) (auto simp: shift upt split: prod.splits simp del: upt_Suc funpow.simps)
qed



text \<open>With a retry limit \<open>m\<close> below the largest 32-bit value the client gives up exactly after \<open>m\<close> retries that all
  failed, having slept \<open>m\<close> times, whatever would have followed.\<close>

lemma gives_up_at_limit:
  assumes "max_retries cfg = Some m" "m \<noteq> - 1" "length es = unat m"
  shows "snd (reconnect_loop cfg (failures es @ (NoConnection e, i) # rs)) =
      Some (Inl (''giving up after '' @ show_word m @ '' reconnect attempt(s)'')) \<and>
    length (fst (reconnect_loop cfg (failures es @ (NoConnection e, i) # rs))) = unat m"
proof -
  from run_failures [of cfg 0 es "(NoConnection e, i) # rs" "initial_backoff cfg"] assms(1,3)
  obtain a b where run: "reconnect_loop cfg (failures es @ (NoConnection e, i) # rs) =
      (case run_with_reconnect cfg ((NoConnection e, i) # rs) b a of
         (s, r) \<Rightarrow> (map (\<lambda>k. ((\<lambda>b. next_backoff b (max_backoff cfg)) ^^ k) (initial_backoff cfg)) [0..<length es] @ s, r))"
    and a: "unat a = length es" by (auto simp: reconnect_loop_def)
  from a assms(3) have am: "a = m" by (simp add: word_unat_eq_iff)
  have "unat (- 1 :: u32) = 2 ^ 32 - 1" by (simp add: unsigned_minus_1_eq_mask mask_eq_exp_minus_1)
  moreover have "unat m < 2 ^ 32" using unsigned_less [of m] by simp
  ultimately have "unat m < 2 ^ 32 - 1" using assms(2) by (auto simp: word_unat_eq_iff)
  from saturating_add1_unat [OF this] have "saturating_add1 m > m" by (simp add: word_less_nat_alt)
  moreover have "saturating_add1 m = m + 1" using assms(2) by (simp add: saturating_add1_def)
  ultimately have "run_with_reconnect cfg ((NoConnection e, i) # rs) b a =
      ([], Some (Inl (''giving up after '' @ show_word m @ '' reconnect attempt(s)'')))"
    using assms(1) by (simp add: am)
  then show ?thesis using run assms(3) by simp
qed

text \<open>A lost session starts the streak over: the next sleep is the initial backoff again.\<close>

lemma session_resets_backoff:
  "run_with_reconnect cfg ((Session (Disconnected r), i) # rs) b a = reconnect_loop cfg ((NoConnection r, i) # rs)"
  by (simp add: reconnect_loop_def)

lemma no_limit_never_gives_up:
  assumes "max_retries cfg = None"
  shows "snd (reconnect_loop cfg (failures es)) = None"
proof -
  have "snd (run_with_reconnect cfg (failures es) b a) = None" for b a
    by (induction es arbitrary: a b) (auto simp: failures_def assms Let_def split: prod.splits, metis snd_conv)
  then show ?thesis by (simp add: reconnect_loop_def)
qed

text \<open>The attempt counter saturates, so the largest limit is never exceeded.\<close>

lemma largest_limit_never_gives_up:
  assumes "max_retries cfg = Some (- 1)"
  shows "snd (reconnect_loop cfg (failures es)) = None"
proof -
  have "snd (run_with_reconnect cfg (failures es) b a) = None" for b a
    by (induction es arbitrary: a b) (auto simp: failures_def assms Let_def split: prod.splits, metis snd_conv)
  then show ?thesis by (simp add: reconnect_loop_def)
qed

section \<open>Reverse conns\<close>

lemma remotes_by_id_nth:
  assumes "length ids = length rs" "distinct ids" "k < length ids"
  shows "remotes_by_id ids rs (ids ! k) = Some (rs ! k)"
proof -
  have "distinct (map fst (rev (zip ids rs)))" using assms(1,2) by (simp add: rev_map [symmetric])
  moreover have "(ids ! k, rs ! k) \<in> set (rev (zip ids rs))" using assms(1,3) by (auto simp: in_set_zip)
  ultimately show ?thesis unfolding remotes_by_id_def by (rule map_of_is_SomeI)
qed

lemma resolve_reverse_ok:
  assumes "direction r = Reverse" "conn_target (kind r) dyn = Some t"
  shows "\<exists>d. resolve_reverse_dispatch r dyn = Inr d \<and> remote_addr_string (reverse_request d) = Some (to_addr_string t)"
  using assms
  by (cases "kind r"; cases dyn)
    (auto simp: resolve_reverse_dispatch_def remote_addr_string_def remote_request_new_def split: dynamic_target.splits)

text \<open>C27. A conn the server pushes for the k-th declared remote reaches that remote's target: the client accepts it
  exactly when the remote was declared reverse and a target comes with it where its kind needs one, and
  dials the declared target, or for SOCKS the one that came with the conn. A conn under any other id is refused.\<close>

theorem reverse_conn_dispatched:
  assumes "length ids = length rs" "distinct ids" "receive_open_conn cs c = (Inr op, c1)"
    and "reply_open_conn cs OpenOk c1 = (Inr (), c2)"
  shows "(\<exists>d. fst (client_accept_reverse_conn cs (remotes_by_id ids rs) c) = Inr d \<and>
      remote_addr_string (reverse_request d) = Some a) \<longleftrightarrow>
    (\<exists>k t. k < length rs \<and> tunnel_id op = ids ! k \<and> direction (rs ! k) = Reverse \<and>
      conn_target (kind (rs ! k)) (dynamic op) = Some t \<and> a = to_addr_string t)"
proof (cases "\<exists>k<length ids. tunnel_id op = ids ! k")
  case True
  then obtain k where k: "k < length ids" "tunnel_id op = ids ! k" by blast
  from remotes_by_id_nth [OF assms(1,2) k(1)] k(2) have get: "remotes_by_id ids rs (tunnel_id op) = Some (rs ! k)" by simp
  have uniq: "j = k" if "j < length rs" "ids ! k = ids ! j" for j
    using that k(1) assms(1,2) by (simp add: nth_eq_iff_index_eq)
  have "fst (client_accept_reverse_conn cs (remotes_by_id ids rs) c) =
      map_err DispatchError (resolve_reverse_dispatch (rs ! k) (dynamic op))"
    using assms(3,4) get by (simp add: client_accept_reverse_conn_def map_err_def split: sum.split)
  moreover have "(\<exists>d. map_err DispatchError (resolve_reverse_dispatch (rs ! k) (dynamic op)) = Inr d \<and>
        remote_addr_string (reverse_request d) = Some a) \<longleftrightarrow>
      direction (rs ! k) = Reverse \<and> (\<exists>t. conn_target (kind (rs ! k)) (dynamic op) = Some t \<and> a = to_addr_string t)"
    by (cases "direction (rs ! k)"; cases "kind (rs ! k)"; cases "dynamic op")
      (auto simp: resolve_reverse_dispatch_def remote_addr_string_def remote_request_new_def map_err_def
        split: dynamic_target.splits)
  ultimately show ?thesis using k uniq assms(1) by metis
next
  case False
  then have "tunnel_id op \<notin> set ids" by (metis in_set_conv_nth)
  then have "remotes_by_id ids rs (tunnel_id op) = None"
    using assms(1) by (auto simp: remotes_by_id_def map_of_eq_None_iff dest: set_zip_leftD)
  with False assms(1,3) show ?thesis by (auto simp: client_accept_reverse_conn_def)
qed

theorem reverse_conn_dispatched_witness:
  "\<exists>d. fst (client_accept_reverse_conn byte_codecs
      (remotes_by_id [1] [tcp_req\<lparr>direction := Reverse\<rparr>]) open_stream) = Inr d \<and>
    remote_addr_string (reverse_request d) = Some (to_addr_string (host_port_new ''example.org'' 80))"
  unfolding reverse_conn_dispatched [of "[1]" "[tcp_req\<lparr>direction := Reverse\<rparr>]", OF _ _ open_stream_run, simplified]
  by (simp add: tcp_req_def remote_request_new_def)

end
