(* ===== verification/Tunnel.thy ===== *)
theory Tunnel
  imports Listeners Client
begin

text \<open>
  A conn from one end to the other. The opening end announces it on a fresh stream (\<^verbatim>\<open>Listeners\<close>); here is the
  accepting end, after its answer: the rest of \<^verbatim>\<open>handle_open_conn\<close> (\<^verbatim>\<open>src/src/server/mod.rs\<close>), which dials the
  target, pumps and closes the conn's entry, its counterpart \<^verbatim>\<open>client_accept_reverse_conn\<close>
  (\<^verbatim>\<open>src/src/client/mod.rs\<close>), and the UDP parts of \<^verbatim>\<open>src/src/common/udp.rs\<close> both of them run. The theorems connect
  the two ends by the QUIC stream between them, which is reliable and keeps the order of the bytes.
\<close>

section \<open>The accepting end\<close>

text \<open>What the system does for the data plane: the answer of a dial and the room of the socket, the polls of the pump,
  whether a UDP socket can be bound, what arrives on it and how many sends it takes.\<close>

record plane_env =
  dial :: "string \<Rightarrow> io_error + nat"
  quic_room :: nat
  polls :: "poll_event list"
  udp_bind_ok :: "string \<Rightarrow> bool"
  udp_received :: "(socket_addr \<times> bytes) list"
  udp_sends :: nat

text \<open>The two UDP pumps run side by side on the two halves of the stream and share the counters, of which each bumps
  its own; their errors are only logged.\<close>

definition tunnel_udp_stream ::
  "socket_addr \<Rightarrow> (socket_addr \<times> bytes) list \<Rightarrow> nat \<Rightarrow> counters option \<Rightarrow> conn \<Rightarrow>
   (bytes \<times> socket_addr) list \<times> counters option \<times> conn" where
  "tunnel_udp_stream udp_address received sends cs c =
     (case pump_socket_to_stream udp_address received cs c of
        (_, cs1, c1) \<Rightarrow>
          (case pump_stream_to_socket udp_address sends cs1 c1 of (_, sent, cs2, c2) \<Rightarrow> (sent, cs2, c2)))"

datatype udp_server_error = UdpTarget udp_error | UdpBindFailed string

definition tunnel_udp_server ::
  "plane_env \<Rightarrow> remote_request \<Rightarrow> counters option \<Rightarrow> conn \<Rightarrow>
   udp_server_error + (bytes \<times> socket_addr) list \<times> counters option \<times> conn" where
  "tunnel_udp_server env request cs c =
     and_then (map_err UdpTarget (tunnel_udp_server_target request)) (\<lambda>(remote_addr, bind_addr).
     if udp_bind_ok env bind_addr
     then Inr (tunnel_udp_stream remote_addr (udp_received env) (udp_sends env) cs c)
     else Inl (UdpBindFailed bind_addr))"

datatype plane =
  TcpPlane "tcp_server_error + duplex"
| UdpPlane "udp_server_error + (bytes \<times> socket_addr) list \<times> counters option \<times> conn"

text \<open>What a finished plane has counted, in and out.\<close>

fun plane_bytes :: "plane \<Rightarrow> u64 option \<times> u64 option" where
  "plane_bytes (TcpPlane (Inr d)) = (counted (rx d), counted (tx d))"
| "plane_bytes (UdpPlane (Inr (_, cs, _))) = (map_option bytes_in cs, map_option bytes_out cs)"
| "plane_bytes _ = (None, None)"

definition run_forward_plane :: "plane_env \<Rightarrow> forward_dispatch \<Rightarrow> conn \<Rightarrow> plane" where
  "run_forward_plane env d c =
     (case d of
        DispatchTcp req \<Rightarrow> TcpPlane (tunnel_tcp_server (dial env) req (Some counters_new) (quic_room env) (polls env))
      | DispatchUdp req \<Rightarrow> UdpPlane (tunnel_udp_server env req (Some counters_new) c))"

definition handle_open_conn_task ::
  "codecs \<Rightarrow> nat \<Rightarrow> plane_env \<Rightarrow> conn \<Rightarrow> server_state \<Rightarrow> (open_error + plane) \<times> server_state" where
  "handle_open_conn_task cs now env c st =
     (case handle_open_conn cs now c st of
        (Inl e, st1, _) \<Rightarrow> (Inl e, st1)
      | (Inr (d, guard), st1, c1) \<Rightarrow>
          let p = run_forward_plane env d c1 in
          (Inr p, drop_guard (Some guard) (fst (plane_bytes p)) (snd (plane_bytes p)) st1))"

definition client_reverse_task ::
  "codecs \<Rightarrow> (u64 \<rightharpoonup> remote_request) \<Rightarrow> plane_env \<Rightarrow> conn \<Rightarrow> open_error + plane" where
  "client_reverse_task cs by_id env c =
     (case client_accept_reverse_conn cs by_id c of
        (Inl e, _) \<Rightarrow> Inl e
      | (Inr d, c1) \<Rightarrow>
          Inr (case d of
            ReverseTcp req \<Rightarrow> TcpPlane (tunnel_tcp_server (dial env) req None (quic_room env) (polls env))
          | ReverseUdp req \<Rightarrow> UdpPlane (tunnel_udp_server env req None c1)))"

text \<open>\<^verbatim>\<open>spawn_udp_conn\<close>: the task of one UDP source, from the registration of its conn to its end.\<close>

definition spawn_udp_conn ::
  "codecs \<Rightarrow> u64 \<Rightarrow> nat option \<Rightarrow> socket_addr \<Rightarrow> nat \<Rightarrow> string + conn \<Rightarrow> udp_conn_event list \<Rightarrow> nat \<Rightarrow> server_state \<Rightarrow>
   (listen_error + udp_conn_end \<times> (bytes \<times> socket_addr) list \<times> counters option \<times> conn) \<times> server_state" where
  "spawn_udp_conn cs tid handle source now bi evs sends st =
     (case handle_open_conn_guard handle (show_sock source) now st of
        (guard, st1) \<Rightarrow>
          let r = run_udp_conn cs tid source bi evs sends (guard_counters guard);
              k = (case r of Inr (_, _, k, _) \<Rightarrow> k | Inl _ \<Rightarrow> None) in
          (r, drop_guard guard (map_option bytes_in k) (map_option bytes_out k) st1))"

section \<open>Two ends of one stream\<close>

text \<open>What the reading end of a stream is offered when the transport has carried everything a writing half wrote: the
  same bytes in the same order, cut anywhere, and the end of the stream exactly if the writer finished it.\<close>

definition carried :: "half \<Rightarrow> (io_error + bytes) list \<Rightarrow> bool" where
  "carried h rs \<longleftrightarrow> faultless rs \<and> yielded rs = outb (sink h) \<and> ended rs = fin (sink h)"

lemma stream_pair:
  fixes ka kb :: "counters option" and ra ta rb tb :: nat and evs_a evs_b :: "poll_event list"
  defines "a \<equiv> tunnel_tcp_stream ka ra ta evs_a" and "b \<equiv> tunnel_tcp_stream kb rb tb evs_b"
  assumes src: "faultless (tx_ready evs_a)" "faultless (tx_ready evs_b)"
    and net: "carried (tx a) (rx_ready evs_b)" "carried (tx b) (rx_ready evs_a)"
    and room: "length (yielded (tx_ready evs_a)) \<le> min ra tb" "length (yielded (tx_ready evs_b)) \<le> min rb ta"
  shows "a = \<lparr> tx = clean_half ra (map_option bytes_out ka) (polled_tx evs_a) (tx_ready evs_a),
      rx = clean_half ta (map_option bytes_in ka) (polled_rx evs_a) (rx_ready evs_a) \<rparr>"
    and "b = \<lparr> tx = clean_half rb (map_option bytes_out kb) (polled_tx evs_b) (tx_ready evs_b),
      rx = clean_half tb (map_option bytes_in kb) (polled_rx evs_b) (rx_ready evs_b) \<rparr>"
    and "yielded (rx_ready evs_b) = yielded (tx_ready evs_a)" "ended (rx_ready evs_b) = ended (tx_ready evs_a)"
    and "yielded (rx_ready evs_a) = yielded (tx_ready evs_b)" "ended (rx_ready evs_a) = ended (tx_ready evs_b)"
proof -
  have "prefix (yielded (rx_ready evs_b)) (yielded (tx_ready evs_a))"
    "prefix (yielded (rx_ready evs_a)) (yielded (tx_ready evs_b))"
    using net tunnel_half_ok [of evs_a ka ra ta] tunnel_half_ok [of evs_b kb rb tb]
    by (simp_all add: carried_def half_ok_def a_def b_def)
  with room have len: "length (yielded (rx_ready evs_b)) \<le> tb" "length (yielded (rx_ready evs_a)) \<le> ta"
    by (auto dest!: prefix_length_le)
  show a: "a = \<lparr> tx = clean_half ra (map_option bytes_out ka) (polled_tx evs_a) (tx_ready evs_a),
      rx = clean_half ta (map_option bytes_in ka) (polled_rx evs_a) (rx_ready evs_a) \<rparr>"
    unfolding a_def using src net room len by (intro tunnel_clean) (simp_all add: carried_def)
  show b: "b = \<lparr> tx = clean_half rb (map_option bytes_out kb) (polled_tx evs_b) (tx_ready evs_b),
      rx = clean_half tb (map_option bytes_in kb) (polled_rx evs_b) (rx_ready evs_b) \<rparr>"
    unfolding b_def using src net room len by (intro tunnel_clean) (simp_all add: carried_def)
  show "yielded (rx_ready evs_b) = yielded (tx_ready evs_a)" "ended (rx_ready evs_b) = ended (tx_ready evs_a)"
    "yielded (rx_ready evs_a) = yielded (tx_ready evs_b)" "ended (rx_ready evs_a) = ended (tx_ready evs_b)"
    using net a b by (simp_all add: carried_def clean_half_def)
qed

section \<open>The announcement\<close>

lemma open_conn_exchange:
  assumes "control_frame (open_codec cs) op = Some fo" "control_frame (open_response_codec cs) OpenOk = Some fr"
  shows "\<not> fin q \<Longrightarrow> length fo \<le> wleft q \<Longrightarrow> inb q = fr @ rest \<Longrightarrow>
      send_open_conn cs op q = (Inr (), q\<lparr>outb := outb q @ fo, wleft := wleft q - length fo, inb := rest\<rparr>)"
    and "inb s = fo @ rest \<Longrightarrow> receive_open_conn cs s = (Inr op, s\<lparr>inb := rest\<rparr>)"
    and "\<not> fin s \<Longrightarrow> length fr \<le> wleft s \<Longrightarrow>
      reply_open_conn cs OpenOk s = (Inr (), s\<lparr>outb := outb s @ fr, wleft := wleft s - length fr\<rparr>)"
  using ctl.send_frame [OF assms(1), of q] ctl.receive_frame [OF assms(1), of s rest] ctl.send_frame [OF assms(2), of s]
    ctl.receive_frame [OF assms(2), of "q\<lparr>outb := outb q @ fo, wleft := wleft q - length fo\<rparr>" rest]
  by (simp_all add: send_open_conn_def receive_open_conn_def reply_open_conn_def io_bind_def io_ok_def)

text \<open>The two ends of a fresh stream on which only the announcement and its answer have to fit.\<close>

definition fresh_stream :: "bytes \<Rightarrow> bytes \<Rightarrow> conn \<Rightarrow> conn \<Rightarrow> bool" where
  "fresh_stream fo fr q s \<longleftrightarrow> inb q = fr \<and> outb q = [] \<and> \<not> fin q \<and> length fo \<le> wleft q \<and>
     inb s = fo \<and> outb s = [] \<and> \<not> fin s \<and> length fr \<le> wleft s"

lemma fresh_stream_exchange:
  assumes "control_frame (open_codec cs) op = Some fo" "control_frame (open_response_codec cs) OpenOk = Some fr"
    and "fresh_stream fo fr q s"
  obtains q' s1 s' where "send_open_conn cs op q = (Inr (), q')" "receive_open_conn cs s = (Inr op, s1)"
    "reply_open_conn cs OpenOk s1 = (Inr (), s')"
  using assms(3) open_conn_exchange(1) [OF assms(1,2), of q "[]"] open_conn_exchange(2) [OF assms(1,2), of s "[]"]
    open_conn_exchange(3) [OF assms(1,2), of "s\<lparr>inb := []\<rparr>"]
  by (auto simp: fresh_stream_def)

lemma handle_open_static:
  assumes "tunnel st i = Some e" "tn_direction e = Forward"
    and d: "tn_kind e = remote_kind.Tcp l target \<and> d = DispatchTcp (remote_request_new Forward (tn_kind e)) \<or>
      tn_kind e = remote_kind.Udp l target \<and> d = DispatchUdp (remote_request_new Forward (tn_kind e))"
    and "receive_open_conn cs s = (Inr \<lparr> tunnel_id = i, dynamic = None \<rparr>, s1)" "reply_open_conn cs OpenOk s1 = (Inr (), s')"
  obtains t where "dm_get (tunnels st) i = Some t" "handle_open_conn cs now s st =
      (Inr (d, fst (register_conn t (Some (to_addr_string target)) now st)),
       snd (register_conn t (Some (to_addr_string target)) now st), s')"
proof -
  from assms(1) obtain t where "dm_get (tunnels st) i = Some t" "tunnel_heap st ! t = e" by (auto simp: tunnel_some)
  with assms(2,4,5) d that show ?thesis
    by (elim disjE)
      (simp_all add: handle_open_conn_def resolve_dispatch_def peer_label_def remote_addr_string_def remote_request_new_def
        split: prod.splits)
qed

section \<open>A forward TCP conn\<close>

text \<open>C4. A forward TCP tunnel is a transparent connection. A connection accepted by the client's listener is announced under
  the tunnel's id, the server dials the target that was declared for it, and from then on each application receives exactly
  the bytes the other one sent, in order, and sees the end of the stream exactly if the other one ended it, however the two
  pumps are polled and the bytes are cut. The server has accounted the bytes of both directions to the tunnel, and nothing
  else of its directory has changed when the conn is over.\<close>

theorem forward_tcp_end_to_end:
  fixes env :: plane_env and evs :: "poll_event list" and room_quic room_src room_dst :: nat
  defines "a \<equiv> tunnel_tcp_stream None room_quic room_src evs"
    and "b \<equiv> tunnel_tcp_stream (Some counters_new) (quic_room env) room_dst (polls env)"
  assumes st: "wf_state st" "Suc (length (conn_heap st)) < 2 ^ 64"
    and tn: "tunnel st i = Some e" "tn_direction e = Forward" "tn_kind e = remote_kind.Tcp l target"
    and fo: "control_frame (open_codec cs) \<lparr> tunnel_id = i, dynamic = None \<rparr> = Some fo"
    and fr: "control_frame (open_response_codec cs) OpenOk = Some fr" and line: "fresh_stream fo fr q s"
    and dial: "dial env (to_addr_string target) = Inr room_dst"
    and src: "faultless (tx_ready evs)" "faultless (tx_ready (polls env))"
    and room: "length (yielded (tx_ready evs)) \<le> min room_quic room_dst"
      "length (yielded (tx_ready (polls env))) \<le> min (quic_room env) room_src"
    and net: "carried (tx a) (rx_ready (polls env))" "carried (tx b) (rx_ready evs)"
  shows "fst (tunnel_tcp_client_conn cs i None peer now (Inr q) room_quic room_src evs st0) = Inr a \<and>
    fst (handle_open_conn_task cs now' env s st) = Inr (TcpPlane (Inr b)) \<and>
    outb (sink (rx b)) = yielded (tx_ready evs) \<and> fin (sink (rx b)) = ended (tx_ready evs) \<and>
    outb (sink (rx a)) = yielded (tx_ready (polls env)) \<and> fin (sink (rx a)) = ended (tx_ready (polls env)) \<and>
    (let st' = snd (handle_open_conn_task cs now' env s st) in
     wf_state st' \<and> abs_dir st' = abs_dir st \<and>
     (\<exists>t. dm_get (tunnels st) i = Some t \<and> tunnel_bytes st' t =
       (fst (tunnel_bytes st t) + word_of_nat (length (yielded (tx_ready evs))),
        snd (tunnel_bytes st t) + word_of_nat (length (yielded (tx_ready (polls env)))))))"
proof -
  obtain q' s1 s' where ex: "send_open_conn cs \<lparr> tunnel_id = i, dynamic = None \<rparr> q = (Inr (), q')"
      "receive_open_conn cs s = (Inr \<lparr> tunnel_id = i, dynamic = None \<rparr>, s1)" "reply_open_conn cs OpenOk s1 = (Inr (), s')"
    using fresh_stream_exchange [OF fo fr line] .
  obtain t where t: "dm_get (tunnels st) i = Some t"
      "handle_open_conn cs now' s st =
        (Inr (DispatchTcp (remote_request_new Forward (tn_kind e)),
           fst (register_conn t (Some (to_addr_string target)) now' st)),
         snd (register_conn t (Some (to_addr_string target)) now' st), s')"
    using handle_open_static [OF tn(1,2) _ ex(2,3)] tn(3) by metis
  let ?g = "fst (register_conn t (Some (to_addr_string target)) now' st)"
  let ?st1 = "snd (register_conn t (Some (to_addr_string target)) now' st)"
  note pair = stream_pair [OF src net [unfolded a_def b_def] room, folded a_def b_def]
  have opener: "fst (tunnel_tcp_client_conn cs i None peer now (Inr q) room_quic room_src evs st0) = Inr a"
    using ex(1) by (simp add: tunnel_tcp_client_conn_def handle_open_conn_guard_def guard_counters_def a_def Let_def)
  have acceptor: "handle_open_conn_task cs now' env s st =
      (Inr (TcpPlane (Inr b)), drop_guard (Some ?g) (counted (rx b)) (counted (tx b)) ?st1)"
    using t(2) dial tn(3)
    by (simp add: handle_open_conn_task_def run_forward_plane_def tunnel_tcp_server_def remote_addr_string_def
        remote_request_new_def b_def Let_def)
  have cnt: "counted (rx b) = Some (word_of_nat (length (yielded (tx_ready evs))))"
    "counted (tx b) = Some (word_of_nat (length (yielded (tx_ready (polls env)))))"
    using pair(2,3) by (simp_all add: clean_half_def counters_new_def)
  have len: "t < length (tunnel_heap st)" using index_ref [OF _ _ t(1)] st(1) by (simp add: wf_state_def)
  note life = conn_life [OF st(1) len st(2), of "Some (to_addr_string target)" now'
      "word_of_nat (length (yielded (tx_ready evs)))" "word_of_nat (length (yielded (tx_ready (polls env))))"]
  have sinks: "outb (sink (rx b)) = yielded (tx_ready evs)" "fin (sink (rx b)) = ended (tx_ready evs)"
    "outb (sink (rx a)) = yielded (tx_ready (polls env))" "fin (sink (rx a)) = ended (tx_ready (polls env))"
    using pair by (simp_all add: clean_half_def)
  show ?thesis
    unfolding acceptor Let_def using opener sinks t(1) life by (simp add: drop_guard_def cnt)
qed

text \<open>The examples: client 1's TCP tunnel of \<^term>\<open>two_clients\<close>, dialled by a system that accepts everything.\<close>

definition tunnel_env :: plane_env where
  "tunnel_env = \<lparr> dial = (\<lambda>_. Inr 10), quic_room = 10, polls = [PollTx [Inr [7]], PollRx [Inr [1, 2], Inr []]],
     udp_bind_ok = (\<lambda>_. True), udp_received = [(SocketAddrV4 (Ipv4 8 8 8 8) 53, [8, 9])], udp_sends = 5 \<rparr>"

definition demo_polls :: "poll_event list" where
  "demo_polls = [PollTx [Inr [1], Inr [2]], PollRx [Inr [7]], PollTx [Inr []]]"

lemma demo_open_frames:
  "control_frame (open_codec byte_codecs) \<lparr> tunnel_id = 1, dynamic = None \<rparr> = Some [1, 0, 0, 0, 1]"
  "control_frame (open_response_codec byte_codecs) OpenOk = Some [1, 0, 0, 0, 1]"
  by (simp_all add: control_frame_def byte_codecs_def le_bytes_1 max_control_msg_def)

lemma demo_line: "fresh_stream [1, 0, 0, 0, 1] [1, 0, 0, 0, 1] open_stream open_stream"
  by (simp add: fresh_stream_def open_stream_def open_line_def)

lemmas demo_pump_simps = carried_def tunnel_env_def demo_polls_def tunnel_tcp_stream_def tunnel_tcp_poll_def duplex_poll_def
  poll_half_def half_new_def count_read_def write_all_def conclude_def send_shutdown_def shutdown_def Let_def

lemma demo_carried:
  "carried (tx (tunnel_tcp_stream k 10 10 demo_polls)) (rx_ready (polls tunnel_env))"
  "carried (tx (tunnel_tcp_stream k 10 10 (polls tunnel_env))) (rx_ready demo_polls)"
  by (simp_all add: demo_pump_simps)

theorem forward_tcp_end_to_end_witness:
  "\<exists>b st'. handle_open_conn_task byte_codecs 8 tunnel_env open_stream two_clients = (Inr (TcpPlane (Inr b)), st') \<and>
     outb (sink (rx b)) = [1, 2] \<and> fin (sink (rx b)) \<and> abs_dir st' = abs_dir two_clients"
proof -
  have st: "wf_state two_clients" "Suc (length (conn_heap two_clients)) < 2 ^ 64"
    using reach_wf [OF two_clients_reach] by (simp_all add: two_clients_def demo_defs)
  have kind: "tn_direction (declared 1 1 6 tcp_req) = Forward"
    "tn_kind (declared 1 1 6 tcp_req) = remote_kind.Tcp demo_addr (host_port_new ''example.org'' 80)"
    by (simp_all add: declared_def tcp_req_def remote_request_new_def)
  from forward_tcp_end_to_end [OF st two_clients_tunnel kind demo_open_frames demo_line, where env = tunnel_env
      and evs = demo_polls and room_quic = 10 and room_src = 10 and room_dst = 10 and now' = 8] demo_carried
  show ?thesis
    by (cases "handle_open_conn_task byte_codecs 8 tunnel_env open_stream two_clients")
      (simp add: tunnel_env_def demo_polls_def Let_def)
qed

section \<open>A reverse TCP conn\<close>

text \<open>C12. A reverse TCP tunnel is a transparent connection as well: a connection accepted by the server's listener reaches the
  client's task for the remote declared under that id, the client dials that remote's target, and the bytes and the ends of
  both directions arrive unchanged; the server accounts them to the tunnel.\<close>

theorem reverse_tcp_end_to_end:
  fixes env :: plane_env and evs :: "poll_event list" and room_quic room_src room_dst :: nat
  defines "a \<equiv> tunnel_tcp_stream (Some counters_new) room_quic room_src evs"
    and "b \<equiv> tunnel_tcp_stream None (quic_room env) room_dst (polls env)"
  assumes st: "wf_state st" "t < length (tunnel_heap st)" "Suc (length (conn_heap st)) < 2 ^ 64"
    and tn: "length ids = length rs" "distinct ids" "k < length rs" "direction (rs ! k) = Reverse"
      "kind (rs ! k) = remote_kind.Tcp l target"
    and fo: "control_frame (open_codec cs) \<lparr> tunnel_id = ids ! k, dynamic = None \<rparr> = Some fo"
    and fr: "control_frame (open_response_codec cs) OpenOk = Some fr" and line: "fresh_stream fo fr q s"
    and dial: "dial env (to_addr_string target) = Inr room_dst"
    and src: "faultless (tx_ready evs)" "faultless (tx_ready (polls env))"
    and room: "length (yielded (tx_ready evs)) \<le> min room_quic room_dst"
      "length (yielded (tx_ready (polls env))) \<le> min (quic_room env) room_src"
    and net: "carried (tx a) (rx_ready (polls env))" "carried (tx b) (rx_ready evs)"
  shows "fst (tunnel_tcp_client_conn cs (ids ! k) (Some t) peer now (Inr q) room_quic room_src evs st) = Inr a \<and>
    client_reverse_task cs (remotes_by_id ids rs) env s = Inr (TcpPlane (Inr b)) \<and>
    outb (sink (rx b)) = yielded (tx_ready evs) \<and> fin (sink (rx b)) = ended (tx_ready evs) \<and>
    outb (sink (rx a)) = yielded (tx_ready (polls env)) \<and> fin (sink (rx a)) = ended (tx_ready (polls env)) \<and>
    (let st' = snd (tunnel_tcp_client_conn cs (ids ! k) (Some t) peer now (Inr q) room_quic room_src evs st) in
     wf_state st' \<and> abs_dir st' = abs_dir st \<and> tunnel_bytes st' t =
       (fst (tunnel_bytes st t) + word_of_nat (length (yielded (tx_ready (polls env)))),
        snd (tunnel_bytes st t) + word_of_nat (length (yielded (tx_ready evs)))))"
proof -
  obtain q' s1 s' where ex: "send_open_conn cs \<lparr> tunnel_id = ids ! k, dynamic = None \<rparr> q = (Inr (), q')"
      "receive_open_conn cs s = (Inr \<lparr> tunnel_id = ids ! k, dynamic = None \<rparr>, s1)"
      "reply_open_conn cs OpenOk s1 = (Inr (), s')"
    using fresh_stream_exchange [OF fo fr line] .
  note pair = stream_pair [OF src net [unfolded a_def b_def] room, folded a_def b_def]
  have cnt: "counted (rx a) = Some (word_of_nat (length (yielded (tx_ready (polls env)))))"
    "counted (tx a) = Some (word_of_nat (length (yielded (tx_ready evs))))"
    using pair(1,5) by (simp_all add: clean_half_def counters_new_def)
  have opener: "tunnel_tcp_client_conn cs (ids ! k) (Some t) peer now (Inr q) room_quic room_src evs st =
      (Inr a, drop_guard (Some (fst (register_conn t (Some (show_sock peer)) now st))) (counted (rx a)) (counted (tx a))
        (snd (register_conn t (Some (show_sock peer)) now st)))"
    using ex(1)
    by (simp add: tunnel_tcp_client_conn_def handle_open_conn_guard_def guard_counters_def a_def Let_def split: prod.split)
  have "client_accept_reverse_conn cs (remotes_by_id ids rs) s =
      (Inr (ReverseTcp (remote_request_new Reverse (remote_kind.Tcp l target))), s')"
    using ex(2,3) tn remotes_by_id_nth [OF tn(1,2), of k]
    by (simp add: client_accept_reverse_conn_def resolve_reverse_dispatch_def)
  then have acceptor: "client_reverse_task cs (remotes_by_id ids rs) env s = Inr (TcpPlane (Inr b))"
    using dial by (simp add: client_reverse_task_def tunnel_tcp_server_def remote_addr_string_def remote_request_new_def b_def)
  note life = conn_life [OF st, of "Some (show_sock peer)" now "word_of_nat (length (yielded (tx_ready (polls env))))"
      "word_of_nat (length (yielded (tx_ready evs)))"]
  have sinks: "outb (sink (rx b)) = yielded (tx_ready evs)" "fin (sink (rx b)) = ended (tx_ready evs)"
    "outb (sink (rx a)) = yielded (tx_ready (polls env))" "fin (sink (rx a)) = ended (tx_ready (polls env))"
    using pair by (simp_all add: clean_half_def)
  show ?thesis
    unfolding opener Let_def using acceptor sinks life by (simp add: drop_guard_def cnt)
qed

theorem reverse_tcp_end_to_end_witness:
  "\<exists>b. client_reverse_task byte_codecs (remotes_by_id [1] [tcp_req\<lparr>direction := Reverse\<rparr>]) tunnel_env open_stream =
      Inr (TcpPlane (Inr b)) \<and> outb (sink (rx b)) = [1, 2] \<and> fin (sink (rx b))"
proof -
  have st: "wf_state two_clients" "0 < length (tunnel_heap two_clients)" "Suc (length (conn_heap two_clients)) < 2 ^ 64"
    using reach_wf [OF two_clients_reach] by (simp_all add: two_clients_def demo_defs)
  from reverse_tcp_end_to_end [OF st, of "[1]" "[tcp_req\<lparr>direction := Reverse\<rparr>]" 0 demo_addr
      "host_port_new ''example.org'' 80" byte_codecs, where env = tunnel_env and evs = demo_polls and room_quic = 10
      and room_src = 10 and room_dst = 10 and q = open_stream and s = open_stream] demo_carried demo_open_frames demo_line
  show ?thesis
    by (simp add: tunnel_env_def demo_polls_def tcp_req_def remote_request_new_def Let_def)
qed

section \<open>A forward UDP conn\<close>

lemma udp_stream_exact:
  assumes "dgram.frames (payloads_from dst ds) = Some down" "dgram.frames ps = Some up"
    and "inb c = up" "\<not> fin c" "length down \<le> wleft c" "length ps \<le> sends"
  shows "tunnel_udp_stream dst ds sends cs c =
    (map (\<lambda>p. (p, dst)) ps, count_in (total_len ps) (count_out (total_len (payloads_from dst ds)) cs),
     c\<lparr>inb := [], outb := outb c @ down, wleft := wleft c - length down\<rparr>)"
proof -
  let ?cs = "count_out (total_len (payloads_from dst ds)) cs"
  let ?c = "c\<lparr>outb := outb c @ down, wleft := wleft c - length down\<rparr>"
  have "inb ?c = up" using assms(3) by simp
  from pump_stream_frames [OF assms(2) this assms(6), of dst ?cs] obtain err where
    "pump_stream_to_socket dst sends ?cs ?c = (err, map (\<lambda>p. (p, dst)) ps, count_in (total_len ps) ?cs, ?c\<lparr>inb := []\<rparr>)" ..
  with pump_socket_frames [OF assms(1,4,5), of cs] show ?thesis by (simp add: tunnel_udp_stream_def)
qed


definition udp_client :: server_state where
  "udp_client = snd (register_tunnel 0 (remote_request_new Forward
     (remote_kind.Udp demo_addr \<lparr> host = show_ip (V4 (Ipv4 8 8 8 8)), port = 53 \<rparr>)) 6 demo_joined)"

lemma udp_client_wf: "wf_state udp_client"
proof -
  have "registry_step demo_joined [] udp_client"
    unfolding udp_client_def by (rule tunnel_in) (simp_all add: demo_defs)
  with demo_joined_reachable have "registry_reachable udp_client []" using step by fastforce
  then show ?thesis by (rule reachable_wf)
qed

end
