(* ===== verification/Tls.thy ===== *)
theory Tls
  imports Rust_Text
begin

text \<open>
  TLS settings and identities: \<^verbatim>\<open>src/src/common/tls.rs\<close> (modes, fingerprints), the identity and
  verifier parts of \<^verbatim>\<open>src/src/common/quic.rs\<close>, and the choice of a mode in \<^verbatim>\<open>src/src/main.rs\<close>.
  Certificates and keys are bytes. PEM parsing, certificate generation and SHA-256 belong to libraries and are
  fields of \<^verbatim>\<open>crypto_lib\<close>. A file system maps a path to the contents and the mode of the file.
\<close>

section \<open>Modes\<close>

datatype server_tls =
  Insecure
| SelfSigned (state_dir: string)
| Provided (prov_cert: string) (prov_key: string)
| Mtls (mtls_cert: string) (mtls_key: string) (mtls_ca: string)

datatype client_tls =
  ClientInsecure
| Fingerprint (fp_sha256: bytes) (fp_name: "string option")
| Ca (ca_path: string) (ca_name: "string option")
| ClientMtls (cm_ca: string) (cm_cert: string) (cm_key: string) (cm_name: "string option")

section \<open>Fingerprints\<close>

definition hex_byte :: "u8 \<Rightarrow> string" where
  "hex_byte b = [digit_char (unat b div 16), digit_char (unat b mod 16)]"

definition format_fingerprint :: "bytes \<Rightarrow> string" where
  "format_fingerprint digest = ''sha256:'' @ concat (map hex_byte digest)"

text \<open>The encodings of the characters \<^verbatim>\<open>str::trim\<close> strips.\<close>

definition whitespace :: "string list" where
  "whitespace = map (map char_of)
     [[32], [9], [10], [11], [12], [13], [194, 133], [194, 160], [225, 154, 128 :: nat],
      [226, 128, 128], [226, 128, 129], [226, 128, 130], [226, 128, 131], [226, 128, 132], [226, 128, 133],
      [226, 128, 134], [226, 128, 135], [226, 128, 136], [226, 128, 137], [226, 128, 138], [226, 128, 168],
      [226, 128, 169], [226, 128, 175], [226, 129, 159], [227, 128, 128]]"

fun trim_with :: "nat \<Rightarrow> string list \<Rightarrow> string \<Rightarrow> string" where
  "trim_with 0 ws s = s"
| "trim_with (Suc n) ws s =
     (case List.find (\<lambda>w. strip_prefix w s \<noteq> None) ws of
        None \<Rightarrow> s
      | Some w \<Rightarrow> trim_with n ws (drop (length w) s))"

text \<open>Each round drops at least one byte, so the length is enough fuel.\<close>

definition trim :: "string \<Rightarrow> string" where
  "trim s =
     (let t = trim_with (length s) whitespace s in
      rev (trim_with (length t) (map rev whitespace) (rev t)))"

datatype fingerprint_error =
  WrongLength nat
| InvalidHex string nat int_error
| SlicePanic

text \<open>A byte index is a character boundary unless it points at a continuation byte.\<close>

definition char_boundary :: "string \<Rightarrow> nat \<Rightarrow> bool" where
  "char_boundary s i \<longleftrightarrow> i = length s \<or> (i < length s \<and> \<not> is_cont (word_of_nat (of_char (s ! i))))"

fun parse_hex_bytes :: "string \<Rightarrow> nat \<Rightarrow> nat \<Rightarrow> fingerprint_error + bytes" where
  "parse_hex_bytes cleaned i 0 = Inr []"
| "parse_hex_bytes cleaned i (Suc n) =
     (if char_boundary cleaned (i * 2) \<and> char_boundary cleaned (i * 2 + 2) then
        let chunk = take 2 (drop (i * 2) cleaned) in
        (case parse_uint 16 255 chunk of
           Inl e \<Rightarrow> Inl (InvalidHex chunk i e)
         | Inr b \<Rightarrow> and_then (parse_hex_bytes cleaned (Suc i) n) (\<lambda>bs. Inr (word_of_nat b # bs)))
      else Inl SlicePanic)"

definition parse_fingerprint :: "string \<Rightarrow> fingerprint_error + bytes" where
  "parse_fingerprint s =
     (let trimmed = trim s;
          body = (case strip_prefix ''sha256:'' trimmed of
                    Some b \<Rightarrow> b
                  | None \<Rightarrow> (case strip_prefix ''SHA256:'' trimmed of Some b \<Rightarrow> b | None \<Rightarrow> trimmed));
          cleaned = filter (\<lambda>c. c \<noteq> CHR '':'') body in
      if length cleaned \<noteq> 64 then Inl (WrongLength (length cleaned))
      else parse_hex_bytes cleaned 0 32)"

section \<open>Choosing a mode\<close>

record embedded_creds =
  em_ca :: "string option"
  em_server_cert :: "string option"
  em_server_key :: "string option"
  em_client_cert :: "string option"
  em_client_key :: "string option"
  em_server_name :: "string option"
  em_fingerprint :: "string option"

definition no_server_mode :: string where
  "no_server_mode = ''no TLS mode specified. Pass one of --insecure, --tls-self-signed, --tls-cert + --tls-key (with optional --tls-ca for mTLS), or build with RUSNEL_EMBED_SERVER_CERT / RUSNEL_EMBED_SERVER_KEY.''"

definition no_client_mode :: string where
  "no_client_mode = ''no TLS mode specified. Pass one of --insecure, --tls-fingerprint, --tls-ca (with optional --tls-cert + --tls-key for mTLS), or build with RUSNEL_EMBED_CA / RUSNEL_EMBED_FINGERPRINT.''"

text \<open>\<^verbatim>\<open>Path::join\<close>: an absolute path replaces the directory.\<close>

definition path_join :: "string \<Rightarrow> string \<Rightarrow> string" where
  "path_join dir name =
     (if name \<noteq> [] \<and> hd name = CHR ''/'' then name
      else if dir = [] \<or> last dir = CHR ''/'' then dir @ name
      else dir @ ''/'' @ name)"

definition default_state_dir :: "string option \<Rightarrow> string + string" where
  "default_state_dir home =
     (case home of
        Some h \<Rightarrow> Inr (path_join h ''.rusnel'')
      | None \<Rightarrow> Inl ''could not determine home directory; pass --tls-state-dir explicitly'')"

definition resolve_server_tls ::
  "string option \<Rightarrow> bool \<Rightarrow> bool \<Rightarrow> string option \<Rightarrow> string option \<Rightarrow> string option \<Rightarrow> string option \<Rightarrow>
   embedded_creds \<Rightarrow> string + server_tls" where
  "resolve_server_tls home insecure tls_self_signed tls_state_dir tls_cert tls_key tls_ca em =
     (if insecure then Inr Insecure
      else if tls_self_signed then
        and_then (case tls_state_dir of Some p \<Rightarrow> Inr p | None \<Rightarrow> default_state_dir home) (\<lambda>d. Inr (SelfSigned d))
      else
        case (tls_cert, tls_key) of
          (Some cert, Some key) \<Rightarrow>
            Inr (case tls_ca of Some ca \<Rightarrow> Mtls cert key ca | None \<Rightarrow> Provided cert key)
        | _ \<Rightarrow>
           (case (em_server_cert em, em_server_key em) of
              (Some cert, Some key) \<Rightarrow>
                Inr (case em_ca em of Some ca \<Rightarrow> Mtls cert key ca | None \<Rightarrow> Provided cert key)
            | _ \<Rightarrow> Inl no_server_mode))"

definition resolve_client_tls ::
  "(fingerprint_error \<Rightarrow> string) \<Rightarrow> bool \<Rightarrow> string option \<Rightarrow> string option \<Rightarrow> string option \<Rightarrow> string option \<Rightarrow>
   string option \<Rightarrow> embedded_creds \<Rightarrow> string + client_tls" where
  "resolve_client_tls show_fp_error insecure tls_fingerprint tls_ca tls_cert tls_key tls_server_name em =
     (let name = (case tls_server_name of Some n \<Rightarrow> Some n | None \<Rightarrow> em_server_name em) in
      if insecure then Inr ClientInsecure
      else
        case tls_fingerprint of
          Some raw \<Rightarrow>
            and_then (map_err (\<lambda>e. ''invalid --tls-fingerprint value `'' @ raw @ ''`: '' @ show_fp_error e)
              (parse_fingerprint raw)) (\<lambda>d. Inr (Fingerprint d name))
        | None \<Rightarrow>
           (case tls_ca of
              Some ca \<Rightarrow>
                Inr (case (tls_cert, tls_key) of
                  (Some cert, Some key) \<Rightarrow> ClientMtls ca cert key name | _ \<Rightarrow> Ca ca name)
            | None \<Rightarrow>
               (case em_ca em of
                  Some ca \<Rightarrow>
                    Inr (case (em_client_cert em, em_client_key em) of
                      (Some cert, Some key) \<Rightarrow> ClientMtls ca cert key name | _ \<Rightarrow> Ca ca name)
                | None \<Rightarrow>
                   (case em_fingerprint em of
                      Some fp \<Rightarrow>
                        and_then (map_err (\<lambda>e. ''invalid embedded fingerprint (RUSNEL_EMBED_FINGERPRINT) `'' @ fp @ ''`: '' @
                          show_fp_error e) (parse_fingerprint fp)) (\<lambda>d. Inr (Fingerprint d name))
                    | None \<Rightarrow> Inl no_client_mode))))"

section \<open>Identities\<close>

record crypto_lib =
  parse_certs :: "bytes \<Rightarrow> bytes list option"
  parse_key :: "bytes \<Rightarrow> bytes option option"
  sha256 :: "bytes \<Rightarrow> bytes"
  root_ok :: "bytes \<Rightarrow> bool"
  verifier_ok :: "bytes list \<Rightarrow> bool"
  cert_ok :: "bytes list \<times> bytes \<Rightarrow> bool"
  writable :: "string \<Rightarrow> bool"

text \<open>What one call of the generator makes: the DER and the PEM form of certificate and key.\<close>

record generated =
  gen_cert :: bytes
  gen_key :: bytes
  gen_cert_pem :: bytes
  gen_key_pem :: bytes

type_synonym file_system = "string \<rightharpoonup> bytes \<times> nat"

datatype identity_error =
  ReadCertFailed string
| ParseCertFailed string
| NoCertificates string
| ReadKeyFailed string
| ParseKeyFailed string
| NoPrivateKey string
| AddRootFailed string
| VerifierFailed
| InstallCertFailed
| CreateDirFailed string
| WriteFileFailed string
| GenerateFailed

definition load_pem_certs :: "crypto_lib \<Rightarrow> file_system \<Rightarrow> string \<Rightarrow> identity_error + bytes list" where
  "load_pem_certs lib fs path =
     (case fs path of
        None \<Rightarrow> Inl (ReadCertFailed path)
      | Some (pem, _) \<Rightarrow>
         (case parse_certs lib pem of
            None \<Rightarrow> Inl (ParseCertFailed path)
          | Some certs \<Rightarrow> if certs = [] then Inl (NoCertificates path) else Inr certs))"

definition load_pem_identity ::
  "crypto_lib \<Rightarrow> file_system \<Rightarrow> string \<Rightarrow> string \<Rightarrow> identity_error + bytes list \<times> bytes" where
  "load_pem_identity lib fs cert_path key_path =
     and_then (load_pem_certs lib fs cert_path) (\<lambda>chain.
     case fs key_path of
       None \<Rightarrow> Inl (ReadKeyFailed key_path)
     | Some (pem, _) \<Rightarrow>
        (case parse_key lib pem of
           None \<Rightarrow> Inl (ParseKeyFailed key_path)
         | Some None \<Rightarrow> Inl (NoPrivateKey key_path)
         | Some (Some key) \<Rightarrow> Inr (chain, key)))"

definition load_root_store :: "crypto_lib \<Rightarrow> file_system \<Rightarrow> string \<Rightarrow> identity_error + bytes list" where
  "load_root_store lib fs path =
     and_then (load_pem_certs lib fs path) (\<lambda>certs.
     if list_all (root_ok lib) certs then Inr certs else Inl (AddRootFailed path))"

text \<open>\<^verbatim>\<open>fs::write\<close> creates with the umask's mode or keeps the mode of a file that is there.\<close>

definition default_mode :: nat where
  "default_mode = 420"

definition write_file :: "string \<Rightarrow> bytes \<Rightarrow> file_system \<Rightarrow> file_system" where
  "write_file path contents fs =
     fs(path \<mapsto> (contents, case fs path of None \<Rightarrow> default_mode | Some (_, m) \<Rightarrow> m))"

definition set_mode :: "string \<Rightarrow> nat \<Rightarrow> file_system \<Rightarrow> file_system" where
  "set_mode path m fs = (case fs path of None \<Rightarrow> fs | Some (c, _) \<Rightarrow> fs(path \<mapsto> (c, m)))"

text \<open>The two states a secret file goes through.\<close>

definition write_secret_file :: "string \<Rightarrow> bytes \<Rightarrow> file_system \<Rightarrow> file_system list" where
  "write_secret_file path contents fs =
     (let fs1 = write_file path contents fs in [fs1, set_mode path 384 fs1])"

definition load_or_create_self_signed ::
  "crypto_lib \<Rightarrow> generated option \<Rightarrow> string \<Rightarrow> file_system \<Rightarrow> (identity_error + bytes list \<times> bytes) \<times> file_system" where
  "load_or_create_self_signed lib gen dir fs =
     (let cert_path = path_join dir ''server.pem''; key_path = path_join dir ''server.key'' in
      if fs cert_path \<noteq> None \<and> fs key_path \<noteq> None then (load_pem_identity lib fs cert_path key_path, fs)
      else if \<not> writable lib dir then (Inl (CreateDirFailed dir), fs)
      else case gen of
        None \<Rightarrow> (Inl GenerateFailed, fs)
      | Some g \<Rightarrow>
          if \<not> writable lib cert_path then (Inl (WriteFileFailed cert_path), fs)
          else
            let fs1 = write_file cert_path (gen_cert_pem g) fs in
            if \<not> writable lib key_path then (Inl (WriteFileFailed key_path), fs1)
            else (Inr ([gen_cert g], gen_key g), last (write_secret_file key_path (gen_key_pem g) fs1)))"

definition load_server_identity ::
  "crypto_lib \<Rightarrow> generated option \<Rightarrow> server_tls \<Rightarrow> file_system \<Rightarrow> (identity_error + bytes list \<times> bytes) \<times> file_system" where
  "load_server_identity lib gen tls fs =
     (case tls of
        Insecure \<Rightarrow>
          ((case gen of None \<Rightarrow> Inl GenerateFailed | Some g \<Rightarrow> Inr ([gen_cert g], gen_key g)), fs)
      | SelfSigned dir \<Rightarrow> load_or_create_self_signed lib gen dir fs
      | Provided cert key \<Rightarrow> (load_pem_identity lib fs cert key, fs)
      | Mtls cert key _ \<Rightarrow> (load_pem_identity lib fs cert key, fs))"

section \<open>What each side checks\<close>

datatype client_auth = NoClientAuth | RequireCertFrom "bytes list"

datatype server_check = SkipVerification | PinFingerprint bytes | RootCerts "bytes list"

text \<open>The TLS part of the two configurations: whom the server asks for a certificate, and how the client checks the
  server and which identity it shows. The library may refuse to build a verifier over the roots or to install an
  identity.\<close>

definition install :: "crypto_lib \<Rightarrow> bytes list \<times> bytes \<Rightarrow> 'a \<Rightarrow> identity_error + 'a" where
  "install lib ident x = (if cert_ok lib ident then Inr x else Inl InstallCertFailed)"

definition build_quic_server_config ::
  "crypto_lib \<Rightarrow> file_system \<Rightarrow> server_tls \<Rightarrow> bytes list \<times> bytes \<Rightarrow> identity_error + client_auth" where
  "build_quic_server_config lib fs tls ident =
     (case tls of
        Mtls _ _ ca \<Rightarrow>
          and_then (load_root_store lib fs ca) (\<lambda>roots.
          if verifier_ok lib roots then install lib ident (RequireCertFrom roots) else Inl VerifierFailed)
      | _ \<Rightarrow> install lib ident NoClientAuth)"

definition build_quic_client_config ::
  "crypto_lib \<Rightarrow> file_system \<Rightarrow> client_tls \<Rightarrow> identity_error + server_check \<times> (bytes list \<times> bytes) option" where
  "build_quic_client_config lib fs tls =
     (case tls of
        ClientInsecure \<Rightarrow> Inr (SkipVerification, None)
      | Fingerprint d _ \<Rightarrow> Inr (PinFingerprint d, None)
      | Ca ca _ \<Rightarrow> and_then (load_root_store lib fs ca) (\<lambda>roots. Inr (RootCerts roots, None))
      | ClientMtls ca cert key _ \<Rightarrow>
          and_then (load_root_store lib fs ca) (\<lambda>roots.
          and_then (load_pem_identity lib fs cert key) (\<lambda>ident. install lib ident (RootCerts roots, Some ident))))"

definition verify_pinned :: "crypto_lib \<Rightarrow> bytes \<Rightarrow> bytes \<Rightarrow> bool" where
  "verify_pinned lib expected end_entity \<longleftrightarrow> sha256 lib end_entity = expected"

definition client_server_name :: "client_tls \<Rightarrow> string \<Rightarrow> string" where
  "client_server_name tls server_host =
     (case tls of
        ClientInsecure \<Rightarrow> server_host
      | Fingerprint _ n \<Rightarrow> (case n of Some s \<Rightarrow> s | None \<Rightarrow> server_host)
      | Ca _ n \<Rightarrow> (case n of Some s \<Rightarrow> s | None \<Rightarrow> server_host)
      | ClientMtls _ _ _ n \<Rightarrow> (case n of Some s \<Rightarrow> s | None \<Rightarrow> server_host))"

section \<open>Fingerprints round-trip\<close>

lemma find_none: "(\<And>x. x \<in> set xs \<Longrightarrow> \<not> P x) \<Longrightarrow> List.find P xs = None"
  by (induction xs) auto

lemma trim_with_id:
  assumes "s \<noteq> []" "\<And>w. w \<in> set ws \<Longrightarrow> w \<noteq> [] \<and> hd w \<noteq> hd s"
  shows "trim_with n ws s = s"
proof (cases n)
  case (Suc m)
  have "strip_prefix w s = None" if "w \<in> set ws" for w
  proof (rule ccontr)
    assume "strip_prefix w s \<noteq> None"
    then obtain r where "s = w @ r" by (auto simp: strip_prefix_Some_iff)
    with assms(2) [OF that] show False by (cases w) auto
  qed
  then show ?thesis by (simp add: Suc find_none)
qed simp

lemma trim_id:
  assumes "s \<noteq> []" "\<And>w. w \<in> set whitespace \<Longrightarrow> hd w \<noteq> hd s \<and> last w \<noteq> last s"
  shows "trim s = s"
proof -
  have ne: "w \<noteq> []" if "w \<in> set whitespace" for w using that by (auto simp: whitespace_def)
  have "trim_with n whitespace s = s" for n using assms ne by (intro trim_with_id) auto
  moreover have "trim_with n (map rev whitespace) (rev s) = rev s" for n
    using assms ne by (intro trim_with_id) (auto simp: hd_rev)
  ultimately show ?thesis by (simp add: trim_def Let_def)
qed

lemma whitespace_ends:
  "\<forall>w\<in>set whitespace. of_char (hd w) \<noteq> (115 :: nat) \<and> \<not> is_digit 16 (last w)"
  by (simp add: whitespace_def is_digit_def to_digit_def)

lemma hex_byte_parts [simp]: "length (hex_byte b) = 2" "hex_byte b \<noteq> []"
  by (simp_all add: hex_byte_def)

lemma hex_high: "unat (b :: u8) div 16 < 16"
  using unat_u8_bound [of b] by (simp add: less_mult_imp_div_less)

lemma hex_byte_digits: "c \<in> set (hex_byte b) \<Longrightarrow> is_digit 16 c"
  by (auto simp: hex_byte_def hex_high)

lemma digit_ascii: "is_digit 16 c \<Longrightarrow> \<not> is_cont (word_of_nat (of_char c))"
proof -
  assume "is_digit 16 c"
  then have "of_char c < (128 :: nat)" by (auto simp: is_digit_def to_digit_def Let_def split: if_splits)
  then show ?thesis by (simp add: is_cont_def unat_of_nat)
qed

lemma parse_hex_byte: "parse_uint 16 255 (hex_byte b) = Inr (unat b)"
proof -
  have lt: "unat b div 16 < 16" "unat b mod 16 < 16" by (simp_all add: hex_high)
  have "digit_char (unat b div 16) \<noteq> CHR ''+''"
    using is_digit_digit_char [OF lt(1)] not_digit_punct(6) by force
  with lt unat_u8_bound [of b] show ?thesis by (simp add: parse_uint_def hex_byte_def mult.commute)
qed

lemma drop_concat_hex: "drop (2 * i) (concat (map hex_byte ds)) = concat (map hex_byte (drop i ds))"
proof (induction i arbitrary: ds)
  case (Suc i)
  then show ?case by (cases ds) simp_all
qed simp

lemma length_concat_hex [simp]: "length (concat (map hex_byte ds)) = 2 * length ds"
  by (induction ds) simp_all

lemma parse_hex_concat:
  "i + n = length ds \<Longrightarrow> parse_hex_bytes (concat (map hex_byte ds)) i n = Inr (drop i ds)"
proof (induction n arbitrary: i)
  case (Suc n)
  let ?s = "concat (map hex_byte ds)"
  from Suc.prems have i: "i < length ds" by simp
  have "char_boundary ?s j" if "j \<le> length ?s" for j
  proof (cases "j = length ?s")
    case False
    with that have "j < length ?s" by linarith
    then have "?s ! j \<in> set ?s" by (rule nth_mem)
    then have "is_digit 16 (?s ! j)" using hex_byte_digits by auto
    with False that show ?thesis by (simp add: char_boundary_def digit_ascii)
  qed (simp add: char_boundary_def)
  then have b: "char_boundary ?s (i * 2)" "char_boundary ?s (i * 2 + 2)" using i by simp_all
  have "take 2 (drop (i * 2) ?s) = hex_byte (ds ! i)"
    using i by (simp add: mult.commute [of i] drop_concat_hex flip: Cons_nth_drop_Suc)
  with b Suc.IH [of "Suc i"] Suc.prems i show ?case
    by (simp add: parse_hex_byte Let_def Cons_nth_drop_Suc)
qed simp

lemma parse_format_fingerprint:
  assumes "length d = 32"
  shows "parse_fingerprint (format_fingerprint d) = Inr d"
proof -
  let ?h = "concat (map hex_byte d)"
  have h: "?h \<noteq> []" using assms length_concat_hex [of d] by (metis length_0_conv mult_eq_0_iff numeral_eq_iff zero_neq_numeral)
  have digits: "is_digit 16 c" if "c \<in> set ?h" for c using that hex_byte_digits by auto
  have "d \<noteq> []" using assms by auto
  then have "last ?h = digit_char (unat (last d) mod 16)"
    by (subst append_butlast_last_id [symmetric, of d]) (simp_all add: hex_byte_def del: append_butlast_last_id)
  then have l: "is_digit 16 (last (format_fingerprint d))" using h by (simp add: format_fingerprint_def)
  have "trim (format_fingerprint d) = format_fingerprint d"
  proof (rule trim_id)
    show "hd w \<noteq> hd (format_fingerprint d) \<and> last w \<noteq> last (format_fingerprint d)" if "w \<in> set whitespace" for w
      using l bspec [OF whitespace_ends that] by (auto simp: format_fingerprint_def)
  qed (simp add: format_fingerprint_def)
  moreover have "filter (\<lambda>c. c \<noteq> CHR '':'') ?h = ?h"
    using digits not_digit_punct(1) by (intro filter_True) metis
  ultimately show ?thesis
    using assms parse_hex_concat [of 0 32 d]
    by (simp add: parse_fingerprint_def Let_def format_fingerprint_def strip_prefix_def)
qed

text \<open>C21. The fingerprint the server prints can be given to the client as it is: parsing it yields the digest, and the
  client then runs in pinning mode and accepts a server certificate exactly when it has that digest,
  whatever other settings are present.\<close>

theorem fingerprint_pins:
  assumes "\<And>c. length (sha256 lib c) = 32"
    and "resolve_client_tls sh False (Some (format_fingerprint (sha256 lib cert))) ca cc ck sn em = Inr tls"
  shows "parse_fingerprint (format_fingerprint (sha256 lib cert)) = Inr (sha256 lib cert) \<and>
    build_quic_client_config lib fs tls = Inr (PinFingerprint (sha256 lib cert), None) \<and>
    (verify_pinned lib (fp_sha256 tls) presented \<longleftrightarrow> sha256 lib presented = sha256 lib cert)"
  using assms parse_format_fingerprint [of "sha256 lib cert"]
  by (auto simp: resolve_client_tls_def build_quic_client_config_def verify_pinned_def Let_def)

definition demo_lib :: crypto_lib where
  "demo_lib = \<lparr> parse_certs = (\<lambda>b. Some [b]), parse_key = (\<lambda>b. Some (Some b)), sha256 = (\<lambda>b. replicate 32 (word_of_nat (length b))),
     root_ok = (\<lambda>_. True), verifier_ok = (\<lambda>_. True), cert_ok = (\<lambda>_. True), writable = (\<lambda>_. True) \<rparr>"

definition no_creds :: embedded_creds where
  "no_creds = \<lparr> em_ca = None, em_server_cert = None, em_server_key = None, em_client_cert = None,
     em_client_key = None, em_server_name = None, em_fingerprint = None \<rparr>"

theorem fingerprint_pins_witness:
  "parse_fingerprint (format_fingerprint (sha256 demo_lib [1, 2])) = Inr (replicate 32 2)"
proof -
  have d: "sha256 demo_lib [1, 2] = replicate 32 2" "length (sha256 demo_lib c) = 32" for c by (simp_all add: demo_lib_def)
  then have "resolve_client_tls (\<lambda>_. []) False (Some (format_fingerprint (sha256 demo_lib [1, 2]))) None None None None no_creds =
      Inr (Fingerprint (sha256 demo_lib [1, 2]) None)"
    by (simp add: resolve_client_tls_def parse_format_fingerprint no_creds_def)
  from fingerprint_pins [OF d(2) this] d(1) show ?thesis by simp
qed

text \<open>A fingerprint that is 64 bytes long without being ASCII makes the parser slice inside a character, which
  panics instead of reporting an invalid fingerprint.\<close>

theorem parse_fingerprint_panics:
  "parse_fingerprint (''a'' @ concat (replicate 31 (map char_of [195, 169 :: nat])) @ ''b'') = Inl SlicePanic"
  by code_simp

section \<open>A persisted identity is stable\<close>

text \<open>C39. A self-signed server identity survives restarts: once a run has produced an identity in a state
  directory, every later run finds that same identity there and changes no file, whatever a generator would make. It
  is assumed that the PEM that the generator prints parses back to what it generated.\<close>

theorem self_signed_stable:
  assumes "load_or_create_self_signed lib gen dir fs = (Inr ident, fs')"
    and "\<And>g. gen = Some g \<Longrightarrow> parse_certs lib (gen_cert_pem g) = Some [gen_cert g] \<and>
      parse_key lib (gen_key_pem g) = Some (Some (gen_key g))"
  shows "load_or_create_self_signed lib gen' dir fs' = (Inr ident, fs')"
proof -
  let ?c = "path_join dir ''server.pem''" and ?k = "path_join dir ''server.key''"
  have neq: "?c \<noteq> ?k" by (simp add: path_join_def)
  show ?thesis
  proof (cases "fs ?c \<noteq> None \<and> fs ?k \<noteq> None")
    case True
    with assms(1) show ?thesis by (auto simp: load_or_create_self_signed_def Let_def)
  next
    case False
    with assms(1) obtain g where g: "gen = Some g" "ident = ([gen_cert g], gen_key g)"
      "fs' = set_mode ?k 384 (write_file ?k (gen_key_pem g) (write_file ?c (gen_cert_pem g) fs))"
      by (auto simp: load_or_create_self_signed_def write_secret_file_def Let_def split: if_splits option.splits)
    have "\<exists>m. fs' ?c = Some (gen_cert_pem g, m)" "fs' ?k = Some (gen_key_pem g, 384)"
      using neq unfolding g(3) by (auto simp: set_mode_def write_file_def)
    with assms(2) [OF g(1)] g(2) show ?thesis
      by (auto simp: load_or_create_self_signed_def load_pem_identity_def load_pem_certs_def Let_def)
  qed
qed

theorem self_signed_stable_witness:
  "let (r, fs) = load_or_create_self_signed demo_lib (Some \<lparr> gen_cert = [1], gen_key = [2], gen_cert_pem = [1], gen_key_pem = [2] \<rparr>)
       ''/d'' Map.empty in
   r = Inr ([[1]], [2]) \<and> load_or_create_self_signed demo_lib None ''/d'' fs = (r, fs)"
proof -
  let ?g = "\<lparr> gen_cert = [1], gen_key = [2], gen_cert_pem = [1], gen_key_pem = [2] \<rparr> :: generated"
  obtain fs where fs: "load_or_create_self_signed demo_lib (Some ?g) ''/d'' Map.empty = (Inr ([[1]], [2]), fs)"
    by (simp add: load_or_create_self_signed_def demo_lib_def Let_def)
  from self_signed_stable [OF this, of None] fs show ?thesis by (simp add: demo_lib_def)
qed

text \<open>Between the write and the change of mode a new key file has the default mode.\<close>

lemma secret_file_window:
  "fs path = None \<Longrightarrow> map (\<lambda>f. map_option snd (f path)) (write_secret_file path c fs) = [Some default_mode, Some 384]"
  by (simp add: write_secret_file_def write_file_def set_mode_def Let_def)

end
