(* ===== verification/Proxy.thy ===== *)
theory Proxy
  imports Socks
begin

text \<open>
  The outbound SOCKS5 proxy of the client (\<^verbatim>\<open>src/src/common/proxy.rs\<close>): the proxy URL, the
  UDP ASSOCIATE handshake on the control connection, and the socket that wraps every
  outgoing QUIC datagram in a SOCKS5 UDP header and unwraps the incoming ones.

  The address of the control connection's peer is an argument of the handshake. A poll of
  the inner UDP socket is described by the datagrams it has ready and by what follows them
  (nothing yet, or an error).
\<close>

section \<open>Proxy URL\<close>

datatype proxy_config =
  Socks5Proxy string "(string \<times> string) option"

datatype proxy_url_error =
  UnsupportedScheme string
| MalformedAuth string
| EmptyAddress string
| MissingPort string

fun contains :: "'a list \<Rightarrow> 'a list \<Rightarrow> bool" where
  "contains p [] = (p = [])"
| "contains p (x # xs) = (prefix p (x # xs) \<or> contains p xs)"

fun show_proxy :: "proxy_config \<Rightarrow> string" where
  "show_proxy (Socks5Proxy addr auth) =
     (if auth \<noteq> None then ''socks5://<auth>@'' @ addr else ''socks5://'' @ addr)"

definition parse_proxy :: "string \<Rightarrow> proxy_url_error + proxy_config" where
  "parse_proxy s =
     and_then
       (case strip_prefix ''socks5://'' s of
          Some rest \<Rightarrow> Inr rest
        | None \<Rightarrow>
            (case strip_prefix ''socks://'' s of
               Some rest \<Rightarrow> Inr rest
             | None \<Rightarrow> if contains ''://'' s then Inl (UnsupportedScheme s) else Inr s)) (\<lambda>after_scheme.
     and_then
       (case rsplit_once (CHR ''@'') after_scheme of
          Some (creds, addr) \<Rightarrow>
            and_then (ok_or (MalformedAuth s) (split_once (CHR '':'') creds)) (\<lambda>(user, pass).
            Inr (Some (user, pass), addr))
        | None \<Rightarrow> Inr (None, after_scheme)) (\<lambda>(auth, addr).
     if addr = [] then Inl (EmptyAddress s)
     else if CHR '':'' \<notin> set addr then Inl (MissingPort addr)
     else Inr (Socks5Proxy addr auth)))"

section \<open>UDP ASSOCIATE\<close>

datatype associate_error =
  AssocIo io_error
| BadVersion u8
| AuthNotConfigured
| AuthRefused
| UnsupportedMethod u8
| CredentialsTooLong
| BadAuthVersion u8
| CredentialsRejected u8
| AssociateFailed u8 string
| UnsupportedAtyp u8

definition socks5_reply_meaning :: "u8 \<Rightarrow> string" where
  "socks5_reply_meaning rep =
     (if rep = 0 then ''succeeded''
      else if rep = 1 then ''general SOCKS server failure''
      else if rep = 2 then ''connection not allowed by ruleset''
      else if rep = 3 then ''network unreachable''
      else if rep = 4 then ''host unreachable''
      else if rep = 5 then ''connection refused''
      else if rep = 6 then ''TTL expired''
      else if rep = 7 then ''command not supported''
      else if rep = 8 then ''address type not supported''
      else ''unknown'')"

abbreviation assoc_read :: "nat \<Rightarrow> conn \<Rightarrow> (associate_error + bytes) \<times> conn" where
  "assoc_read n \<equiv> io_lift AssocIo (read_exact n)"

abbreviation assoc_write :: "bytes \<Rightarrow> conn \<Rightarrow> (associate_error + unit) \<times> conn" where
  "assoc_write bs \<equiv> io_lift AssocIo (write_all bs)"

definition userpass_request :: "bytes \<Rightarrow> bytes \<Rightarrow> bytes" where
  "userpass_request user pass =
     [1, word_of_nat (length user)] @ user @ [word_of_nat (length pass)] @ pass"

definition socks5_userpass_auth :: "string \<Rightarrow> string \<Rightarrow> conn \<Rightarrow> (associate_error + unit) \<times> conn" where
  "socks5_userpass_auth user pass =
     (let user_bytes = as_bytes user; pass_bytes = as_bytes pass in
      if length user_bytes > 255 \<or> length pass_bytes > 255 then io_err CredentialsTooLong
      else
        io_bind (assoc_write (userpass_request user_bytes pass_bytes)) (\<lambda>_.
        io_bind (assoc_read 2) (\<lambda>reply.
        if reply ! 0 \<noteq> 1 then io_err (BadAuthVersion (reply ! 0))
        else if reply ! 1 \<noteq> 0 then io_err (CredentialsRejected (reply ! 1))
        else io_ok ())))"

definition associate_request :: bytes where
  "associate_request = [5, 3, 0, 1, 0, 0, 0, 0, 0, 0]"

definition read_bnd_ip :: "ip_addr \<Rightarrow> u8 \<Rightarrow> conn \<Rightarrow> (associate_error + ip_addr) \<times> conn" where
  "read_bnd_ip peer_ip atyp =
     (if atyp = 1 then io_bind (assoc_read 4) (\<lambda>bs. io_ok (V4 (ipv4_from bs)))
      else if atyp = 4 then io_bind (assoc_read 16) (\<lambda>bs. io_ok (V6 (of_octets6 bs)))
      else if atyp = 3 then
        io_bind (assoc_read 1) (\<lambda>len_buf.
        io_bind (assoc_read (unat (len_buf ! 0))) (\<lambda>name. io_ok peer_ip))
      else io_err (UnsupportedAtyp atyp))"

definition establish_socks5_udp_associate ::
  "(string \<times> string) option \<Rightarrow> ip_addr \<Rightarrow> conn \<Rightarrow> (associate_error + socket_addr) \<times> conn" where
  "establish_socks5_udp_associate auth peer_ip =
     io_bind (assoc_write (if auth \<noteq> None then [5, 2, 0, 2] else [5, 1, 0])) (\<lambda>_.
     io_bind (assoc_read 2) (\<lambda>method_reply.
     if method_reply ! 0 \<noteq> 5 then io_err (BadVersion (method_reply ! 0))
     else
       io_bind
         (if method_reply ! 1 = 0 then io_ok ()
          else if method_reply ! 1 = 2 then
            (case auth of
               None \<Rightarrow> io_err AuthNotConfigured
             | Some (user, pass) \<Rightarrow> socks5_userpass_auth user pass)
          else if method_reply ! 1 = 255 then io_err AuthRefused
          else io_err (UnsupportedMethod (method_reply ! 1))) (\<lambda>_.
       io_bind (assoc_write associate_request) (\<lambda>_.
       io_bind (assoc_read 4) (\<lambda>head.
       if head ! 0 \<noteq> 5 then io_err (BadVersion (head ! 0))
       else if head ! 1 \<noteq> 0 then io_err (AssociateFailed (head ! 1) (socks5_reply_meaning (head ! 1)))
       else
         io_bind (read_bnd_ip peer_ip (head ! 3)) (\<lambda>bnd_ip.
         io_bind (assoc_read 2) (\<lambda>p.
         let bnd_port = port_from p;
             bnd_ip = (if is_unspecified bnd_ip then peer_ip else bnd_ip) in
         io_ok (sock_new bnd_ip bnd_port))))))))"

section \<open>The proxied socket\<close>

definition wrap_socks5_udp :: "socket_addr \<Rightarrow> bytes \<Rightarrow> bytes" where
  "wrap_socks5_udp target payload =
     [0, 0, 0] @
     (case target of
        SocketAddrV4 a p \<Rightarrow> [1] @ octets4 a @ be_bytes16 p
      | SocketAddrV6 a p _ _ \<Rightarrow> [4] @ octets6 a @ be_bytes16 p) @
     payload"

text \<open>The result and the buffer after the payload was moved to its start.\<close>

definition unwrap_socks5_udp_in_place :: "bytes \<Rightarrow> (socket_addr \<times> nat) option \<times> bytes" where
  "unwrap_socks5_udp_in_place buf =
     (let found = (\<lambda>src header_len.
            let payload_len = length buf - header_len in
            (Some (src, payload_len), drop header_len buf @ drop payload_len buf)) in
      if length buf < 4 then (None, buf)
      else if buf ! 0 \<noteq> 0 \<or> buf ! 1 \<noteq> 0 then (None, buf)
      else if buf ! 2 \<noteq> 0 then (None, buf)
      else if buf ! 3 = 1 then
        if length buf < 10 then (None, buf)
        else found (sock_new (V4 (Ipv4 (buf ! 4) (buf ! 5) (buf ! 6) (buf ! 7)))
               (from_be_bytes16 (buf ! 8) (buf ! 9))) 10
      else if buf ! 3 = 4 then
        if length buf < 22 then (None, buf)
        else found (sock_new (V6 (of_octets6 (take 16 (drop 4 buf))))
               (from_be_bytes16 (buf ! 20) (buf ! 21))) 22
      else (None, buf))"

record proxied_socket =
  relay :: socket_addr
  target :: socket_addr

definition proxied_bind_addr :: "socket_addr \<Rightarrow> string" where
  "proxied_bind_addr rel = (if is_ipv6 rel then ''[::]:0'' else ''0.0.0.0:0'')"

definition create_socks5_proxied_socket ::
  "proxy_config \<Rightarrow> ip_addr \<Rightarrow> socket_addr \<Rightarrow> conn \<Rightarrow> (associate_error + proxied_socket \<times> string) \<times> conn" where
  "create_socks5_proxied_socket proxy peer_ip server =
     (case proxy of Socks5Proxy addr auth \<Rightarrow>
        io_bind (establish_socks5_udp_associate auth peer_ip) (\<lambda>rel.
        io_ok (\<lparr> relay = rel, target = server \<rparr>, proxied_bind_addr rel)))"

datatype send_error = InvalidDestination

text \<open>What \<^verbatim>\<open>try_send\<close> hands to the inner socket: the datagram and where it goes.\<close>

definition proxied_try_send :: "proxied_socket \<Rightarrow> socket_addr \<Rightarrow> bytes \<Rightarrow> send_error + bytes \<times> socket_addr" where
  "proxied_try_send sock destination contents =
     (if destination \<noteq> target sock then Inl InvalidDestination
      else Inr (wrap_socks5_udp (target sock) contents, relay sock))"

datatype 'e recv_poll =
  RecvPending
| RecvErr 'e
| RecvOk bytes

text \<open>\<^verbatim>\<open>ready\<close> are the datagrams the inner socket has, \<^verbatim>\<open>after\<close> the error that follows them
  (none if the socket then has nothing ready), and \<^verbatim>\<open>cap\<close> is the size of the caller's
  buffer. The payload is what \<^verbatim>\<open>meta.len\<close> delimits.\<close>

fun proxied_poll_recv ::
  "proxied_socket \<Rightarrow> nat \<Rightarrow> 'e option \<Rightarrow> (socket_addr \<times> bytes) list \<Rightarrow>
   'e recv_poll \<times> (socket_addr \<times> bytes) list" where
  "proxied_poll_recv sock cap after [] =
     (case after of None \<Rightarrow> RecvPending | Some e \<Rightarrow> RecvErr e, [])"
| "proxied_poll_recv sock cap after ((src, datagram) # ready) =
     (let used = take cap datagram in
      if src \<noteq> relay sock then proxied_poll_recv sock cap after ready
      else
        (case unwrap_socks5_udp_in_place used of
           (None, _) \<Rightarrow> proxied_poll_recv sock cap after ready
         | (Some (inner_src, payload_len), used') \<Rightarrow>
             if inner_src \<noteq> target sock then proxied_poll_recv sock cap after ready
             else (RecvOk (take payload_len used'), ready)))"

section \<open>Wrapping and unwrapping\<close>

fun unscoped :: "socket_addr \<Rightarrow> bool" where
  "unscoped (SocketAddrV4 a p) = True"
| "unscoped (SocketAddrV6 a p f s) = (f = 0 \<and> s = 0)"

lemma unscoped_sock_new [simp]: "unscoped (sock_new i p)"
  by (cases i) simp_all

lemma unwrap_wrap_v4:
  "unwrap_socks5_udp_in_place ([0, 0, 0, 1] @ octets4 a @ be_bytes16 p @ payload)
   = (Some (SocketAddrV4 a p, length payload), payload @ drop (length payload)
       ([0, 0, 0, 1] @ octets4 a @ be_bytes16 p @ payload))"
  by (cases a) (simp add: unwrap_socks5_udp_in_place_def be_bytes16_def Let_def)

lemma unwrap_wrap_v6:
  "unwrap_socks5_udp_in_place ([0, 0, 0, 4] @ octets6 a @ be_bytes16 p @ payload)
   = (Some (SocketAddrV6 a p 0 0, length payload), payload @ drop (length payload)
       ([0, 0, 0, 4] @ octets6 a @ be_bytes16 p @ payload))"
proof -
  obtain hi lo where p: "be_bytes16 p = [hi, lo]" "from_be_bytes16 hi lo = p"
    by (simp add: be_bytes16_def)
  let ?buf = "[0, 0, 0, 4] @ octets6 a @ hi # lo # payload"
  have "?buf ! 20 = hi" "?buf ! 21 = lo"
    by (simp_all add: nth_append nth_Cons')
  moreover have "drop 22 ?buf = payload" by simp
  ultimately show ?thesis
    using p by (simp add: unwrap_socks5_udp_in_place_def Let_def)
qed

lemma unwrap_wrap:
  "unscoped t \<Longrightarrow> \<exists>buf'. unwrap_socks5_udp_in_place (wrap_socks5_udp t payload)
     = (Some (t, length payload), buf') \<and> take (length payload) buf' = payload"
  using unwrap_wrap_v4 unwrap_wrap_v6 by (cases t) (simp_all add: wrap_socks5_udp_def)

lemma split_four:
  "take a xs @ take b (drop a xs) @ take c (drop (a + b) xs) @ drop (a + b + c) xs = xs"
  by (metis add.commute append_take_drop_id drop_drop)

lemma unwrap_Some:
  assumes "unwrap_socks5_udp_in_place buf = (Some (src, n), buf')"
  shows "unscoped src \<and> buf = wrap_socks5_udp src (take n buf')"
proof -
  from assms have len: "4 \<le> length buf" and zero: "buf ! 0 = 0" "buf ! 1 = 0" "buf ! 2 = 0"
    and at: "buf ! 3 = 1 \<or> buf ! 3 = 4"
    by (auto simp: unwrap_socks5_udp_in_place_def Let_def split: if_splits)
  have head: "take 4 buf = [0, 0, 0, buf ! 3]"
    using len zero by (auto simp: numeral_eq_Suc Suc_le_length_iff)
  show ?thesis
  proof (cases "buf ! 3 = 1")
    case True
    with assms len zero have l: "10 \<le> length buf"
      and src: "src = SocketAddrV4 (ipv4_from (take 4 (drop 4 buf))) (port_from (take 2 (drop 8 buf)))"
      and n: "n = length buf - 10" and buf': "take n buf' = drop 10 buf"
      by (auto simp: unwrap_socks5_udp_in_place_def Let_def ipv4_from_def port_from_def split: if_splits)
    have "wrap_socks5_udp src (take n buf')
        = take 4 buf @ take 4 (drop 4 buf) @ take 2 (drop 8 buf) @ drop 10 buf"
      using True l by (simp add: head src buf' wrap_socks5_udp_def)
    also have "\<dots> = buf" using split_four [of 4 buf 4 2] by simp
    finally show ?thesis by (simp add: src)
  next
    case False
    with at have at: "buf ! 3 = 4" by simp
    with assms len zero have l: "22 \<le> length buf"
      and src: "src = SocketAddrV6 (of_octets6 (take 16 (drop 4 buf))) (port_from (take 2 (drop 20 buf))) 0 0"
      and n: "n = length buf - 22" and buf': "take n buf' = drop 22 buf"
      by (auto simp: unwrap_socks5_udp_in_place_def Let_def port_from_def split: if_splits)
    have "wrap_socks5_udp src (take n buf')
        = take 4 buf @ take 16 (drop 4 buf) @ take 2 (drop 20 buf) @ drop 22 buf"
      using at l by (simp add: head src buf' wrap_socks5_udp_def)
    also have "\<dots> = buf" using split_four [of 4 buf 16 2] by simp
    finally show ?thesis by (simp add: src)
  qed
qed

lemma wrap_inj [simp]: "wrap_socks5_udp t p = wrap_socks5_udp t q \<longleftrightarrow> p = q"
  by (cases t) (simp_all add: wrap_socks5_udp_def)

lemma poll_skips:
  "src \<noteq> relay sock \<or> (\<nexists>q. unscoped (target sock) \<and> take cap d = wrap_socks5_udp (target sock) q) \<Longrightarrow>
   proxied_poll_recv sock cap after ((src, d) # ready) = proxied_poll_recv sock cap after ready"
  by (auto simp: Let_def split: prod.splits option.splits dest: unwrap_Some)

lemma poll_takes:
  assumes "unscoped (target sock)" "take cap d = wrap_socks5_udp (target sock) q"
  shows "proxied_poll_recv sock cap after ((relay sock, d) # ready) = (RecvOk q, ready)"
  using unwrap_wrap [OF assms(1), of q] assms(2) by (auto simp: Let_def)

text \<open>C26. The proxied socket delivers exactly the datagrams of its server: a poll returns a
  payload iff, among the ready datagrams, the first one that comes from the proxy's relay
  and is the SOCKS5 wrapping of some payload from the target wraps just that payload;
  everything before it (other senders, malformed or fragmented headers, other inner
  sources) is skipped. The target must carry no flow label and no scope.\<close>

theorem proxied_poll_recv_exact:
  "proxied_poll_recv sock cap after ready = (RecvOk p, rest) \<longleftrightarrow>
   unscoped (target sock) \<and>
   (\<exists>skipped d. ready = skipped @ (relay sock, d) # rest \<and>
      take cap d = wrap_socks5_udp (target sock) p \<and>
      (\<forall>(src, d')\<in>set skipped. src \<noteq> relay sock \<or> (\<nexists>q. take cap d' = wrap_socks5_udp (target sock) q)))"
  (is "_ \<longleftrightarrow> ?r ready")
proof (induction ready)
  case Nil
  then show ?case by (simp split: option.split)
next
  case (Cons x ready)
  obtain src d where x: "x = (src, d)" by (cases x)
  show ?case
  proof (cases "src = relay sock \<and> unscoped (target sock) \<and> (\<exists>q. take cap d = wrap_socks5_udp (target sock) q)")
    case True
    then obtain q where q: "src = relay sock" "unscoped (target sock)" "take cap d = wrap_socks5_udp (target sock) q"
      by blast
    then have "proxied_poll_recv sock cap after (x # ready) = (RecvOk q, ready)"
      using poll_takes x by blast
    then show ?thesis
      using q x by (auto simp: Cons_eq_append_conv simp del: proxied_poll_recv.simps)
  next
    case False
    then have "proxied_poll_recv sock cap after (x # ready) = proxied_poll_recv sock cap after ready"
      unfolding x by (intro poll_skips) blast
    then show ?thesis
      using Cons.IH False x by (auto simp: Cons_eq_append_conv simp del: proxied_poll_recv.simps)
  qed
qed

definition sample_socket :: proxied_socket where
  "sample_socket = \<lparr> relay = SocketAddrV4 (Ipv4 127 0 0 1) 1080, target = SocketAddrV4 (Ipv4 10 0 0 7) 8080 \<rparr>"

theorem proxied_poll_recv_exact_witness:
  "proxied_poll_recv sample_socket 65535 (None :: unit option)
     [(SocketAddrV4 (Ipv4 9 9 9 9) 53, [1]), (relay sample_socket, wrap_socks5_udp (target sample_socket) [7])]
   = (RecvOk [7], [])"
  unfolding proxied_poll_recv_exact
  by (intro conjI exI [of _ "[(SocketAddrV4 (Ipv4 9 9 9 9) 53, [1])]"]
      exI [of _ "wrap_socks5_udp (target sample_socket) [7]"])
    (simp_all add: sample_socket_def wrap_socks5_udp_def be_bytes16_def)

text \<open>A server address with an IPv6 scope or flow label cannot be reached through the
  proxy: the header has no room for them, so the unwrapped source never equals the target
  and every reply of the server is dropped.\<close>

theorem proxied_scoped_target_deaf:
  assumes "target sock = SocketAddrV6 a p f s" "f \<noteq> 0 \<or> s \<noteq> 0"
  shows "fst (proxied_poll_recv sock cap after ready) \<noteq> RecvOk payload"
proof -
  have "\<not> unscoped (target sock)" using assms by auto
  then show ?thesis
    using poll_skips [of _ sock cap _ after]
    by (induction ready) (auto simp del: proxied_poll_recv.simps(2) split: option.split)
qed

definition scoped_socket :: proxied_socket where
  "scoped_socket = \<lparr> relay = SocketAddrV4 (Ipv4 127 0 0 1) 1080, target = SocketAddrV6 (Ipv6 65152 0 0 0 0 0 0 1) 8080 0 2 \<rparr>"

theorem proxied_scoped_target_deaf_witness:
  "fst (proxied_poll_recv scoped_socket 65535 None
     [(relay scoped_socket, wrap_socks5_udp (target scoped_socket) [1, 2])]) \<noteq> RecvOk [1, 2]"
  by (rule proxied_scoped_target_deaf [of _ "Ipv6 65152 0 0 0 0 0 0 1" 8080 0 2])
    (simp_all add: scoped_socket_def)

section \<open>The handshake with this program's own SOCKS5 server\<close>

lemma read_bnd_ip_reply:
  assumes "inb c = (case sock_ip b of V4 x \<Rightarrow> octets4 x | V6 x \<Rightarrow> octets6 x) @ rest"
  shows "read_bnd_ip peer (case sock_ip b of V4 x \<Rightarrow> 1 | V6 x \<Rightarrow> 4) c = (Inr (sock_ip b), c\<lparr>inb := rest\<rparr>)"
  using assms
  by (cases "sock_ip b")
    (simp_all add: read_bnd_ip_def io_bind_def io_lift_def io_ok_def read_exact_append)

lemma associate_request_bytes:
  "[5, 1, 0] @ associate_request = request_bytes [0] 5 3 0 (AddrV4 (Ipv4 0 0 0 0)) 0"
  by (simp add: associate_request_def request_bytes_def be_bytes16_def)

lemma udp_associate_reply_split:
  "udp_associate_reply b = [5, 0, 0, (case sock_ip b of V4 x \<Rightarrow> 1 | V6 x \<Rightarrow> 4)] @
     (case sock_ip b of V4 x \<Rightarrow> octets4 x | V6 x \<Rightarrow> octets6 x) @ be_bytes16 (sock_port b)"
  by (simp add: udp_associate_reply_def split: ip_addr.split)

lemma establish_noauth:
  assumes "inb c = [5, 0] @ udp_associate_reply b @ rest" "\<not> fin c" "13 \<le> wleft c"
  shows "establish_socks5_udp_associate None peer c =
    (Inr (sock_new (if is_unspecified (sock_ip b) then peer else sock_ip b) (sock_port b)),
     c\<lparr>outb := outb c @ [5, 1, 0] @ associate_request, wleft := wleft c - 13, inb := rest\<rparr>)"
proof -
  let ?atyp = "case sock_ip b of V4 x \<Rightarrow> 1 | V6 x \<Rightarrow> 4"
  let ?ip = "case sock_ip b of V4 x \<Rightarrow> octets4 x | V6 x \<Rightarrow> octets6 x"
  let ?c = "\<lambda>i. c\<lparr>outb := outb c @ [5, 1, 0] @ associate_request, wleft := wleft c - 13, inb := i\<rparr>"
  have w1: "write_all [5, 1, 0] c = (Inr (), c\<lparr>outb := outb c @ [5, 1, 0], wleft := wleft c - 3\<rparr>)"
    using assms by (simp add: write_all_def)
  have r1: "read_exact 2 (c\<lparr>outb := outb c @ [5, 1, 0], wleft := wleft c - 3\<rparr>) = (Inr [5, 0],
      c\<lparr>outb := outb c @ [5, 1, 0], wleft := wleft c - 3, inb := udp_associate_reply b @ rest\<rparr>)"
    by (rule read_exact_append [THEN trans]) (simp_all add: assms(1))
  have w2: "write_all associate_request
      (c\<lparr>outb := outb c @ [5, 1, 0], wleft := wleft c - 3, inb := udp_associate_reply b @ rest\<rparr>)
      = (Inr (), ?c (udp_associate_reply b @ rest))"
    using assms by (simp add: write_all_def associate_request_def)
  have r: "read_exact 4 (?c (udp_associate_reply b @ rest))
      = (Inr [5, 0, 0, ?atyp], ?c (?ip @ be_bytes16 (sock_port b) @ rest))"
    by (rule read_exact_append [THEN trans]) (simp_all add: udp_associate_reply_split)
  have ip: "read_bnd_ip peer ?atyp (?c (?ip @ be_bytes16 (sock_port b) @ rest))
      = (Inr (sock_ip b), ?c (be_bytes16 (sock_port b) @ rest))"
    by (subst read_bnd_ip_reply [of _ _ "be_bytes16 (sock_port b) @ rest"]) simp_all
  have p: "read_exact 2 (?c (be_bytes16 (sock_port b) @ rest)) = (Inr (be_bytes16 (sock_port b)), ?c rest)"
    by (rule read_exact_append [THEN trans]) simp_all
  show ?thesis
    using w1 r1 w2 r ip p
    by (simp add: establish_socks5_udp_associate_def io_bind_def io_lift_def io_ok_def Let_def)
qed

text \<open>C35. The two SOCKS5 sides of the program understand each other. When the client's
  proxy handshake without credentials talks to this program's own SOCKS5 server, what it
  writes is accepted there as a UDP ASSOCIATE request, and from the server's replies it
  takes the relay address the server bound, or the proxy's own address with that port when
  the server bound the unspecified address.\<close>

theorem associate_interop:
  assumes "unscoped b" "inb c = [5, 0] @ udp_associate_reply b @ rest" "\<not> fin c" "13 \<le> wleft c" "outb c = []"
    and "inb d = outb (snd (establish_socks5_udp_associate None peer c))" "\<not> fin d" "2 \<le> wleft d"
  shows "fst (establish_socks5_udp_associate None peer c)
      = Inr (if is_unspecified (sock_ip b) then sock_new peer (sock_port b) else b) \<and>
    fst (socks_handshake d) = Inr UdpAssociate \<and> outb (snd (socks_handshake d)) = outb d @ [5, 0]"
proof -
  have b: "sock_new (sock_ip b) (sock_port b) = b" using assms(1) by (cases b) simp_all
  have "inb d = request_bytes [0] 5 3 0 (AddrV4 (Ipv4 0 0 0 0)) 0 @ []"
    using establish_noauth [OF assms(2-4)] assms(5,6) associate_request_bytes by simp
  then have "socks_handshake d = (Inr UdpAssociate,
      d\<lparr>outb := outb d @ [5, 0], wleft := wleft d - 2, inb := []\<rparr>)"
    by (rule socks_handshake_ok [rotated 2]) (use assms(7,8) in \<open>simp_all add: request_of_def\<close>)
  with establish_noauth [OF assms(2-4)] b show ?thesis by simp
qed

theorem associate_interop_witness:
  "let b = SocketAddrV4 (Ipv4 127 0 0 1) 4000; c = open_line ([5, 0] @ udp_associate_reply b);
       d = open_line (outb (snd (establish_socks5_udp_associate None (V4 (Ipv4 10 0 0 1)) c))) in
   fst (establish_socks5_udp_associate None (V4 (Ipv4 10 0 0 1)) c) = Inr b \<and>
   fst (socks_handshake d) = Inr UdpAssociate"
  using associate_interop [of "SocketAddrV4 (Ipv4 127 0 0 1) 4000"
      "open_line ([5, 0] @ udp_associate_reply (SocketAddrV4 (Ipv4 127 0 0 1) 4000))" "[]"
      "open_line (outb (snd (establish_socks5_udp_associate None (V4 (Ipv4 10 0 0 1))
        (open_line ([5, 0] @ udp_associate_reply (SocketAddrV4 (Ipv4 127 0 0 1) 4000))))))"
      "V4 (Ipv4 10 0 0 1)"]
  by (simp add: open_line_def Let_def)

section \<open>Proxy URLs\<close>

text \<open>A proxy URL with credentials is taken apart at its last at-sign and its first colon:
  user names without a colon and any password, at-signs and colons included, come back as
  written, with the address after them.\<close>

theorem parse_proxy_credentials:
  assumes "CHR '':'' \<notin> set user" "CHR ''@'' \<notin> set addr" "CHR '':'' \<in> set addr"
  shows "parse_proxy (''socks5://'' @ user @ '':'' @ pass @ ''@'' @ addr)
    = Inr (Socks5Proxy addr (Some (user, pass)))"
proof -
  have "rsplit_once (CHR ''@'') ((user @ '':'' @ pass) @ CHR ''@'' # addr) = Some (user @ '':'' @ pass, addr)"
    by (rule rsplit_once_append) (rule assms(2))
  moreover have "split_once (CHR '':'') (user @ CHR '':'' # pass) = Some (user, pass)"
    using assms(1) by (simp add: split_once_Some_iff)
  moreover have "strip_prefix ''socks5://'' (''socks5://'' @ t) = Some t" for t
    by (rule strip_prefix_append)
  ultimately show ?thesis
    using assms(3) by (auto simp: parse_proxy_def)
qed

theorem parse_proxy_credentials_witness:
  "parse_proxy (''socks5://'' @ ''bob'' @ '':'' @ ''p@:s'' @ ''@'' @ ''proxy:1080'')
   = Inr (Socks5Proxy ''proxy:1080'' (Some (''bob'', ''p@:s'')))"
  by (rule parse_proxy_credentials) simp_all

end
