(* ===== verification/Cli.thy ===== *)
theory Cli
  imports Client Tls Proxy
begin

text \<open>
  The command line (\<^verbatim>\<open>src/src/main.rs\<close>) and the configuration file
  (\<^verbatim>\<open>src/src/config_file.rs\<close>): how flags and file are merged and turned into the configuration the server
  or the client runs with (\<^verbatim>\<open>src/src/lib.rs\<close>). Parsing of the arguments is \<^verbatim>\<open>clap\<close>'s: a definition
  takes the parsed values and the predicate \<^verbatim>\<open>explicit\<close>, true of the arguments given on the command line. Reading
  and parsing TOML, the resolver, the home directory and the effective user are parameters too.
\<close>

section \<open>Values\<close>

datatype congestion = Cubic | Bbr

datatype log_format = Compact | Json

text \<open>An \<^verbatim>\<open>i64\<close> is a 64-bit word read with \<^verbatim>\<open>sint\<close>.\<close>

type_synonym i64 = "64 word"

definition parse_duration_secs :: "string \<Rightarrow> int_error + nat" where
  "parse_duration_secs s = and_then (parse_uint 10 18446744073709551615 s) (\<lambda>n. Inr (n * 1000000000))"

definition max_retries_from_cli :: "i64 \<Rightarrow> string + u32 option" where
  "max_retries_from_cli raw =
     (if sint raw < 0 then Inr None
      else if sint raw \<le> 4294967295 then Inr (Some (word_of_int (sint raw)))
      else Inl (''retry count `'' @ show_nat (nat (sint raw)) @ ''` is too large''))"

definition resolve_argv :: "string list option \<Rightarrow> string list \<Rightarrow> string list" where
  "resolve_argv embed_args raw =
     (if 1 < length raw then raw
      else case embed_args of
        None \<Rightarrow> raw
      | Some em \<Rightarrow> (case raw of p # _ \<Rightarrow> p | [] \<Rightarrow> ''rusnel'') # em)"

definition default_directive :: "bool \<Rightarrow> bool \<Rightarrow> bool \<Rightarrow> string" where
  "default_directive verbose debug quiet =
     (if debug then ''rusnel=trace,info''
      else if verbose then ''rusnel=debug,info''
      else if quiet then ''rusnel=warn,warn''
      else ''rusnel=info,warn'')"

definition default_socket_path :: "string option \<Rightarrow> u32 \<Rightarrow> string" where
  "default_socket_path home euid =
     (case home of
        Some h \<Rightarrow> path_join (path_join h ''.rusnel'') ''admin.sock''
      | None \<Rightarrow> ''/tmp/rusnel-admin-'' @ show_nat (unat euid) @ ''.sock'')"

section \<open>Flags and file sections\<close>

record server_cli =
  sv_host :: ip_addr
  sv_port :: u16
  sv_allow_reverse :: bool
  sv_allow_socks :: bool
  sv_insecure :: bool
  sv_tls_self_signed :: bool
  sv_tls_state_dir :: "string option"
  sv_tls_cert :: "string option"
  sv_tls_key :: "string option"
  sv_tls_ca :: "string option"
  sv_congestion :: congestion
  sv_max_connections :: nat
  sv_admin_socket :: "string option"
  sv_no_admin_socket :: bool
  sv_is_verbose :: bool
  sv_is_debug :: bool
  sv_is_quiet :: bool
  sv_log_format :: log_format

record server_section =
  sf_host :: "ip_addr option"
  sf_port :: "u16 option"
  sf_allow_reverse :: "bool option"
  sf_allow_socks :: "bool option"
  sf_insecure :: "bool option"
  sf_tls_self_signed :: "bool option"
  sf_tls_state_dir :: "string option"
  sf_tls_cert :: "string option"
  sf_tls_key :: "string option"
  sf_tls_ca :: "string option"
  sf_congestion :: "congestion option"
  sf_max_connections :: "nat option"
  sf_admin_socket :: "string option"
  sf_no_admin_socket :: "bool option"
  sf_log_format :: "log_format option"
  sf_verbose :: "bool option"
  sf_debug :: "bool option"
  sf_quiet :: "bool option"

record client_cli =
  cl_server :: "server_endpoint option"
  cl_remotes :: "remote_request list"
  cl_insecure :: bool
  cl_tls_fingerprint :: "string option"
  cl_tls_ca :: "string option"
  cl_tls_cert :: "string option"
  cl_tls_key :: "string option"
  cl_tls_server_name :: "string option"
  cl_congestion :: congestion
  cl_max_retry_count :: i64
  cl_max_retry_interval :: nat
  cl_proxy :: "proxy_config option"
  cl_is_verbose :: bool
  cl_is_debug :: bool
  cl_is_quiet :: bool
  cl_log_format :: log_format

record client_section =
  cf_server :: "string option"
  cf_remotes :: "string list option"
  cf_insecure :: "bool option"
  cf_tls_fingerprint :: "string option"
  cf_tls_ca :: "string option"
  cf_tls_cert :: "string option"
  cf_tls_key :: "string option"
  cf_tls_server_name :: "string option"
  cf_congestion :: "congestion option"
  cf_max_retry_count :: "i64 option"
  cf_max_retry_interval :: "u64 option"
  cf_proxy :: "string option"
  cf_log_format :: "log_format option"
  cf_verbose :: "bool option"
  cf_debug :: "bool option"
  cf_quiet :: "bool option"

record config_file =
  file_server :: "server_section option"
  file_client :: "client_section option"

text \<open>\<^verbatim>\<open>config_file::load\<close>.\<close>

definition load :: "(string \<Rightarrow> string + string) \<Rightarrow> (string \<Rightarrow> string + config_file) \<Rightarrow> string \<Rightarrow> string + config_file" where
  "load read_to_string toml path =
     and_then (map_err (\<lambda>e. ''failed to read config file `'' @ path @ ''`: '' @ e) (read_to_string path)) (\<lambda>raw.
     map_err (\<lambda>e. ''invalid config file `'' @ path @ ''`:'' @ [CHR 0x0A] @ e) (toml raw))"

section \<open>Merging\<close>

definition pick :: "'a \<Rightarrow> bool \<Rightarrow> 'a option \<Rightarrow> 'a" where
  "pick cli_val was_explicit file_val =
     (if was_explicit then cli_val else case file_val of Some v \<Rightarrow> v | None \<Rightarrow> cli_val)"

definition or_else :: "'a option \<Rightarrow> 'a option \<Rightarrow> 'a option" where
  "or_else a b = (case a of Some _ \<Rightarrow> a | None \<Rightarrow> b)"

definition server_set_tls :: "(string \<Rightarrow> bool) \<Rightarrow> bool" where
  "server_set_tls explicit \<longleftrightarrow>
     explicit ''insecure'' \<or> explicit ''tls_self_signed'' \<or> explicit ''tls_cert'' \<or> explicit ''tls_key'' \<or> explicit ''tls_ca''"

definition merge_server_with_file :: "server_cli \<Rightarrow> server_section option \<Rightarrow> (string \<Rightarrow> bool) \<Rightarrow> server_cli" where
  "merge_server_with_file cli section explicit =
     (case section of
        None \<Rightarrow> cli
      | Some file \<Rightarrow>
          let cli_set_tls = server_set_tls explicit in
          \<lparr> sv_host = pick (sv_host cli) (explicit ''host'') (sf_host file),
            sv_port = pick (sv_port cli) (explicit ''port'') (sf_port file),
            sv_allow_reverse = pick (sv_allow_reverse cli) (explicit ''allow_reverse'') (sf_allow_reverse file),
            sv_allow_socks = pick (sv_allow_socks cli) (explicit ''allow_socks'') (sf_allow_socks file),
            sv_insecure = (if cli_set_tls then sv_insecure cli else case sf_insecure file of Some v \<Rightarrow> v | None \<Rightarrow> sv_insecure cli),
            sv_tls_self_signed = (if cli_set_tls then sv_tls_self_signed cli else case sf_tls_self_signed file of Some v \<Rightarrow> v | None \<Rightarrow> sv_tls_self_signed cli),
            sv_tls_state_dir = (if cli_set_tls then sv_tls_state_dir cli else or_else (sf_tls_state_dir file) (sv_tls_state_dir cli)),
            sv_tls_cert = (if cli_set_tls then sv_tls_cert cli else or_else (sf_tls_cert file) (sv_tls_cert cli)),
            sv_tls_key = (if cli_set_tls then sv_tls_key cli else or_else (sf_tls_key file) (sv_tls_key cli)),
            sv_tls_ca = (if cli_set_tls then sv_tls_ca cli else or_else (sf_tls_ca file) (sv_tls_ca cli)),
            sv_congestion = pick (sv_congestion cli) (explicit ''congestion'') (sf_congestion file),
            sv_max_connections = pick (sv_max_connections cli) (explicit ''max_connections'') (sf_max_connections file),
            sv_admin_socket = pick (sv_admin_socket cli) (explicit ''admin_socket'') (map_option Some (sf_admin_socket file)),
            sv_no_admin_socket = pick (sv_no_admin_socket cli) (explicit ''no_admin_socket'') (sf_no_admin_socket file),
            sv_is_verbose = pick (sv_is_verbose cli) (explicit ''is_verbose'') (sf_verbose file),
            sv_is_debug = pick (sv_is_debug cli) (explicit ''is_debug'') (sf_debug file),
            sv_is_quiet = pick (sv_is_quiet cli) (explicit ''is_quiet'') (sf_quiet file),
            sv_log_format = pick (sv_log_format cli) (explicit ''log_format'') (sf_log_format file) \<rparr>)"

text \<open>Why a value of the client section is refused.\<close>

datatype client_file_error =
  BadServer string
| BadRemote string remote_error
| BadProxy proxy_url_error

definition client_set_tls :: "(string \<Rightarrow> bool) \<Rightarrow> bool" where
  "client_set_tls explicit \<longleftrightarrow>
     explicit ''insecure'' \<or> explicit ''tls_fingerprint'' \<or> explicit ''tls_ca'' \<or> explicit ''tls_cert'' \<or> explicit ''tls_key''"

fun parse_remotes :: "string list \<Rightarrow> client_file_error + remote_request list" where
  "parse_remotes [] = Inr []"
| "parse_remotes (r # rs) =
     and_then (map_err (BadRemote r) (from_str r)) (\<lambda>x. and_then (parse_remotes rs) (\<lambda>xs. Inr (x # xs)))"

definition merge_client_with_file ::
  "(string \<Rightarrow> string + socket_addr list) \<Rightarrow> client_cli \<Rightarrow> client_section option \<Rightarrow> (string \<Rightarrow> bool) \<Rightarrow>
   client_file_error + client_cli" where
  "merge_client_with_file resolve cli section explicit =
     (case section of
        None \<Rightarrow> Inr cli
      | Some file \<Rightarrow>
          and_then
            (case cl_server cli of
               Some s \<Rightarrow> Inr (Some s)
             | None \<Rightarrow>
                (case cf_server file of
                   Some s \<Rightarrow> and_then (map_err BadServer (parse_server_addr resolve s)) (\<lambda>ep. Inr (Some ep))
                 | None \<Rightarrow> Inr None)) (\<lambda>server.
          and_then
            (if cl_remotes cli = [] then
               (case cf_remotes file of Some list \<Rightarrow> parse_remotes list | None \<Rightarrow> Inr [])
             else Inr (cl_remotes cli)) (\<lambda>remotes.
          and_then
            (if explicit ''proxy'' then Inr (cl_proxy cli)
             else case cf_proxy file of
               Some s \<Rightarrow> and_then (map_err BadProxy (parse_proxy s)) (\<lambda>p. Inr (Some p))
             | None \<Rightarrow> Inr (cl_proxy cli)) (\<lambda>proxy.
          let max_retry_interval =
                (if explicit ''max_retry_interval'' then cl_max_retry_interval cli
                 else case cf_max_retry_interval file of
                   Some n \<Rightarrow> unat n * 1000000000
                 | None \<Rightarrow> cl_max_retry_interval cli);
              cli_set_tls = client_set_tls explicit in
          Inr \<lparr> cl_server = server,
            cl_remotes = remotes,
            cl_insecure = (if cli_set_tls then cl_insecure cli else case cf_insecure file of Some v \<Rightarrow> v | None \<Rightarrow> cl_insecure cli),
            cl_tls_fingerprint = (if cli_set_tls then cl_tls_fingerprint cli else or_else (cf_tls_fingerprint file) (cl_tls_fingerprint cli)),
            cl_tls_ca = (if cli_set_tls then cl_tls_ca cli else or_else (cf_tls_ca file) (cl_tls_ca cli)),
            cl_tls_cert = (if cli_set_tls then cl_tls_cert cli else or_else (cf_tls_cert file) (cl_tls_cert cli)),
            cl_tls_key = (if cli_set_tls then cl_tls_key cli else or_else (cf_tls_key file) (cl_tls_key cli)),
            cl_tls_server_name = pick (cl_tls_server_name cli) (explicit ''tls_server_name'') (map_option Some (cf_tls_server_name file)),
            cl_congestion = pick (cl_congestion cli) (explicit ''congestion'') (cf_congestion file),
            cl_max_retry_count = pick (cl_max_retry_count cli) (explicit ''max_retry_count'') (cf_max_retry_count file),
            cl_max_retry_interval = max_retry_interval,
            cl_proxy = proxy,
            cl_is_verbose = pick (cl_is_verbose cli) (explicit ''is_verbose'') (cf_verbose file),
            cl_is_debug = pick (cl_is_debug cli) (explicit ''is_debug'') (cf_debug file),
            cl_is_quiet = pick (cl_is_quiet cli) (explicit ''is_quiet'') (cf_quiet file),
            cl_log_format = pick (cl_log_format cli) (explicit ''log_format'') (cf_log_format file) \<rparr>))))"

section \<open>From flags to a running configuration\<close>

record server_config =
  sc_host :: ip_addr
  sc_port :: u16
  sc_allow_reverse :: bool
  sc_allow_socks :: bool
  sc_tls :: server_tls
  sc_congestion :: congestion
  sc_max_connections :: "nat option"
  sc_admin_socket :: "string option"

record client_config =
  cc_server :: server_endpoint
  cc_remotes :: "remote_request list"
  cc_tls :: client_tls
  cc_congestion :: congestion
  cc_reconnect :: reconnect_config
  cc_proxy :: "proxy_config option"

text \<open>The process either exits with an error of a kind or runs a configuration, its log filter set up.\<close>

datatype error_kind = InvalidValue | MissingRequiredArgument | Io

datatype exit_reason =
  ConfigFile string
| BadSection client_file_error
| NoServer
| NoRemotes
| Embedding string
| TlsMode string
| RetryCount string

datatype 'a launched = Exit error_kind exit_reason | Run string 'a

definition load_section ::
  "(string \<Rightarrow> string + config_file) \<Rightarrow> (config_file \<Rightarrow> 'b option) \<Rightarrow> string option \<Rightarrow> string + 'b option" where
  "load_section load_file sel config =
     (case config of
        None \<Rightarrow> Inr None
      | Some path \<Rightarrow> and_then (load_file path) (\<lambda>cf. Inr (sel cf)))"

record environment =
  env_home :: "string option"
  env_euid :: u32
  env_load :: "string \<Rightarrow> string + config_file"
  env_resolve :: "string \<Rightarrow> string + socket_addr list"
  env_embedded :: "string + embedded_creds"
  env_show_fp_error :: "fingerprint_error \<Rightarrow> string"

definition main_server :: "environment \<Rightarrow> (string \<Rightarrow> bool) \<Rightarrow> string option \<Rightarrow> server_cli \<Rightarrow> server_config launched" where
  "main_server env explicit config cli =
     (case load_section (env_load env) file_server config of
        Inl e \<Rightarrow> Exit InvalidValue (ConfigFile e)
      | Inr section \<Rightarrow>
          let m = merge_server_with_file cli section explicit in
          case env_embedded env of
            Inl e \<Rightarrow> Exit Io (Embedding e)
          | Inr em \<Rightarrow>
             (case resolve_server_tls (env_home env) (sv_insecure m) (sv_tls_self_signed m) (sv_tls_state_dir m)
                     (sv_tls_cert m) (sv_tls_key m) (sv_tls_ca m) em of
                Inl msg \<Rightarrow> Exit InvalidValue (TlsMode msg)
              | Inr tls \<Rightarrow>
                  Run (default_directive (sv_is_verbose m) (sv_is_debug m) (sv_is_quiet m))
                    \<lparr> sc_host = sv_host m, sc_port = sv_port m, sc_allow_reverse = sv_allow_reverse m,
                      sc_allow_socks = sv_allow_socks m, sc_tls = tls, sc_congestion = sv_congestion m,
                      sc_max_connections = (if sv_max_connections m = 0 then None else Some (sv_max_connections m)),
                      sc_admin_socket =
                        (if sv_no_admin_socket m then None
                         else case sv_admin_socket m of
                           Some p \<Rightarrow> Some p
                         | None \<Rightarrow> Some (default_socket_path (env_home env) (env_euid env))) \<rparr>))"

definition main_client :: "environment \<Rightarrow> (string \<Rightarrow> bool) \<Rightarrow> string option \<Rightarrow> client_cli \<Rightarrow> client_config launched" where
  "main_client env explicit config cli =
     (case load_section (env_load env) file_client config of
        Inl e \<Rightarrow> Exit InvalidValue (ConfigFile e)
      | Inr section \<Rightarrow>
         (case merge_client_with_file (env_resolve env) cli section explicit of
            Inl e \<Rightarrow> Exit InvalidValue (BadSection e)
          | Inr m \<Rightarrow>
             (case cl_server m of
                None \<Rightarrow> Exit MissingRequiredArgument NoServer
              | Some server \<Rightarrow>
                  if cl_remotes m = [] then Exit MissingRequiredArgument NoRemotes
                  else case env_embedded env of
                    Inl e \<Rightarrow> Exit Io (Embedding e)
                  | Inr em \<Rightarrow>
                     (case resolve_client_tls (env_show_fp_error env) (cl_insecure m) (cl_tls_fingerprint m) (cl_tls_ca m)
                             (cl_tls_cert m) (cl_tls_key m) (cl_tls_server_name m) em of
                        Inl msg \<Rightarrow> Exit InvalidValue (TlsMode msg)
                      | Inr tls \<Rightarrow>
                         (case max_retries_from_cli (cl_max_retry_count m) of
                            Inl msg \<Rightarrow> Exit InvalidValue (RetryCount msg)
                          | Inr retries \<Rightarrow>
                              Run (default_directive (cl_is_verbose m) (cl_is_debug m) (cl_is_quiet m))
                                \<lparr> cc_server = server, cc_remotes = cl_remotes m, cc_tls = tls,
                                  cc_congestion = cl_congestion m,
                                  cc_reconnect = reconnect_default \<lparr> max_retries := retries,
                                    max_backoff := cl_max_retry_interval m \<rparr>,
                                  cc_proxy = cl_proxy m \<rparr>)))))"

text \<open>\<^verbatim>\<open>client::run_async\<close> before its loop: the name for the handshake, and the pool of endpoints, of which
  the first is made at once, unless a proxy is used. Making the pool panics when there is no address.\<close>

definition client_run_async ::
  "(socket_addr \<Rightarrow> string + 'e) \<Rightarrow> client_config \<Rightarrow> string + 'e endpoint_pool option \<times> string" where
  "client_run_async create cfg =
     (let server_name = client_server_name (cc_tls cfg) (ep_host (cc_server cfg)) in
      case cc_proxy cfg of
        Some _ \<Rightarrow> Inr (None, server_name)
      | None \<Rightarrow>
         (case primary (cc_server cfg) of
            None \<Rightarrow> Inl ''ServerEndpoint constructed with no addresses''
          | Some a \<Rightarrow> and_then (endpoint_pool_new create a) (\<lambda>p. Inr (Some p, server_name))))"

section \<open>Flags against the file\<close>

lemma main_server_Run:
  assumes "main_server env explicit config cli = Run d cfg"
  obtains sct em m where "load_section (env_load env) file_server config = Inr sct"
    "m = merge_server_with_file cli sct explicit" "env_embedded env = Inr em"
    "resolve_server_tls (env_home env) (sv_insecure m) (sv_tls_self_signed m) (sv_tls_state_dir m)
       (sv_tls_cert m) (sv_tls_key m) (sv_tls_ca m) em = Inr (sc_tls cfg)"
    "d = default_directive (sv_is_verbose m) (sv_is_debug m) (sv_is_quiet m)"
    "sv_no_admin_socket m \<longrightarrow> sc_admin_socket cfg = None"
  using assms unfolding main_server_def Let_def by (fastforce split: sum.splits)

text \<open>A TLS mode given on the command line is the one the server runs with: whatever the file says, the mode is the
  one that the flags and the embedded credentials alone give.\<close>

theorem server_tls_flags_win:
  assumes "server_set_tls explicit" "main_server env explicit config cli = Run d cfg"
  shows "\<exists>em. env_embedded env = Inr em \<and>
    resolve_server_tls (env_home env) (sv_insecure cli) (sv_tls_self_signed cli) (sv_tls_state_dir cli)
      (sv_tls_cert cli) (sv_tls_key cli) (sv_tls_ca cli) em = Inr (sc_tls cfg)"
proof -
  from assms(2) obtain sct em where "env_embedded env = Inr em"
    "resolve_server_tls (env_home env) (sv_insecure (merge_server_with_file cli sct explicit))
      (sv_tls_self_signed (merge_server_with_file cli sct explicit)) (sv_tls_state_dir (merge_server_with_file cli sct explicit))
      (sv_tls_cert (merge_server_with_file cli sct explicit)) (sv_tls_key (merge_server_with_file cli sct explicit))
      (sv_tls_ca (merge_server_with_file cli sct explicit)) em = Inr (sc_tls cfg)"
    by (rule main_server_Run) blast
  with assms(1) show ?thesis by (cases sct) (simp_all add: merge_server_with_file_def Let_def)
qed

definition demo_server_cli :: server_cli where
  "demo_server_cli = \<lparr> sv_host = V4 (Ipv4 0 0 0 0), sv_port = 8080, sv_allow_reverse = False, sv_allow_socks = False,
     sv_insecure = True, sv_tls_self_signed = False, sv_tls_state_dir = None, sv_tls_cert = None, sv_tls_key = None,
     sv_tls_ca = None, sv_congestion = Cubic, sv_max_connections = 0, sv_admin_socket = Some ''/run/a.sock'',
     sv_no_admin_socket = False, sv_is_verbose = False, sv_is_debug = False, sv_is_quiet = False, sv_log_format = Compact \<rparr>"

definition demo_section :: server_section where
  "demo_section = \<lparr> sf_host = None, sf_port = Some 9090, sf_allow_reverse = None, sf_allow_socks = None,
     sf_insecure = None, sf_tls_self_signed = Some True, sf_tls_state_dir = None, sf_tls_cert = None, sf_tls_key = None,
     sf_tls_ca = None, sf_congestion = None, sf_max_connections = None, sf_admin_socket = None,
     sf_no_admin_socket = Some True, sf_log_format = None, sf_verbose = Some True, sf_debug = None, sf_quiet = None \<rparr>"

definition demo_env :: environment where
  "demo_env = \<lparr> env_home = Some ''/root'', env_euid = 0,
     env_load = (\<lambda>_. Inr \<lparr> file_server = Some demo_section, file_client = None \<rparr>),
     env_resolve = (\<lambda>_. Inr [SocketAddrV4 (Ipv4 127 0 0 1) 8080]), env_embedded = Inr no_creds, env_show_fp_error = (\<lambda>_. []) \<rparr>"

lemmas demo_simps = demo_server_cli_def demo_section_def demo_env_def main_server_def merge_server_with_file_def
  load_section_def server_set_tls_def pick_def resolve_server_tls_def default_directive_def

theorem server_tls_flags_win_witness:
  "\<exists>cfg. main_server demo_env (\<lambda>n. n = ''insecure'') (Some ''c.toml'') demo_server_cli = Run ''rusnel=debug,info'' cfg \<and>
     sc_tls cfg = Insecure \<and> sc_port cfg = 9090"
proof -
  obtain cfg where run: "main_server demo_env (\<lambda>n. n = ''insecure'') (Some ''c.toml'') demo_server_cli = Run ''rusnel=debug,info'' cfg"
    and p: "sc_port cfg = 9090" by (simp add: demo_simps)
  have "server_set_tls (\<lambda>n. n = ''insecure'')" by (simp add: server_set_tls_def)
  from server_tls_flags_win [OF this run] have "sc_tls cfg = Insecure"
    by (auto simp: demo_server_cli_def resolve_server_tls_def)
  with run p show ?thesis by blast
qed

text \<open>Not every flag wins: with \<^verbatim>\<open>no_admin_socket = true\<close> in the file the server runs without an admin socket
  though a path was given on the command line, and \<^verbatim>\<open>verbose = true\<close> in the file drowns an explicit
  \<^verbatim>\<open>--quiet\<close>.\<close>

theorem file_overrides_flags:
  assumes "explicit ''admin_socket''" "\<not> explicit ''no_admin_socket''"
    and "explicit ''is_quiet''" "\<not> explicit ''is_verbose''" "\<not> explicit ''is_debug''"
    and "env_load env path = Inr cf" "file_server cf = Some sec"
    and "sf_no_admin_socket sec = Some True" "sf_verbose sec = Some True" "sf_debug sec = None" "\<not> sv_is_debug cli"
    and "main_server env explicit (Some path) cli = Run d cfg"
  shows "sc_admin_socket cfg = None \<and> d = ''rusnel=debug,info''"
proof -
  let ?m = "merge_server_with_file cli (Some sec) explicit"
  from assms(12) obtain sct where "load_section (env_load env) file_server (Some path) = Inr sct"
    "d = default_directive (sv_is_verbose (merge_server_with_file cli sct explicit))
       (sv_is_debug (merge_server_with_file cli sct explicit)) (sv_is_quiet (merge_server_with_file cli sct explicit))"
    "sv_no_admin_socket (merge_server_with_file cli sct explicit) \<longrightarrow> sc_admin_socket cfg = None"
    by (rule main_server_Run) blast
  moreover have "sv_no_admin_socket ?m" "sv_is_verbose ?m" "\<not> sv_is_debug ?m"
    using assms(2,4,5,8-11) by (simp_all add: merge_server_with_file_def Let_def pick_def)
  ultimately show ?thesis using assms(6,7) by (simp add: load_section_def default_directive_def)
qed

theorem file_overrides_flags_witness:
  "\<exists>cfg. main_server demo_env (\<lambda>n. n \<in> {''insecure'', ''admin_socket'', ''is_quiet''}) (Some ''c.toml'')
     (demo_server_cli \<lparr> sv_is_quiet := True \<rparr>) = Run ''rusnel=debug,info'' cfg \<and> sc_admin_socket cfg = None"
proof -
  let ?e = "\<lambda>n. n \<in> {''insecure'', ''admin_socket'', ''is_quiet''}" and ?cli = "demo_server_cli \<lparr> sv_is_quiet := True \<rparr>"
  obtain cfg where run: "main_server demo_env ?e (Some ''c.toml'') ?cli = Run ''rusnel=debug,info'' cfg"
    by (simp add: demo_simps)
  have "sc_admin_socket cfg = None \<and> ''rusnel=debug,info'' = ''rusnel=debug,info''"
    by (rule file_overrides_flags [where sec = demo_section and cf = "\<lparr> file_server = Some demo_section, file_client = None \<rparr>", OF _ _ _ _ _ _ _ _ _ _ _ run]) (simp_all add: demo_env_def demo_section_def demo_server_cli_def)
  with run show ?thesis by blast
qed

section \<open>What a client starts with\<close>

lemma interleave_nonempty: "xs \<noteq> [] \<or> ys \<noteq> [] \<Longrightarrow> interleave xs ys \<noteq> []"
  by (induction xs ys rule: interleave.induct) auto

lemma parse_server_addr_nonempty:
  assumes "parse_server_addr resolve s = Inr ep"
  shows "addrs ep \<noteq> []"
proof -
  from assms obtain as where as: "as \<noteq> []" "addrs ep = interleave_address_families as"
    by (auto simp: parse_server_addr_def and_then_Inr_iff split: if_splits)
  then obtain a where "a \<in> set as" by (cases as) auto
  with as show ?thesis
    by (cases a) (auto simp: interleave_address_families_def Let_def filter_empty_conv intro!: interleave_nonempty)
qed

lemma merge_client_server:
  assumes "merge_client_with_file resolve cli sct explicit = Inr m" "cl_server m = Some ep"
    and "\<And>ep. cl_server cli = Some ep \<Longrightarrow> addrs ep \<noteq> []"
  shows "addrs ep \<noteq> []"
  using assms
  by (auto simp: merge_client_with_file_def and_then_Inr_iff Let_def parse_server_addr_nonempty split: option.splits)

lemma merge_client_flags:
  assumes "merge_client_with_file resolve cli sct explicit = Inr m"
  shows "client_set_tls explicit \<longrightarrow> cl_insecure m = cl_insecure cli \<and> cl_tls_fingerprint m = cl_tls_fingerprint cli \<and>
      cl_tls_ca m = cl_tls_ca cli \<and> cl_tls_cert m = cl_tls_cert cli \<and> cl_tls_key m = cl_tls_key cli"
    and "explicit ''tls_server_name'' \<longrightarrow> cl_tls_server_name m = cl_tls_server_name cli"
    and "explicit ''max_retry_count'' \<longrightarrow> cl_max_retry_count m = cl_max_retry_count cli"
  using assms
  by (cases sct; force simp: merge_client_with_file_def and_then_Inr_iff Let_def pick_def)+

lemma main_client_Run:
  assumes "main_client env explicit config cli = Run d cfg"
  obtains sct m em retries where "load_section (env_load env) file_client config = Inr sct"
    "merge_client_with_file (env_resolve env) cli sct explicit = Inr m" "cl_server m = Some (cc_server cfg)"
    "cl_remotes m = cc_remotes cfg" "cc_remotes cfg \<noteq> []" "env_embedded env = Inr em"
    "resolve_client_tls (env_show_fp_error env) (cl_insecure m) (cl_tls_fingerprint m) (cl_tls_ca m)
       (cl_tls_cert m) (cl_tls_key m) (cl_tls_server_name m) em = Inr (cc_tls cfg)"
    "max_retries_from_cli (cl_max_retry_count m) = Inr retries"
    "cc_reconnect cfg = reconnect_default \<lparr> max_retries := retries, max_backoff := cl_max_retry_interval m \<rparr>"
  using assms by (auto simp: main_client_def split: sum.splits option.splits if_splits)

text \<open>A client that starts has something to do and somewhere to go: its endpoint has an address, so that
  \<^verbatim>\<open>primary\<close> does not panic, it has a remote, and a TLS mode given on the command line is what the flags and the
  embedded credentials give, up to the server name.\<close>

theorem client_start_valid:
  assumes "main_client env explicit config cli = Run d cfg"
    and "\<And>ep. cl_server cli = Some ep \<Longrightarrow> addrs ep \<noteq> []"
    and "client_set_tls explicit" "explicit ''tls_server_name''"
  shows "primary (cc_server cfg) \<noteq> None \<and> cc_remotes cfg \<noteq> [] \<and>
    (\<exists>em. env_embedded env = Inr em \<and>
      resolve_client_tls (env_show_fp_error env) (cl_insecure cli) (cl_tls_fingerprint cli) (cl_tls_ca cli)
        (cl_tls_cert cli) (cl_tls_key cli) (cl_tls_server_name cli) em = Inr (cc_tls cfg))"
proof -
  from assms(1) obtain sct m em retries where
    m: "merge_client_with_file (env_resolve env) cli sct explicit = Inr m" "cl_server m = Some (cc_server cfg)" and
    rest: "cc_remotes cfg \<noteq> []" "env_embedded env = Inr em"
      "resolve_client_tls (env_show_fp_error env) (cl_insecure m) (cl_tls_fingerprint m) (cl_tls_ca m)
        (cl_tls_cert m) (cl_tls_key m) (cl_tls_server_name m) em = Inr (cc_tls cfg)"
    by (rule main_client_Run) blast
  have "addrs (cc_server cfg) \<noteq> []" by (rule merge_client_server [OF m]) (rule assms(2))
  then have "primary (cc_server cfg) \<noteq> None" by (simp add: primary_def split: list.splits)
  moreover have "cl_insecure m = cl_insecure cli" "cl_tls_fingerprint m = cl_tls_fingerprint cli" "cl_tls_ca m = cl_tls_ca cli"
    "cl_tls_cert m = cl_tls_cert cli" "cl_tls_key m = cl_tls_key cli" "cl_tls_server_name m = cl_tls_server_name cli"
    using merge_client_flags [OF m(1)] assms(3,4) by simp_all
  ultimately show ?thesis using rest by auto
qed

definition demo_client_cli :: client_cli where
  "demo_client_cli = \<lparr> cl_server = None, cl_remotes = [\<lparr> direction = Reverse, kind = Socks5 (SocketAddrV4 (Ipv4 127 0 0 1) 1080), stdio = False \<rparr>], cl_insecure = True, cl_tls_fingerprint = None,
     cl_tls_ca = None, cl_tls_cert = None, cl_tls_key = None, cl_tls_server_name = Some ''h'', cl_congestion = Bbr,
     cl_max_retry_count = 2, cl_max_retry_interval = 300000000000, cl_proxy = None, cl_is_verbose = False,
     cl_is_debug = False, cl_is_quiet = False, cl_log_format = Compact \<rparr>"

definition demo_client_section :: client_section where
  "demo_client_section = \<lparr> cf_server = Some ''h:80'', cf_remotes = None, cf_insecure = None, cf_tls_fingerprint = None,
     cf_tls_ca = Some ''/ca'', cf_tls_cert = None, cf_tls_key = None, cf_tls_server_name = None, cf_congestion = None,
     cf_max_retry_count = None, cf_max_retry_interval = Some 60, cf_proxy = None, cf_log_format = None, cf_verbose = None,
     cf_debug = None, cf_quiet = None \<rparr>"

definition demo_client_env :: environment where
  "demo_client_env = demo_env \<lparr> env_load := (\<lambda>_. Inr \<lparr> file_server = None, file_client = Some demo_client_section \<rparr>) \<rparr>"

definition demo_explicit :: "string \<Rightarrow> bool" where
  "demo_explicit n \<longleftrightarrow> n \<in> {''insecure'', ''tls_server_name'', ''max_retry_count''}"

lemma demo_client_runs:
  "\<exists>cfg. main_client demo_client_env demo_explicit (Some ''c.toml'') demo_client_cli = Run ''rusnel=info,warn'' cfg \<and>
     max_backoff (cc_reconnect cfg) = 60000000000"
proof -
  have "parse_server_addr (\<lambda>_. Inr [SocketAddrV4 (Ipv4 127 0 0 1) 8080]) ''h:80'' =
      Inr \<lparr> addrs = [SocketAddrV4 (Ipv4 127 0 0 1) 8080], ep_host = ''h'' \<rparr>" by code_simp
  then show ?thesis
    by (simp add: demo_client_env_def demo_client_cli_def demo_client_section_def demo_env_def demo_explicit_def no_creds_def
        main_client_def load_section_def merge_client_with_file_def client_set_tls_def pick_def resolve_client_tls_def
        max_retries_from_cli_def default_directive_def or_else_def)
qed

theorem client_start_valid_witness:
  "\<exists>cfg. main_client demo_client_env demo_explicit (Some ''c.toml'') demo_client_cli = Run ''rusnel=info,warn'' cfg \<and>
     primary (cc_server cfg) \<noteq> None \<and> cc_tls cfg = ClientInsecure"
proof -
  from demo_client_runs obtain cfg
    where run: "main_client demo_client_env demo_explicit (Some ''c.toml'') demo_client_cli = Run ''rusnel=info,warn'' cfg" by blast
  have "client_set_tls demo_explicit" "demo_explicit ''tls_server_name''" by (simp_all add: client_set_tls_def demo_explicit_def)
  from client_start_valid [OF run _ this] run show ?thesis by (auto simp: demo_client_cli_def resolve_client_tls_def)
qed

section \<open>The retry limit end to end\<close>

text \<open>C20. The retry limit of the command line is the one the client keeps: a negative count never gives up, and a count
  \<open>n\<close> below the largest 32-bit value gives up after \<open>n\<close> failed retries, for every way \<open>n + 1\<close> attempts in a
  row can fail.\<close>

theorem retry_flag_obeyed:
  assumes "main_client env explicit config cli = Run d cfg" "explicit ''max_retry_count''"
  shows "(sint (cl_max_retry_count cli) < 0 \<longrightarrow> snd (reconnect_loop (cc_reconnect cfg) (failures es)) = None) \<and>
    (sint (cl_max_retry_count cli) = int (length es) \<and> length es < 4294967295 \<longrightarrow>
      (\<exists>msg. snd (reconnect_loop (cc_reconnect cfg) (failures es @ (NoConnection e, i) # rs)) = Some (Inl msg)) \<and>
      length (fst (reconnect_loop (cc_reconnect cfg) (failures es @ (NoConnection e, i) # rs))) = length es)"
proof -
  from assms(1) obtain sct m retries where
    m: "merge_client_with_file (env_resolve env) cli sct explicit = Inr m"
      "max_retries_from_cli (cl_max_retry_count m) = Inr retries"
      "cc_reconnect cfg = reconnect_default \<lparr> max_retries := retries, max_backoff := cl_max_retry_interval m \<rparr>"
    by (rule main_client_Run) blast
  have c: "cl_max_retry_count m = cl_max_retry_count cli"
    using merge_client_flags [OF m(1)] assms(2) by simp
  have cfg: "max_retries (cc_reconnect cfg) = retries" using m(3) by simp
  show ?thesis
  proof (intro conjI impI)
    assume "sint (cl_max_retry_count cli) < 0"
    with m(2) c cfg have "max_retries (cc_reconnect cfg) = None" by (simp add: max_retries_from_cli_def)
    then show "snd (reconnect_loop (cc_reconnect cfg) (failures es)) = None" by (rule no_limit_never_gives_up)
  next
    assume n: "sint (cl_max_retry_count cli) = int (length es) \<and> length es < 4294967295"
    let ?m = "word_of_nat (length es) :: u32"
    from n m(2) c cfg have r: "max_retries (cc_reconnect cfg) = Some ?m" by (auto simp: max_retries_from_cli_def)
    from n have u: "length es = unat ?m" by (simp add: unat_of_nat)
    have "unat (- 1 :: u32) = 4294967295" by (simp add: unsigned_minus_1_eq_mask mask_eq_exp_minus_1)
    with u n have "?m \<noteq> - 1" by auto
    from gives_up_at_limit [OF r this u, of e i rs] u
    show "\<exists>msg. snd (reconnect_loop (cc_reconnect cfg) (failures es @ (NoConnection e, i) # rs)) = Some (Inl msg)"
      and "length (fst (reconnect_loop (cc_reconnect cfg) (failures es @ (NoConnection e, i) # rs))) = length es" by auto
  qed
qed

theorem retry_flag_obeyed_witness:
  "\<exists>cfg. main_client demo_client_env demo_explicit (Some ''c.toml'') demo_client_cli = Run ''rusnel=info,warn'' cfg \<and>
     length (fst (reconnect_loop (cc_reconnect cfg) (failures [''a'', ''b''] @ [(NoConnection ''c'', False)]))) = 2"
proof -
  from demo_client_runs obtain cfg
    where run: "main_client demo_client_env demo_explicit (Some ''c.toml'') demo_client_cli = Run ''rusnel=info,warn'' cfg" by blast
  have "demo_explicit ''max_retry_count''" by (simp add: demo_explicit_def)
  from retry_flag_obeyed [OF run this, of "[''a'', ''b'']" "''c''" False "[]"] run show ?thesis
    by (auto simp: demo_client_cli_def)
qed

end
