(* ===== verification/Endpoint.thy ===== *)
theory Endpoint
  imports Cli
begin

text \<open>
  The QUIC endpoints (\<^verbatim>\<open>src/src/common/quic.rs\<close>): transport settings, the endpoint of the server, the client's direct and
  proxied endpoints, and the two certificate verifiers; and the owner of the proxy's control connection at the end of
  \<^verbatim>\<open>src/src/common/proxy.rs\<close>. Binding a socket may fail. Checking a chain of certificates against roots and checking
  the signature of a handshake are the TLS library's and are arguments.
\<close>

section \<open>Transport\<close>

text \<open>Windows in bytes, times in seconds; \<^verbatim>\<open>Cubic\<close> is the library's default controller.\<close>

record transport_config =
  stream_receive_window :: nat
  receive_window :: nat
  send_window :: nat
  keep_alive_interval :: "nat option"
  max_idle_timeout :: "nat option"
  max_concurrent_bidi_streams :: nat
  max_concurrent_uni_streams :: nat
  controller :: congestion

definition build_transport_config :: "congestion \<Rightarrow> transport_config" where
  "build_transport_config congestion =
     \<lparr> stream_receive_window = 16 * 1024 * 1024, receive_window = 64 * 1024 * 1024, send_window = 64 * 1024 * 1024,
       keep_alive_interval = Some 15, max_idle_timeout = Some 30, max_concurrent_bidi_streams = 1024,
       max_concurrent_uni_streams = 0, controller = (case congestion of Bbr \<Rightarrow> Bbr | Cubic \<Rightarrow> Cubic) \<rparr>"

definition alpn_quic_http :: "string list" where
  "alpn_quic_http = [''h3'']"

section \<open>Endpoints\<close>

datatype endpoint_error =
  IdentityError identity_error
| BindAddrError
| EndpointBind socket_addr
| ProxyError associate_error
| ProxyBind string

record server_quic =
  sq_addr :: socket_addr
  sq_identity :: "bytes list \<times> bytes"
  sq_auth :: client_auth
  sq_alpn :: "string list"
  sq_transport :: transport_config

definition create_server_endpoint ::
  "crypto_lib \<Rightarrow> generated option \<Rightarrow> (socket_addr \<Rightarrow> bool) \<Rightarrow> ip_addr \<Rightarrow> u16 \<Rightarrow> server_tls \<Rightarrow> congestion \<Rightarrow> file_system \<Rightarrow>
   (endpoint_error + server_quic) \<times> file_system" where
  "create_server_endpoint lib gen bind_ok ip p tls congestion fs =
     (let addr = sock_new ip p in
      case load_server_identity lib gen tls fs of
        (Inl e, fs1) \<Rightarrow> (Inl (IdentityError e), fs1)
      | (Inr ident, fs1) \<Rightarrow>
         (and_then (map_err IdentityError (build_quic_server_config lib fs1 tls ident)) (\<lambda>auth.
          if bind_ok addr
          then Inr \<lparr> sq_addr = addr, sq_identity = ident, sq_auth = auth, sq_alpn = alpn_quic_http,
                 sq_transport = build_transport_config congestion \<rparr>
          else Inl (EndpointBind addr)), fs1))"

text \<open>The socket a client endpoint sends from: its own, bound to an address, or one wrapped for a proxy.\<close>

datatype client_socket = DirectSocket socket_addr | ProxiedSocket proxied_socket

record client_quic =
  cq_socket :: client_socket
  cq_check :: server_check
  cq_identity :: "(bytes list \<times> bytes) option"
  cq_alpn :: "string list"
  cq_transport :: transport_config

definition client_quic_over :: "client_socket \<Rightarrow> congestion \<Rightarrow> server_check \<times> (bytes list \<times> bytes) option \<Rightarrow> client_quic" where
  "client_quic_over sock congestion cfg =
     \<lparr> cq_socket = sock, cq_check = fst cfg, cq_identity = snd cfg, cq_alpn = alpn_quic_http,
       cq_transport = build_transport_config congestion \<rparr>"

definition create_client_endpoint ::
  "crypto_lib \<Rightarrow> file_system \<Rightarrow> (socket_addr \<Rightarrow> bool) \<Rightarrow> client_tls \<Rightarrow> congestion \<Rightarrow> socket_addr \<Rightarrow> endpoint_error + client_quic" where
  "create_client_endpoint lib fs bind_ok tls congestion server_addr =
     and_then (map_err IdentityError (build_quic_client_config lib fs tls)) (\<lambda>cfg.
     and_then (ok_or BindAddrError (parse_socket_addr
       (case server_addr of SocketAddrV4 _ _ \<Rightarrow> ''0.0.0.0:0'' | SocketAddrV6 _ _ _ _ \<Rightarrow> ''[::]:0''))) (\<lambda>bind_addr.
     if bind_ok bind_addr then Inr (client_quic_over (DirectSocket bind_addr) congestion cfg)
     else Inl (EndpointBind bind_addr)))"

text \<open>Through a proxy: the configuration is built before the handshake on the control connection \<^term>\<open>c\<close>.\<close>

definition create_client_endpoint_via_proxy ::
  "crypto_lib \<Rightarrow> file_system \<Rightarrow> (string \<Rightarrow> bool) \<Rightarrow> ip_addr \<Rightarrow> client_tls \<Rightarrow> congestion \<Rightarrow> socket_addr \<Rightarrow> proxy_config \<Rightarrow> conn \<Rightarrow>
   (endpoint_error + client_quic) \<times> conn" where
  "create_client_endpoint_via_proxy lib fs bind_ok peer_ip tls congestion server_addr proxy c =
     (case build_quic_client_config lib fs tls of
        Inl e \<Rightarrow> (Inl (IdentityError e), c)
      | Inr cfg \<Rightarrow>
         (case create_socks5_proxied_socket proxy peer_ip server_addr c of
            (Inl e, c1) \<Rightarrow> (Inl (ProxyError e), c1)
          | (Inr (sock, bind_addr), c1) \<Rightarrow>
              (if bind_ok bind_addr then Inr (client_quic_over (ProxiedSocket sock) congestion cfg)
               else Inl (ProxyBind bind_addr), c1)))"

section \<open>Verifiers\<close>

text \<open>\<^verbatim>\<open>pki roots chain name\<close> is the library's check of a chain, \<^verbatim>\<open>sig_ok cert\<close> its check that the handshake is signed with
  the key of the certificate; both verifiers of the program leave the latter to it.\<close>

definition verify_server_cert ::
  "crypto_lib \<Rightarrow> (bytes list \<Rightarrow> bytes list \<Rightarrow> string \<Rightarrow> bool) \<Rightarrow> server_check \<Rightarrow> bytes list \<Rightarrow> string \<Rightarrow> bool" where
  "verify_server_cert lib pki check chain name =
     (case check of
        SkipVerification \<Rightarrow> True
      | PinFingerprint expected \<Rightarrow> verify_pinned lib expected (hd chain)
      | RootCerts roots \<Rightarrow> pki roots chain name)"

definition accepts_server ::
  "crypto_lib \<Rightarrow> (bytes list \<Rightarrow> bytes list \<Rightarrow> string \<Rightarrow> bool) \<Rightarrow> (bytes \<Rightarrow> bool) \<Rightarrow> client_quic \<Rightarrow> bytes list \<Rightarrow> string \<Rightarrow> bool" where
  "accepts_server lib pki sig_ok ep chain name \<longleftrightarrow>
     chain \<noteq> [] \<and> verify_server_cert lib pki (cq_check ep) chain name \<and> sig_ok (hd chain)"

definition accepts_client :: "(bytes list \<Rightarrow> bytes list \<Rightarrow> bool) \<Rightarrow> (bytes \<Rightarrow> bool) \<Rightarrow> server_quic \<Rightarrow> bytes list option \<Rightarrow> bool" where
  "accepts_client client_pki sig_ok ep shown =
     (case sq_auth ep of
        NoClientAuth \<Rightarrow> True
      | RequireCertFrom roots \<Rightarrow>
         (case shown of None \<Rightarrow> False | Some chain \<Rightarrow> chain \<noteq> [] \<and> client_pki roots chain \<and> sig_ok (hd chain)))"

section \<open>The proxy's control connection\<close>

text \<open>\<^verbatim>\<open>TcpKeepalive\<close>: a task reads and discards what the proxy sends until the connection ends or fails, and is aborted when
  the socket is dropped; the connection is open while the task runs.\<close>

datatype keepalive = Draining | ControlEnded | Aborted

fun keepalive_read :: "io_error + bytes \<Rightarrow> keepalive \<Rightarrow> keepalive" where
  "keepalive_read (Inr []) Draining = ControlEnded"
| "keepalive_read (Inl e) Draining = ControlEnded"
| "keepalive_read r k = k"

fun keepalive_drop :: "keepalive \<Rightarrow> keepalive" where
  "keepalive_drop Draining = Aborted"
| "keepalive_drop k = k"

datatype proxied_event = ControlRead "io_error + bytes" | Transmit socket_addr bytes

fun proxied_run ::
  "proxied_socket \<Rightarrow> keepalive \<Rightarrow> proxied_event list \<Rightarrow> (send_error + bytes \<times> socket_addr) list \<times> keepalive" where
  "proxied_run sock k [] = ([], k)"
| "proxied_run sock k (ControlRead r # es) = proxied_run sock (keepalive_read r k) es"
| "proxied_run sock k (Transmit dst contents # es) =
     (case proxied_run sock k es of (sent, k') \<Rightarrow> (proxied_try_send sock dst contents # sent, k'))"

lemma keepalive_ended: "keepalive_read r ControlEnded = ControlEnded"
  by (cases r) simp_all

text \<open>The end of the control connection is noticed by nobody: the socket goes on sending to a relay the proxy has torn down,
  exactly as before, until the connection above it times out.\<close>

theorem control_end_unnoticed:
  "proxied_run sock Draining (ControlRead (Inr []) # es) =
     (map (\<lambda>(dst, contents). proxied_try_send sock dst contents)
        (concat (map (\<lambda>e. case e of Transmit dst contents \<Rightarrow> [(dst, contents)] | _ \<Rightarrow> []) es)), ControlEnded)"
proof -
  have "proxied_run sock ControlEnded es =
     (map (\<lambda>(dst, contents). proxied_try_send sock dst contents)
        (concat (map (\<lambda>e. case e of Transmit dst contents \<Rightarrow> [(dst, contents)] | _ \<Rightarrow> []) es)), ControlEnded)"
  proof (induction es)
    case (Cons e es)
    then show ?case by (cases e) (simp_all add: keepalive_ended)
  qed simp
  then show ?thesis by simp
qed

section \<open>The pool holds endpoints of the right family\<close>

definition pool_ok :: "(socket_addr \<Rightarrow> string + 'e) \<Rightarrow> 'e endpoint_pool \<Rightarrow> bool" where
  "pool_ok create p \<longleftrightarrow>
     (\<forall>e. pool_v4 p = Some e \<longrightarrow> (\<exists>a. \<not> is_ipv6 a \<and> create a = Inr e)) \<and>
     (\<forall>e. pool_v6 p = Some e \<longrightarrow> (\<exists>a. is_ipv6 a \<and> create a = Inr e))"

lemma pool_ok_new: "endpoint_pool_new create a = Inr p \<Longrightarrow> pool_ok create p"
  by (cases "is_ipv6 a") (auto simp: endpoint_pool_new_def pool_ok_def and_then_Inr_iff)

lemma get_for_ok:
  assumes "pool_ok create p" "get_for create a p = (r, p')"
  shows "pool_ok create p'" and "r = Inr e \<Longrightarrow> \<exists>b. is_ipv6 b = is_ipv6 a \<and> create b = Inr e"
  using assms by (auto simp: get_for_def pool_ok_def split: option.splits sum.splits if_splits)

lemma launch_ok:
  assumes "pool_ok create p" "launch create connect i as p err = (races, p', err')"
  shows "pool_ok create p'" and "(s, a, c) \<in> set races \<Longrightarrow>
    \<exists>e b. is_ipv6 b = is_ipv6 a \<and> create b = Inr e \<and> connect e a = Inr c"
proof -
  have "pool_ok create p' \<and> ((s, a, c) \<in> set races \<longrightarrow>
      (\<exists>e b. is_ipv6 b = is_ipv6 a \<and> create b = Inr e \<and> connect e a = Inr c))"
    using assms
  proof (induction create connect i as p err arbitrary: races p' err' rule: launch.induct)
    case (2 create connect idx x as p err)
    obtain r p1 where g: "get_for create x p = (r, p1)" by (cases "get_for create x p")
    note ok = get_for_ok [OF "2.prems"(1) g]
    show ?case
    proof (cases r)
      case (Inl e)
      with 2(1) [OF g [symmetric]] "2.prems"(2) g ok(1) show ?thesis by simp
    next
      case (Inr e)
      show ?thesis
      proof (cases "connect e x")
        case (Inl m)
        with 2(2) [OF g [symmetric] Inr] Inr "2.prems"(2) g ok(1) show ?thesis by simp
      next
        case (Inr q)
        with 2(3) [OF g [symmetric] \<open>r = Inr e\<close>] \<open>r = Inr e\<close> "2.prems"(2) g ok show ?thesis
          by (auto split: prod.splits) blast+
      qed
    qed
  qed simp
  then show "pool_ok create p'" and "(s, a, c) \<in> set races \<Longrightarrow>
    \<exists>e b. is_ipv6 b = is_ipv6 a \<and> create b = Inr e \<and> connect e a = Inr c" by blast+
qed

lemma show_wildcards:
  "show_sock (SocketAddrV4 (Ipv4 0 0 0 0) 0) = ''0.0.0.0:0''"
  "show_sock (SocketAddrV6 (Ipv6 0 0 0 0 0 0 0 0) 0 0 0) = ''[::]:0''"
  by code_simp+

lemma wildcard_addrs:
  "parse_socket_addr ''0.0.0.0:0'' = Some (SocketAddrV4 (Ipv4 0 0 0 0) 0)"
  "parse_socket_addr ''[::]:0'' = Some (SocketAddrV6 (Ipv6 0 0 0 0 0 0 0 0) 0 0 0)"
  using parse_socket_addr_show [of "SocketAddrV4 (Ipv4 0 0 0 0) 0"]
    parse_socket_addr_show [of "SocketAddrV6 (Ipv6 0 0 0 0 0 0 0 0) 0 0 0"]
  unfolding show_wildcards by simp_all

lemma client_endpoint_socket:
  "create_client_endpoint lib fs bind_ok tls cc a = Inr e \<Longrightarrow> \<exists>b. cq_socket e = DirectSocket b \<and> is_ipv6 b = is_ipv6 a"
  by (cases a)
    (auto simp: create_client_endpoint_def and_then_Inr_iff wildcard_addrs client_quic_over_def ok_or_def split: if_splits)


text \<open>The attempts of the \<open>n\<close>th round of the reconnect loop, each with the endpoint it goes through, when \<^term>\<open>can\<close> tells
  whether an endpoint takes an address.\<close>

definition start_attempts ::
  "(socket_addr \<Rightarrow> string + client_quic) \<Rightarrow> (client_quic \<Rightarrow> socket_addr \<Rightarrow> bool) \<Rightarrow> socket_addr list \<Rightarrow> client_quic endpoint_pool \<Rightarrow>
   (nat \<times> socket_addr \<times> client_quic) list \<times> client_quic endpoint_pool \<times> string option" where
  "start_attempts create can as p =
     launch create (\<lambda>e a. if can e a then Inr e else Inl ''invalid remote address'') 0 as p None"

fun round_attempts ::
  "(socket_addr \<Rightarrow> string + client_quic) \<Rightarrow> (client_quic \<Rightarrow> socket_addr \<Rightarrow> bool) \<Rightarrow> socket_addr list \<Rightarrow> client_quic endpoint_pool \<Rightarrow>
   nat \<Rightarrow> (nat \<times> socket_addr \<times> client_quic) list" where
  "round_attempts create can as p 0 = fst (start_attempts create can as p)"
| "round_attempts create can as p (Suc n) = round_attempts create can as (fst (snd (start_attempts create can as p))) n"

definition same_family :: "client_quic \<Rightarrow> socket_addr \<Rightarrow> bool" where
  "same_family ep a = (case cq_socket ep of DirectSocket b \<Rightarrow> is_ipv6 b = is_ipv6 a | ProxiedSocket s \<Rightarrow> target s = a)"

lemma round_attempts_ok:
  assumes "pool_ok create p" "(s, a, e) \<in> set (round_attempts create can as p n)"
  shows "\<exists>b. is_ipv6 b = is_ipv6 a \<and> create b = Inr e"
  using assms
proof (induction n arbitrary: p)
  case 0
  obtain races p' err where l: "start_attempts create can as p = (races, p', err)" by (cases "start_attempts create can as p")
  from launch_ok(2) [OF 0(1) l [unfolded start_attempts_def]] 0(2) l show ?case by (fastforce split: if_splits)
next
  case (Suc n)
  obtain races p' err where l: "start_attempts create can as p = (races, p', err)" by (cases "start_attempts create can as p")
  from Suc.IH [OF launch_ok(1) [OF Suc.prems(1) l [unfolded start_attempts_def]]] Suc.prems(2) l show ?case by simp
qed

lemma launch_can:
  assumes "pool_ok create p" "\<And>b e a. create b = Inr e \<Longrightarrow> is_ipv6 b = is_ipv6 a \<Longrightarrow> can e a"
  shows "launch create (\<lambda>e a. if can e a then Inr e else Inl msg) i as p err = launch create (\<lambda>e a. Inr e) i as p err"
  using assms(1)
proof (induction as arbitrary: i p err)
  case (Cons a as)
  obtain r p1 where g: "get_for create a p = (r, p1)" by (cases "get_for create a p")
  note ok = get_for_ok [OF Cons.prems g]
  show ?case
  proof (cases r)
    case (Inr e)
    with ok(2) assms(2) have "can e a" by blast
    with Inr g Cons.IH [OF ok(1)] show ?thesis by simp
  qed (use g Cons.IH [OF ok(1)] in simp)
qed simp

lemma endpoint_same_family:
  assumes "map_err show_err (create_client_endpoint lib fs bind_ok tls cc b) = Inr e" "is_ipv6 b = is_ipv6 a"
  shows "same_family e a"
  using assms client_endpoint_socket [of lib fs bind_ok tls cc b e]
  by (auto simp: same_family_def map_err_def split: sum.splits)

lemma run_async_pool:
  assumes "client_run_async create cfg = Inr (Some p, name)"
  shows "pool_ok create p" "name = client_server_name (cc_tls cfg) (ep_host (cc_server cfg))"
  using assms pool_ok_new [of create]
  by (auto simp: client_run_async_def Let_def and_then_Inr_iff split: option.splits)

text \<open>C29. No attempt to connect is lost to a socket of the wrong family: whatever the resolved addresses, in every round of
  the reconnect loop the endpoint an attempt goes through is bound in the family of the address it dials, so that an
  endpoint that refuses addresses of the other family refuses none.\<close>

theorem attempts_match_family:
  fixes cfg :: client_config and lib :: crypto_lib and fs :: file_system and bind_ok :: "socket_addr \<Rightarrow> bool"
    and show_err :: "endpoint_error \<Rightarrow> string"
  defines "create \<equiv> \<lambda>a. map_err show_err (create_client_endpoint lib fs bind_ok (cc_tls cfg) (cc_congestion cfg) a)"
  assumes "client_run_async create cfg = Inr (Some p, name)"
  shows "round_attempts create same_family (addrs (cc_server cfg)) p n =
      round_attempts create (\<lambda>_ _. True) (addrs (cc_server cfg)) p n \<and>
    (\<forall>(s, a, e)\<in>set (round_attempts create same_family (addrs (cc_server cfg)) p n). same_family e a)"
proof -
  have fam: "same_family e a" if "create b = Inr e" "is_ipv6 b = is_ipv6 a" for b e a
    using that unfolding create_def by (rule endpoint_same_family)
  have eq: "start_attempts create same_family as p = start_attempts create (\<lambda>_ _. True) as p" if "pool_ok create p" for as p
    using launch_can [OF that fam] by (simp add: start_attempts_def)
  have "round_attempts create same_family as p n = round_attempts create (\<lambda>_ _. True) as p n" if "pool_ok create p" for as p n
    using that
  proof (induction n arbitrary: p)
    case (Suc n)
    obtain races p' err where l: "start_attempts create same_family as p = (races, p', err)"
      by (cases "start_attempts create same_family as p")
    from Suc.IH [OF launch_ok(1) [OF Suc.prems l [unfolded start_attempts_def]]] l eq [OF Suc.prems] show ?case by simp
  qed (simp add: eq)
  moreover have "same_family e a" if "(s, a, e) \<in> set (round_attempts create same_family (addrs (cc_server cfg)) p n)" for s a e
    using round_attempts_ok [OF run_async_pool(1) [OF assms(2)] that] fam by blast
  ultimately show ?thesis using run_async_pool(1) [OF assms(2)] by blast
qed

section \<open>Whom the client talks to\<close>

definition insecure_asked :: "environment \<Rightarrow> string option \<Rightarrow> client_cli \<Rightarrow> bool" where
  "insecure_asked env config cli \<longleftrightarrow> cl_insecure cli \<or>
     (case load_section (env_load env) file_client config of Inr (Some file) \<Rightarrow> cf_insecure file = Some True | _ \<Rightarrow> False)"

lemma merge_client_insecure:
  assumes "merge_client_with_file resolve cli sct explicit = Inr m"
  shows "cl_insecure m = (case sct of None \<Rightarrow> cl_insecure cli | Some file \<Rightarrow>
    if client_set_tls explicit then cl_insecure cli else case cf_insecure file of Some v \<Rightarrow> v | None \<Rightarrow> cl_insecure cli)"
  using assms by (cases sct; force simp: merge_client_with_file_def and_then_Inr_iff Let_def)

lemma secure_mode:
  assumes "main_client env explicit config cli = Run d cfg" "\<not> insecure_asked env config cli"
  shows "cc_tls cfg \<noteq> ClientInsecure"
proof -
  from assms(1) obtain sct m em where
    m: "load_section (env_load env) file_client config = Inr sct" "merge_client_with_file (env_resolve env) cli sct explicit = Inr m"
      "resolve_client_tls (env_show_fp_error env) (cl_insecure m) (cl_tls_fingerprint m) (cl_tls_ca m)
        (cl_tls_cert m) (cl_tls_key m) (cl_tls_server_name m) em = Inr (cc_tls cfg)"
    by (rule main_client_Run) blast
  from assms(2) have "\<not> cl_insecure m"
    unfolding merge_client_insecure [OF m(2)]
    by (auto simp: insecure_asked_def m(1) split: option.splits)
  with m(3) show ?thesis
    by (auto simp: resolve_client_tls_def Let_def and_then_Inr_iff split: option.splits)
qed

lemma endpoint_config:
  "create_client_endpoint lib fs bind_ok tls cc a = Inr e \<Longrightarrow> build_quic_client_config lib fs tls = Inr (cq_check e, cq_identity e)"
  "fst (create_client_endpoint_via_proxy lib fs bind_ok' peer tls cc srv proxy c) = Inr e \<Longrightarrow>
     build_quic_client_config lib fs tls = Inr (cq_check e, cq_identity e)"
  by (auto simp: create_client_endpoint_def create_client_endpoint_via_proxy_def and_then_Inr_iff map_err_def client_quic_over_def
      split: if_splits sum.splits prod.splits)

definition pinned_cli :: client_cli where
  "pinned_cli = demo_client_cli \<lparr> cl_insecure := False, cl_tls_fingerprint := Some (format_fingerprint (replicate 32 2)) \<rparr>"

definition pinned_cfg :: client_config where
  "pinned_cfg = \<lparr> cc_server = \<lparr> addrs = [SocketAddrV4 (Ipv4 127 0 0 1) 8080], ep_host = ''h'' \<rparr>,
     cc_remotes = cl_remotes demo_client_cli, cc_tls = Fingerprint (replicate 32 2) (Some ''h''), cc_congestion = Bbr,
     cc_reconnect = reconnect_default \<lparr> max_retries := Some 2, max_backoff := 60000000000 \<rparr>, cc_proxy = None \<rparr>"

lemma pinned_runs:
  "main_client demo_client_env (\<lambda>n. n = ''tls_fingerprint'') (Some ''c.toml'') pinned_cli = Run ''rusnel=info,warn'' pinned_cfg"
  "\<not> insecure_asked demo_client_env (Some ''c.toml'') pinned_cli"
proof -
  have "parse_server_addr (\<lambda>_. Inr [SocketAddrV4 (Ipv4 127 0 0 1) 8080]) ''h:80'' =
      Inr \<lparr> addrs = [SocketAddrV4 (Ipv4 127 0 0 1) 8080], ep_host = ''h'' \<rparr>" by code_simp
  then show "main_client demo_client_env (\<lambda>n. n = ''tls_fingerprint'') (Some ''c.toml'') pinned_cli =
      Run ''rusnel=info,warn'' pinned_cfg"
    by (simp add: pinned_cli_def pinned_cfg_def demo_client_env_def demo_client_cli_def demo_client_section_def demo_env_def
        no_creds_def main_client_def load_section_def merge_client_with_file_def client_set_tls_def pick_def
        resolve_client_tls_def max_retries_from_cli_def default_directive_def or_else_def parse_format_fingerprint)
  show "\<not> insecure_asked demo_client_env (Some ''c.toml'') pinned_cli"
    by (simp add: insecure_asked_def pinned_cli_def demo_client_env_def load_section_def demo_client_section_def)
qed

definition pinned_endpoint :: client_quic where
  "pinned_endpoint = client_quic_over (DirectSocket (SocketAddrV4 (Ipv4 0 0 0 0) 0)) Bbr (PinFingerprint (replicate 32 2), None)"

lemma pinned_create:
  "create_client_endpoint demo_lib fs (\<lambda>_. True) (Fingerprint (replicate 32 2) (Some ''h'')) Bbr (SocketAddrV4 x p) = Inr pinned_endpoint"
  by (simp add: create_client_endpoint_def build_quic_client_config_def wildcard_addrs ok_or_def pinned_endpoint_def)

lemma pinned_async:
  "client_run_async (\<lambda>a. map_err (\<lambda>_. []) (create_client_endpoint demo_lib Map.empty (\<lambda>_. True) (cc_tls pinned_cfg)
     (cc_congestion pinned_cfg) a)) pinned_cfg = Inr (Some \<lparr> pool_v4 = Some pinned_endpoint, pool_v6 = None \<rparr>, ''h'')"
  by (simp add: client_run_async_def pinned_cfg_def primary_def endpoint_pool_new_def pinned_create client_server_name_def)

definition authenticated ::
  "crypto_lib \<Rightarrow> file_system \<Rightarrow> (bytes list \<Rightarrow> bytes list \<Rightarrow> string \<Rightarrow> bool) \<Rightarrow> client_tls \<Rightarrow> bytes list \<Rightarrow> string \<Rightarrow> bool" where
  "authenticated lib fs pki tls chain name =
     (case tls of
        ClientInsecure \<Rightarrow> False
      | Fingerprint d _ \<Rightarrow> sha256 lib (hd chain) = d
      | Ca ca _ \<Rightarrow> (case load_root_store lib fs ca of Inr roots \<Rightarrow> pki roots chain name | Inl _ \<Rightarrow> False)
      | ClientMtls ca _ _ _ \<Rightarrow> (case load_root_store lib fs ca of Inr roots \<Rightarrow> pki roots chain name | Inl _ \<Rightarrow> False))"

lemma accepts_authenticated:
  assumes "build_quic_client_config lib fs tls = Inr (check, i)" "check = cq_check e" "accepts_server lib pki sig_ok e chain name"
    "tls \<noteq> ClientInsecure"
  shows "sig_ok (hd chain) \<and> authenticated lib fs pki tls chain name"
  using assms(1,3,4) unfolding accepts_server_def assms(2) [symmetric]
  by (cases tls)
    (auto simp: build_quic_client_config_def verify_server_cert_def verify_pinned_def authenticated_def
      and_then_Inr_iff install_def split: if_splits)

text \<open>C5. Certificate checks are skipped only when that was asked for: a client that starts without \<^verbatim>\<open>insecure\<close> on the command
  line or in its section of the file talks, in every round of reconnecting, directly or through a proxy, only to a server
  that has proved to hold the key of a certificate with the pinned digest, or of a chain that checks against the roots
  in the configured CA file under the name the client was told to expect.\<close>

theorem client_authenticates_server:
  fixes cfg :: client_config and lib :: crypto_lib and fs :: file_system and bind_ok :: "socket_addr \<Rightarrow> bool"
    and show_err :: "endpoint_error \<Rightarrow> string"
  defines "create \<equiv> \<lambda>a. map_err show_err (create_client_endpoint lib fs bind_ok (cc_tls cfg) (cc_congestion cfg) a)"
  assumes "main_client env explicit config cli = Run d cfg" "\<not> insecure_asked env config cli"
    and "client_run_async create cfg = Inr (pool, name)"
    and "(\<exists>p n s a. pool = Some p \<and> (s, a, ep) \<in> set (round_attempts create can (addrs (cc_server cfg)) p n)) \<or>
      (\<exists>proxy srv peer c. cc_proxy cfg = Some proxy \<and>
        fst (create_client_endpoint_via_proxy lib fs bind_ok' peer (cc_tls cfg) (cc_congestion cfg) srv proxy c) = Inr ep)"
    and "accepts_server lib pki sig_ok ep chain name"
  shows "sig_ok (hd chain) \<and>
    authenticated lib fs pki (cc_tls cfg) chain (client_server_name (cc_tls cfg) (ep_host (cc_server cfg)))"
proof -
  have "build_quic_client_config lib fs (cc_tls cfg) = Inr (cq_check ep, cq_identity ep)"
    using assms(5)
  proof (elim disjE exE conjE)
    fix p n s a assume "pool = Some p" "(s, a, ep) \<in> set (round_attempts create can (addrs (cc_server cfg)) p n)"
    with round_attempts_ok [of create p] run_async_pool(1) [of create cfg p name] assms(4) obtain b where "create b = Inr ep"
      by blast
    then show ?thesis by (intro endpoint_config(1)) (auto simp: create_def map_err_def split: sum.splits)
  qed (rule endpoint_config(2))
  moreover have "name = client_server_name (cc_tls cfg) (ep_host (cc_server cfg))"
    using assms(4) by (auto simp: client_run_async_def Let_def and_then_Inr_iff split: option.splits)
  ultimately show ?thesis using accepts_authenticated [OF _ refl assms(6)] secure_mode [OF assms(2,3)] by blast
qed

theorem attempts_match_family_witness:
  "round_attempts (\<lambda>a. map_err (\<lambda>_. []) (create_client_endpoint demo_lib Map.empty (\<lambda>_. True) (cc_tls pinned_cfg)
     (cc_congestion pinned_cfg) a)) same_family (addrs (cc_server pinned_cfg)) \<lparr> pool_v4 = Some pinned_endpoint, pool_v6 = None \<rparr> 1 =
   [(0, SocketAddrV4 (Ipv4 127 0 0 1) 8080, pinned_endpoint)]"
  using conjunct1 [OF attempts_match_family [OF pinned_async, of 1]]
  by (simp add: start_attempts_def get_for_def pinned_cfg_def happy_eyeballs_delay_def)

theorem client_authenticates_server_witness:
  "authenticated demo_lib Map.empty (\<lambda>_ _ _. False) (cc_tls pinned_cfg) [[1, 2]] ''h''"
proof -
  let ?create = "\<lambda>a. map_err (\<lambda>_. []) (create_client_endpoint demo_lib Map.empty (\<lambda>_. True) (cc_tls pinned_cfg)
     (cc_congestion pinned_cfg) a)"
  let ?p = "\<lparr> pool_v4 = Some pinned_endpoint, pool_v6 = None \<rparr>"
  have "(0, SocketAddrV4 (Ipv4 127 0 0 1) 8080, pinned_endpoint) \<in>
      set (round_attempts ?create (\<lambda>_ _. True) (addrs (cc_server pinned_cfg)) ?p 0)"
    by (simp add: start_attempts_def get_for_def pinned_cfg_def happy_eyeballs_delay_def)
  moreover have "accepts_server demo_lib (\<lambda>_ _ _. False) (\<lambda>_. True) pinned_endpoint [[1, 2]] ''h''"
    by (simp add: accepts_server_def verify_server_cert_def verify_pinned_def pinned_endpoint_def client_quic_over_def demo_lib_def)
  ultimately have "authenticated demo_lib Map.empty (\<lambda>_ _ _. False) (cc_tls pinned_cfg) [[1, 2]]
      (client_server_name (cc_tls pinned_cfg) (ep_host (cc_server pinned_cfg)))"
    using client_authenticates_server [OF pinned_runs pinned_async] by blast
  then show ?thesis by (simp add: pinned_cfg_def client_server_name_def)
qed

section \<open>Mutual authentication\<close>

text \<open>With \<^verbatim>\<open>--tls-ca\<close> on the server nobody gets in without a certificate: an endpoint in that mode accepts a peer exactly
  when it shows a chain that checks against the roots of the CA file and proves to hold its key; the clients that show
  one are those in mutual mode, with the identity loaded from their files.\<close>

theorem mtls_mutual:
  assumes "create_server_endpoint lib gen bind_ok ip p (Mtls cert key ca) cc fs = (Inr srv, fs')"
    and "create_client_endpoint lib' cfs bind_ok' tls cc' a = Inr ep"
  shows "\<exists>roots. load_root_store lib fs' ca = Inr roots \<and> load_pem_identity lib fs cert key = Inr (sq_identity srv) \<and>
    (accepts_client client_pki sig_ok srv (map_option fst (cq_identity ep)) \<longleftrightarrow>
      (\<exists>ca' cert' key' n chain k. tls = ClientMtls ca' cert' key' n \<and> load_pem_identity lib' cfs cert' key' = Inr (chain, k) \<and>
        chain \<noteq> [] \<and> client_pki roots chain \<and> sig_ok (hd chain)))"
proof -
  from assms(1) obtain roots where r: "load_root_store lib fs' ca = Inr roots" "sq_auth srv = RequireCertFrom roots"
    "load_pem_identity lib fs cert key = Inr (sq_identity srv)"
    by (auto simp: create_server_endpoint_def load_server_identity_def build_quic_server_config_def install_def and_then_Inr_iff
        map_err_def Let_def split: sum.splits prod.splits if_splits)
  from endpoint_config(1) [OF assms(2)] have "cq_identity ep =
      (case tls of ClientMtls _ cert' key' _ \<Rightarrow>
        (case load_pem_identity lib' cfs cert' key' of Inr ident \<Rightarrow> Some ident | Inl _ \<Rightarrow> None) | _ \<Rightarrow> None)"
    and "\<And>ca' cert' key' n. tls = ClientMtls ca' cert' key' n \<Longrightarrow> \<exists>ident. load_pem_identity lib' cfs cert' key' = Inr ident"
    by (cases tls; auto simp: build_quic_client_config_def install_def and_then_Inr_iff split: if_splits)+
  with r show ?thesis
    by (cases tls) (auto simp: accepts_client_def)
qed

theorem mtls_mutual_witness:
  "\<exists>srv fs'. create_server_endpoint demo_lib None (\<lambda>_. True) (V4 (Ipv4 127 0 0 1)) 443 (Mtls ''/c'' ''/k'' ''/ca'') Cubic
       [''/c'' \<mapsto> ([1], 420), ''/k'' \<mapsto> ([2], 384), ''/ca'' \<mapsto> ([3], 420)] = (Inr srv, fs') \<and>
     \<not> accepts_client (\<lambda>_ _. True) (\<lambda>_. True) srv (map_option fst (cq_identity pinned_endpoint))"
proof -
  let ?fs = "[''/c'' \<mapsto> ([1], 420), ''/k'' \<mapsto> ([2], 384), ''/ca'' \<mapsto> ([3], 420)] :: file_system"
  obtain srv where srv: "create_server_endpoint demo_lib None (\<lambda>_. True) (V4 (Ipv4 127 0 0 1)) 443 (Mtls ''/c'' ''/k'' ''/ca'') Cubic ?fs =
      (Inr srv, ?fs)"
    by (simp add: create_server_endpoint_def load_server_identity_def load_pem_identity_def load_pem_certs_def demo_lib_def
        build_quic_server_config_def load_root_store_def install_def)
  from mtls_mutual [OF srv pinned_create] srv show ?thesis by auto
qed

end
