(* ===== verification/Args.thy ===== *)
theory Args
  imports Endpoint
begin

text \<open>
  The arguments of the server and the client as \<^verbatim>\<open>src/src/main.rs\<close> declares them to \<^verbatim>\<open>clap\<close>: names, conflicts,
  requirements and defaults. Of the parser itself only what it documents is used: the arguments it accepts satisfy the
  declared constraints, where a conflict takes precedence over a requirement, and an argument that is not given has its
  default.
\<close>

section \<open>Declarations\<close>

record arg_spec =
  arg_id :: string
  arg_conflicts :: "string list"
  arg_requires :: "string list"

definition plain_arg :: "string \<Rightarrow> arg_spec" where
  "plain_arg n = \<lparr> arg_id = n, arg_conflicts = [], arg_requires = [] \<rparr>"

definition quiet_arg :: arg_spec where
  "quiet_arg = \<lparr> arg_id = ''is_quiet'', arg_conflicts = [''is_verbose'', ''is_debug''], arg_requires = [] \<rparr>"

definition server_args :: "arg_spec list" where
  "server_args =
     [plain_arg ''config'', plain_arg ''host'', plain_arg ''port'', plain_arg ''allow_reverse'', plain_arg ''allow_socks'',
      plain_arg ''insecure'',
      \<lparr> arg_id = ''tls_self_signed'', arg_conflicts = [''insecure'', ''tls_cert'', ''tls_key''], arg_requires = [] \<rparr>,
      \<lparr> arg_id = ''tls_state_dir'', arg_conflicts = [], arg_requires = [''tls_self_signed''] \<rparr>,
      \<lparr> arg_id = ''tls_cert'', arg_conflicts = [''insecure'', ''tls_self_signed''], arg_requires = [''tls_key''] \<rparr>,
      \<lparr> arg_id = ''tls_key'', arg_conflicts = [], arg_requires = [''tls_cert''] \<rparr>,
      \<lparr> arg_id = ''tls_ca'', arg_conflicts = [''insecure'', ''tls_self_signed''], arg_requires = [''tls_cert''] \<rparr>,
      plain_arg ''congestion'', plain_arg ''max_connections'',
      \<lparr> arg_id = ''admin_socket'', arg_conflicts = [''no_admin_socket''], arg_requires = [] \<rparr>,
      plain_arg ''no_admin_socket'', plain_arg ''is_verbose'', plain_arg ''is_debug'', quiet_arg, plain_arg ''log_format'']"

definition client_args :: "arg_spec list" where
  "client_args =
     [plain_arg ''config'', plain_arg ''server'', plain_arg ''remote'', plain_arg ''insecure'',
      \<lparr> arg_id = ''tls_fingerprint'', arg_conflicts = [''insecure'', ''tls_ca''], arg_requires = [] \<rparr>,
      \<lparr> arg_id = ''tls_ca'', arg_conflicts = [''insecure''], arg_requires = [] \<rparr>,
      \<lparr> arg_id = ''tls_cert'', arg_conflicts = [], arg_requires = [''tls_key'', ''tls_ca''] \<rparr>,
      \<lparr> arg_id = ''tls_key'', arg_conflicts = [], arg_requires = [''tls_cert'', ''tls_ca''] \<rparr>,
      plain_arg ''tls_server_name'', plain_arg ''congestion'', plain_arg ''max_retry_count'', plain_arg ''max_retry_interval'',
      plain_arg ''proxy'', plain_arg ''is_verbose'', plain_arg ''is_debug'', quiet_arg, plain_arg ''log_format'']"

text \<open>The values of a command line without arguments.\<close>

definition server_defaults :: server_cli where
  "server_defaults = \<lparr> sv_host = V4 (Ipv4 0 0 0 0), sv_port = 8080, sv_allow_reverse = False, sv_allow_socks = False,
     sv_insecure = False, sv_tls_self_signed = False, sv_tls_state_dir = None, sv_tls_cert = None, sv_tls_key = None,
     sv_tls_ca = None, sv_congestion = Cubic, sv_max_connections = 0, sv_admin_socket = None, sv_no_admin_socket = False,
     sv_is_verbose = False, sv_is_debug = False, sv_is_quiet = False, sv_log_format = Compact \<rparr>"

definition client_defaults :: client_cli where
  "client_defaults = \<lparr> cl_server = None, cl_remotes = [], cl_insecure = False, cl_tls_fingerprint = None, cl_tls_ca = None,
     cl_tls_cert = None, cl_tls_key = None, cl_tls_server_name = None, cl_congestion = Cubic, cl_max_retry_count = - 1,
     cl_max_retry_interval = (case parse_duration_secs ''300'' of Inr d \<Rightarrow> d | Inl _ \<Rightarrow> 0), cl_proxy = None, cl_is_verbose = False,
     cl_is_debug = False, cl_is_quiet = False, cl_log_format = Compact \<rparr>"

section \<open>What the parser accepts\<close>

definition in_conflict :: "arg_spec list \<Rightarrow> string \<Rightarrow> string \<Rightarrow> bool" where
  "in_conflict specs a b \<longleftrightarrow>
     list_ex (\<lambda>s. arg_id s = a \<and> b \<in> set (arg_conflicts s) \<or> arg_id s = b \<and> a \<in> set (arg_conflicts s)) specs"

definition clap_ok :: "arg_spec list \<Rightarrow> (string \<Rightarrow> bool) \<Rightarrow> bool" where
  "clap_ok specs explicit \<longleftrightarrow>
     list_all (\<lambda>s. explicit (arg_id s) \<longrightarrow>
       list_all (\<lambda>c. \<not> explicit c) (arg_conflicts s) \<and>
       list_all (\<lambda>r. explicit r \<or> list_ex (\<lambda>t. explicit (arg_id t) \<and> in_conflict specs r (arg_id t)) specs) (arg_requires s)) specs"

text \<open>A flag is set iff it is given, an option has a value iff it is given, and a value that is not given is the default.\<close>

definition given_server :: "(string \<Rightarrow> bool) \<Rightarrow> server_cli \<Rightarrow> bool" where
  "given_server explicit cli \<longleftrightarrow>
     (explicit ''host'' \<or> sv_host cli = sv_host server_defaults) \<and> (explicit ''port'' \<or> sv_port cli = sv_port server_defaults) \<and>
     sv_allow_reverse cli = explicit ''allow_reverse'' \<and> sv_allow_socks cli = explicit ''allow_socks'' \<and>
     sv_insecure cli = explicit ''insecure'' \<and> sv_tls_self_signed cli = explicit ''tls_self_signed'' \<and>
     (sv_tls_state_dir cli \<noteq> None) = explicit ''tls_state_dir'' \<and> (sv_tls_cert cli \<noteq> None) = explicit ''tls_cert'' \<and>
     (sv_tls_key cli \<noteq> None) = explicit ''tls_key'' \<and> (sv_tls_ca cli \<noteq> None) = explicit ''tls_ca'' \<and>
     (explicit ''congestion'' \<or> sv_congestion cli = sv_congestion server_defaults) \<and>
     (explicit ''max_connections'' \<or> sv_max_connections cli = sv_max_connections server_defaults) \<and>
     (sv_admin_socket cli \<noteq> None) = explicit ''admin_socket'' \<and> sv_no_admin_socket cli = explicit ''no_admin_socket'' \<and>
     sv_is_verbose cli = explicit ''is_verbose'' \<and> sv_is_debug cli = explicit ''is_debug'' \<and> sv_is_quiet cli = explicit ''is_quiet'' \<and>
     (explicit ''log_format'' \<or> sv_log_format cli = sv_log_format server_defaults)"

definition given_client :: "(string \<Rightarrow> bool) \<Rightarrow> client_cli \<Rightarrow> bool" where
  "given_client explicit cli \<longleftrightarrow>
     (cl_server cli \<noteq> None) = explicit ''server'' \<and> (explicit ''remote'' \<or> cl_remotes cli = cl_remotes client_defaults) \<and>
     cl_insecure cli = explicit ''insecure'' \<and> (cl_tls_fingerprint cli \<noteq> None) = explicit ''tls_fingerprint'' \<and>
     (cl_tls_ca cli \<noteq> None) = explicit ''tls_ca'' \<and> (cl_tls_cert cli \<noteq> None) = explicit ''tls_cert'' \<and>
     (cl_tls_key cli \<noteq> None) = explicit ''tls_key'' \<and> (cl_tls_server_name cli \<noteq> None) = explicit ''tls_server_name'' \<and>
     (explicit ''congestion'' \<or> cl_congestion cli = cl_congestion client_defaults) \<and>
     (explicit ''max_retry_count'' \<or> cl_max_retry_count cli = cl_max_retry_count client_defaults) \<and>
     (explicit ''max_retry_interval'' \<or> cl_max_retry_interval cli = cl_max_retry_interval client_defaults) \<and>
     (cl_proxy cli \<noteq> None) = explicit ''proxy'' \<and>
     cl_is_verbose cli = explicit ''is_verbose'' \<and> cl_is_debug cli = explicit ''is_debug'' \<and> cl_is_quiet cli = explicit ''is_quiet'' \<and>
     (explicit ''log_format'' \<or> cl_log_format cli = cl_log_format client_defaults)"

section \<open>What the constraints leave\<close>

lemmas clap_simps = clap_ok_def in_conflict_def server_args_def client_args_def plain_arg_def quiet_arg_def

lemma server_constraints:
  assumes "clap_ok server_args explicit"
  shows "explicit ''tls_self_signed'' \<Longrightarrow> \<not> explicit ''insecure'' \<and> \<not> explicit ''tls_cert'' \<and> \<not> explicit ''tls_key''"
    and "explicit ''tls_cert'' \<Longrightarrow> \<not> explicit ''insecure'' \<and> explicit ''tls_key''"
    and "explicit ''tls_ca'' \<Longrightarrow> explicit ''tls_cert'' \<and> explicit ''tls_key'' \<and> \<not> explicit ''insecure'' \<and> \<not> explicit ''tls_self_signed''"
    and "explicit ''tls_key'' \<Longrightarrow> explicit ''tls_cert'' \<or> explicit ''insecure''"
  using assms by (auto simp: clap_simps)

lemma client_constraints:
  assumes "clap_ok client_args explicit"
  shows "explicit ''tls_fingerprint'' \<Longrightarrow> \<not> explicit ''insecure'' \<and> \<not> explicit ''tls_ca''"
    and "explicit ''tls_ca'' \<Longrightarrow> \<not> explicit ''insecure'' \<and> (explicit ''tls_cert'' \<longleftrightarrow> explicit ''tls_key'')"
  using assms by (auto simp: clap_simps)

section \<open>Accepted flags are honoured\<close>

lemma server_without_file:
  assumes "main_server env explicit None cli = Run d cfg"
  obtains em where "env_embedded env = Inr em" "resolve_server_tls (env_home env) (sv_insecure cli) (sv_tls_self_signed cli)
    (sv_tls_state_dir cli) (sv_tls_cert cli) (sv_tls_key cli) (sv_tls_ca cli) em = Inr (sc_tls cfg)"
  using assms by (rule main_server_Run) (auto simp: load_section_def merge_server_with_file_def)

lemma client_without_file:
  assumes "main_client env explicit None cli = Run d cfg"
  obtains em where "env_embedded env = Inr em" "resolve_client_tls (env_show_fp_error env) (cl_insecure cli) (cl_tls_fingerprint cli)
    (cl_tls_ca cli) (cl_tls_cert cli) (cl_tls_key cli) (cl_tls_server_name cli) em = Inr (cc_tls cfg)"
  using assms by (rule main_client_Run) (auto simp: load_section_def merge_client_with_file_def)

lemma mtls_endpoint_demands:
  assumes "create_server_endpoint lib gen bind_ok ip p (Mtls cert key ca) cc fs = (Inr srv, fs')"
  shows "\<exists>roots. load_root_store lib fs' ca = Inr roots \<and> sq_auth srv = RequireCertFrom roots"
  using assms
  by (auto simp: create_server_endpoint_def load_server_identity_def build_quic_server_config_def install_def and_then_Inr_iff
      map_err_def Let_def split: sum.splits prod.splits if_splits)





end
