(* ===== verification/Cert.thy ===== *)
theory Cert
  imports Tls
begin

text \<open>
  Certificates made by \<^verbatim>\<open>rusnel cert\<close> (\<^verbatim>\<open>src/src/cert.rs\<close>, \<^verbatim>\<open>run_cert\<close> of
  \<^verbatim>\<open>src/src/main.rs\<close>) and credentials baked into the binary (\<^verbatim>\<open>src/src/embedded.rs\<close>). Keys and certificates
  come from a library, the record \<^verbatim>\<open>rcgen\<close>; the constants that the build script generates are the record
  \<^verbatim>\<open>embedded\<close>.
\<close>

section \<open>Generating\<close>

datatype san = DnsName string | IpAddress ip_addr

datatype key_usage = KeyCertSign | CrlSign | DigitalSignature | KeyEncipherment

datatype extended_key_usage = ServerAuth | ClientAuth

record cert_params =
  subject_alt_names :: "san list"
  is_ca :: bool
  key_usages :: "key_usage list"
  extended_key_usages :: "extended_key_usage list"

text \<open>The library: the names that a common name gives, whether a name is a valid DNS name, a fresh key (its PEM form), and
  signing, by the key itself or by an issuer read from the PEM forms of its certificate and key.\<close>

record rcgen =
  names_of :: "string \<Rightarrow> san list option"
  dns_ok :: "string \<Rightarrow> bool"
  fresh_key :: "bytes option"
  self_signed :: "cert_params \<Rightarrow> bytes \<Rightarrow> bytes option"
  key_ok :: "bytes \<Rightarrow> bool"
  issuer_ok :: "bytes \<Rightarrow> bool"
  signed_by :: "cert_params \<Rightarrow> bytes \<Rightarrow> bytes \<times> bytes \<Rightarrow> bytes option"

datatype cert_error =
  NoSans
| DirFailed string
| BadParams
| BadSan string
| CaReadFailed string
| BadCaKey
| BadCaCert
| KeyFailed
| SignFailed
| WriteFailed string

definition params_new :: "rcgen \<Rightarrow> string \<Rightarrow> cert_error + cert_params" where
  "params_new rc cn =
     (case names_of rc cn of
        None \<Rightarrow> Inl BadParams
      | Some ns \<Rightarrow> Inr \<lparr> subject_alt_names = ns, is_ca = False, key_usages = [], extended_key_usages = [] \<rparr>)"

text \<open>Text files must be valid UTF-8.\<close>

definition read_text :: "file_system \<Rightarrow> string \<Rightarrow> cert_error + bytes" where
  "read_text fs path =
     (case fs path of
        Some (c, _) \<Rightarrow> if utf8_valid c then Inr c else Inl (CaReadFailed path)
      | None \<Rightarrow> Inl (CaReadFailed path))"

definition load_signing_ca :: "rcgen \<Rightarrow> file_system \<Rightarrow> string \<Rightarrow> string \<Rightarrow> cert_error + bytes \<times> bytes" where
  "load_signing_ca rc fs cert_path key_path =
     and_then (read_text fs cert_path) (\<lambda>cert_pem.
     and_then (read_text fs key_path) (\<lambda>key_pem.
     if \<not> key_ok rc key_pem then Inl BadCaKey
     else if \<not> issuer_ok rc cert_pem then Inl BadCaCert
     else Inr (cert_pem, key_pem)))"

definition write_pem :: "crypto_lib \<Rightarrow> string \<Rightarrow> bytes \<Rightarrow> file_system \<Rightarrow> (cert_error + unit) \<times> file_system" where
  "write_pem lib path contents fs =
     (if writable lib path then (Inr (), write_file path contents fs) else (Inl (WriteFailed path), fs))"

definition write_secret_pem :: "crypto_lib \<Rightarrow> string \<Rightarrow> bytes \<Rightarrow> file_system \<Rightarrow> (cert_error + unit) \<times> file_system" where
  "write_secret_pem lib path contents fs =
     (if writable lib path then (Inr (), set_mode path 384 (write_file path contents fs)) else (Inl (WriteFailed path), fs))"

text \<open>The end the three generators share: write the certificate, then the key.\<close>

definition write_pair ::
  "crypto_lib \<Rightarrow> string \<Rightarrow> string \<Rightarrow> bytes \<Rightarrow> bytes \<Rightarrow> file_system \<Rightarrow> (cert_error + string \<times> string) \<times> file_system" where
  "write_pair lib cert_path key_path cert key fs =
     (case write_pem lib cert_path cert fs of
        (Inl e, fs1) \<Rightarrow> (Inl e, fs1)
      | (Inr _, fs1) \<Rightarrow>
         (case write_secret_pem lib key_path key fs1 of
            (Inl e, fs2) \<Rightarrow> (Inl e, fs2)
          | (Inr _, fs2) \<Rightarrow> (Inr (cert_path, key_path), fs2)))"

definition ca_params :: "cert_params \<Rightarrow> cert_params" where
  "ca_params p = p \<lparr> is_ca := True, key_usages := [KeyCertSign, CrlSign, DigitalSignature] \<rparr>"

definition generate_ca ::
  "crypto_lib \<Rightarrow> rcgen \<Rightarrow> string \<Rightarrow> string \<Rightarrow> file_system \<Rightarrow> (cert_error + string \<times> string) \<times> file_system" where
  "generate_ca lib rc out_dir common_name fs =
     (if \<not> writable lib out_dir then (Inl (DirFailed out_dir), fs)
      else case params_new rc common_name of
        Inl e \<Rightarrow> (Inl e, fs)
      | Inr p \<Rightarrow>
         (case fresh_key rc of
            None \<Rightarrow> (Inl KeyFailed, fs)
          | Some key \<Rightarrow>
             (case self_signed rc (ca_params p) key of
                None \<Rightarrow> (Inl SignFailed, fs)
              | Some cert \<Rightarrow> write_pair lib (path_join out_dir ''ca.pem'') (path_join out_dir ''ca.key'') cert key fs)))"

fun push_sans :: "rcgen \<Rightarrow> string list \<Rightarrow> cert_params \<Rightarrow> cert_error + cert_params" where
  "push_sans rc [] p = Inr p"
| "push_sans rc (d # ds) p =
     (if dns_ok rc d then push_sans rc ds (p \<lparr> subject_alt_names := subject_alt_names p @ [DnsName d] \<rparr>) else Inl (BadSan d))"

definition server_params :: "rcgen \<Rightarrow> string \<Rightarrow> string list \<Rightarrow> ip_addr list \<Rightarrow> cert_error + cert_params" where
  "server_params rc common_name dns_sans ip_sans =
     and_then (params_new rc common_name) (\<lambda>p.
     and_then (push_sans rc dns_sans p) (\<lambda>p.
     Inr (p \<lparr> subject_alt_names := subject_alt_names p @ map IpAddress ip_sans,
              key_usages := [DigitalSignature, KeyEncipherment], extended_key_usages := [ServerAuth] \<rparr>)))"

definition client_params :: "rcgen \<Rightarrow> string \<Rightarrow> cert_error + cert_params" where
  "client_params rc common_name =
     and_then (params_new rc common_name) (\<lambda>p.
     Inr (p \<lparr> key_usages := [DigitalSignature], extended_key_usages := [ClientAuth] \<rparr>))"

text \<open>What the two leaf generators share once the parameters are built.\<close>

definition issue ::
  "crypto_lib \<Rightarrow> rcgen \<Rightarrow> string \<Rightarrow> string \<Rightarrow> string \<Rightarrow> string \<Rightarrow> cert_params \<Rightarrow> file_system \<Rightarrow>
   (cert_error + string \<times> string) \<times> file_system" where
  "issue lib rc out_dir ca_cert_path ca_key_path file_stem p fs =
     (case load_signing_ca rc fs ca_cert_path ca_key_path of
        Inl e \<Rightarrow> (Inl e, fs)
      | Inr issuer \<Rightarrow>
         (case fresh_key rc of
            None \<Rightarrow> (Inl KeyFailed, fs)
          | Some key \<Rightarrow>
             (case signed_by rc p key issuer of
                None \<Rightarrow> (Inl SignFailed, fs)
              | Some cert \<Rightarrow>
                  write_pair lib (path_join out_dir (file_stem @ ''.pem'')) (path_join out_dir (file_stem @ ''.key'')) cert key fs)))"

definition generate_server_cert ::
  "crypto_lib \<Rightarrow> rcgen \<Rightarrow> string \<Rightarrow> string \<Rightarrow> string \<Rightarrow> string \<Rightarrow> string list \<Rightarrow> ip_addr list \<Rightarrow> string \<Rightarrow> file_system \<Rightarrow>
   (cert_error + string \<times> string) \<times> file_system" where
  "generate_server_cert lib rc out_dir ca_cert_path ca_key_path common_name dns_sans ip_sans file_stem fs =
     (if dns_sans = [] \<and> ip_sans = [] then (Inl NoSans, fs)
      else if \<not> writable lib out_dir then (Inl (DirFailed out_dir), fs)
      else case server_params rc common_name dns_sans ip_sans of
        Inl e \<Rightarrow> (Inl e, fs)
      | Inr p \<Rightarrow> issue lib rc out_dir ca_cert_path ca_key_path file_stem p fs)"

definition generate_client_cert ::
  "crypto_lib \<Rightarrow> rcgen \<Rightarrow> string \<Rightarrow> string \<Rightarrow> string \<Rightarrow> string \<Rightarrow> string \<Rightarrow> file_system \<Rightarrow>
   (cert_error + string \<times> string) \<times> file_system" where
  "generate_client_cert lib rc out_dir ca_cert_path ca_key_path common_name file_stem fs =
     (if \<not> writable lib out_dir then (Inl (DirFailed out_dir), fs)
      else case client_params rc common_name of
        Inl e \<Rightarrow> (Inl e, fs)
      | Inr p \<Rightarrow> issue lib rc out_dir ca_cert_path ca_key_path file_stem p fs)"

definition print_fingerprint :: "crypto_lib \<Rightarrow> file_system \<Rightarrow> string \<Rightarrow> identity_error + string" where
  "print_fingerprint lib fs path =
     (case fs path of
        None \<Rightarrow> Inl (ReadCertFailed path)
      | Some (pem, _) \<Rightarrow>
         (case parse_certs lib pem of
            None \<Rightarrow> Inl (ParseCertFailed path)
          | Some [] \<Rightarrow> Inl (NoCertificates path)
          | Some (leaf # _) \<Rightarrow> Inr (format_fingerprint (sha256 lib leaf))))"

datatype cert_action =
  CertCa string string
| CertServer string string string "string option" "string list" "ip_addr list" string
| CertClient string string string string "string option"
| CertFingerprint string

datatype cert_result = Wrote "cert_error + string \<times> string" | Printed "identity_error + string"

definition run_cert :: "crypto_lib \<Rightarrow> rcgen \<Rightarrow> cert_action \<Rightarrow> file_system \<Rightarrow> cert_result \<times> file_system" where
  "run_cert lib rc action fs =
     (case action of
        CertCa out_dir cn \<Rightarrow> (case generate_ca lib rc out_dir cn fs of (r, fs) \<Rightarrow> (Wrote r, fs))
      | CertServer out_dir ca ca_key common_name names ips file_stem \<Rightarrow>
          let cn = (case common_name of
                      Some c \<Rightarrow> c
                    | None \<Rightarrow> (case names of n # _ \<Rightarrow> n | [] \<Rightarrow> ''rusnel-server'')) in
          (case generate_server_cert lib rc out_dir ca ca_key cn names ips file_stem fs of (r, fs) \<Rightarrow> (Wrote r, fs))
      | CertClient out_dir ca ca_key common_name file_stem \<Rightarrow>
          let stem = (case file_stem of Some s \<Rightarrow> s | None \<Rightarrow> common_name) in
          (case generate_client_cert lib rc out_dir ca ca_key common_name stem fs of (r, fs) \<Rightarrow> (Wrote r, fs))
      | CertFingerprint cert \<Rightarrow> (Printed (print_fingerprint lib fs cert), fs))"

section \<open>Embedded credentials\<close>

record embedded =
  EMBED_CA :: "bytes option"
  EMBED_SERVER_CERT :: "bytes option"
  EMBED_SERVER_KEY :: "bytes option"
  EMBED_CLIENT_CERT :: "bytes option"
  EMBED_CLIENT_KEY :: "bytes option"
  EMBED_SERVER_ADDR :: "string option"
  EMBED_FINGERPRINT :: "string option"
  EMBED_SERVER_NAME :: "string option"
  EMBED_ARGS :: "string list option"

definition any_byte_embedded :: "embedded \<Rightarrow> bool" where
  "any_byte_embedded e \<longleftrightarrow>
     EMBED_CA e \<noteq> None \<or> EMBED_SERVER_CERT e \<noteq> None \<or> EMBED_SERVER_KEY e \<noteq> None \<or>
     EMBED_CLIENT_CERT e \<noteq> None \<or> EMBED_CLIENT_KEY e \<noteq> None"

definition any_embedded :: "embedded \<Rightarrow> bool" where
  "any_embedded e \<longleftrightarrow>
     any_byte_embedded e \<or> EMBED_SERVER_ADDR e \<noteq> None \<or> EMBED_FINGERPRINT e \<noteq> None \<or>
     EMBED_SERVER_NAME e \<noteq> None \<or> EMBED_ARGS e \<noteq> None"

text \<open>One step of the materialisation: nothing, or a file written; a secret one is then made private.\<close>

definition write_if_some ::
  "crypto_lib \<Rightarrow> string \<Rightarrow> string \<Rightarrow> bytes option \<Rightarrow> bool \<Rightarrow> file_system \<Rightarrow> (identity_error + string option) \<times> file_system" where
  "write_if_some lib dir name contents secret fs =
     (case contents of
        None \<Rightarrow> (Inr None, fs)
      | Some bs \<Rightarrow>
          let path = path_join dir name in
          if \<not> writable lib path then (Inl (WriteFileFailed path), fs)
          else let fs1 = write_file path bs fs in
               (Inr (Some path), if secret then set_mode path 384 fs1 else fs1))"

definition fs_bind :: "('e + 'a) \<times> file_system \<Rightarrow> ('a \<Rightarrow> file_system \<Rightarrow> ('e + 'b) \<times> file_system) \<Rightarrow> ('e + 'b) \<times> file_system" where
  "fs_bind m f = (case m of (Inl e, fs) \<Rightarrow> (Inl e, fs) | (Inr a, fs) \<Rightarrow> f a fs)"

definition no_paths :: "embedded \<Rightarrow> embedded_creds" where
  "no_paths e = \<lparr> em_ca = None, em_server_cert = None, em_server_key = None, em_client_cert = None, em_client_key = None,
     em_server_name = EMBED_SERVER_NAME e, em_fingerprint = EMBED_FINGERPRINT e \<rparr>"

definition materialize_uncached ::
  "crypto_lib \<Rightarrow> string \<Rightarrow> embedded \<Rightarrow> file_system \<Rightarrow> (identity_error + embedded_creds) \<times> file_system" where
  "materialize_uncached lib dir e fs =
     (if \<not> any_byte_embedded e then (Inr (no_paths e), fs)
      else if \<not> writable lib dir then (Inl (CreateDirFailed dir), fs)
      else
        fs_bind (write_if_some lib dir ''ca.pem'' (EMBED_CA e) False fs) (\<lambda>ca fs.
        fs_bind (write_if_some lib dir ''server.pem'' (EMBED_SERVER_CERT e) False fs) (\<lambda>sc fs.
        fs_bind (write_if_some lib dir ''server.key'' (EMBED_SERVER_KEY e) True fs) (\<lambda>sk fs.
        fs_bind (write_if_some lib dir ''client.pem'' (EMBED_CLIENT_CERT e) False fs) (\<lambda>cc fs.
        fs_bind (write_if_some lib dir ''client.key'' (EMBED_CLIENT_KEY e) True fs) (\<lambda>ck fs.
        (Inr (no_paths e \<lparr> em_ca := ca, em_server_cert := sc, em_server_key := sk, em_client_cert := cc, em_client_key := ck \<rparr>),
         fs)))))))"

text \<open>The cell keeps the first success, a failure is tried again.\<close>

definition materialize ::
  "crypto_lib \<Rightarrow> string \<Rightarrow> embedded \<Rightarrow> embedded_creds option \<Rightarrow> file_system \<Rightarrow>
   (identity_error + embedded_creds) \<times> embedded_creds option \<times> file_system" where
  "materialize lib dir e cell fs =
     (case cell of
        Some m \<Rightarrow> (Inr m, cell, fs)
      | None \<Rightarrow>
         (case materialize_uncached lib dir e fs of
            (Inl err, fs) \<Rightarrow> (Inl err, None, fs)
          | (Inr m, fs) \<Rightarrow> (Inr m, Some m, fs)))"

section \<open>What the generators write\<close>

lemma path_join_inject: "a \<noteq> [] \<Longrightarrow> b \<noteq> [] \<Longrightarrow> a \<noteq> b \<Longrightarrow> hd a \<noteq> CHR ''/'' \<Longrightarrow> hd b \<noteq> CHR ''/'' \<Longrightarrow> path_join d a \<noteq> path_join d b"
  by (simp add: path_join_def)

lemma path_join_stem: "path_join d (s @ ''.pem'') \<noteq> path_join d (s @ ''.key'')"
  by (cases s) (auto simp: path_join_def)

lemma write_pair_Inr:
  assumes "write_pair lib c k cert key fs = (Inr out, fs')" "c \<noteq> k"
  shows "out = (c, k)" "fs' k = Some (key, 384)" "\<exists>m. fs' c = Some (cert, m)" "\<And>p. p \<noteq> c \<Longrightarrow> p \<noteq> k \<Longrightarrow> fs' p = fs p"
  using assms
  by (auto simp: write_pair_def write_pem_def write_secret_pem_def set_mode_def write_file_def split: if_splits)

lemma push_sans_Inr:
  "push_sans rc ds p = Inr q \<Longrightarrow> q = p \<lparr> subject_alt_names := subject_alt_names p @ map DnsName ds \<rparr>"
proof (induction ds arbitrary: p)
  case (Cons d ds)
  from Cons.prems have "push_sans rc ds (p \<lparr> subject_alt_names := subject_alt_names p @ [DnsName d] \<rparr>) = Inr q"
    by (simp split: if_splits)
  from Cons.IH [OF this] show ?case by simp
qed simp

text \<open>C40. A server certificate is issued only with a name to check it against, carries every DNS name and address asked for
  and is good for server authentication and not for signing; exactly two files change, and the key is readable by its
  owner alone.\<close>

theorem server_cert_exact:
  assumes "generate_server_cert lib rc out_dir ca ca_key cn names ips stem fs = (Inr (c, k), fs')"
  shows "(names \<noteq> [] \<or> ips \<noteq> []) \<and>
    (\<exists>p issuer key cert.
      server_params rc cn names ips = Inr p \<and> signed_by rc p key issuer = Some cert \<and>
      DnsName ` set names \<union> IpAddress ` set ips \<subseteq> set (subject_alt_names p) \<and>
      \<not> is_ca p \<and> extended_key_usages p = [ServerAuth] \<and> KeyCertSign \<notin> set (key_usages p) \<and>
      load_signing_ca rc fs ca ca_key = Inr issuer \<and>
      (\<exists>m. fs' c = Some (cert, m)) \<and> fs' k = Some (key, 384) \<and> (\<forall>q. q \<noteq> c \<and> q \<noteq> k \<longrightarrow> fs' q = fs q))"
proof -
  from assms obtain p issuer key cert where
    sans: "names \<noteq> [] \<or> ips \<noteq> []" and p: "server_params rc cn names ips = Inr p" and
    i: "load_signing_ca rc fs ca ca_key = Inr issuer" "signed_by rc p key issuer = Some cert" and
    w: "write_pair lib (path_join out_dir (stem @ ''.pem'')) (path_join out_dir (stem @ ''.key'')) cert key fs = (Inr (c, k), fs')"
    by (auto simp: generate_server_cert_def issue_def split: if_splits sum.splits option.splits)
  note w' = write_pair_Inr [OF w path_join_stem]
  from p obtain q where q: "params_new rc cn = Inr q"
    "p = q \<lparr> subject_alt_names := subject_alt_names q @ map DnsName names @ map IpAddress ips,
             key_usages := [DigitalSignature, KeyEncipherment], extended_key_usages := [ServerAuth] \<rparr>"
    by (auto simp: server_params_def and_then_Inr_iff dest!: push_sans_Inr)
  then have "\<not> is_ca q" by (auto simp: params_new_def split: option.splits)
  with q(2) have "DnsName ` set names \<union> IpAddress ` set ips \<subseteq> set (subject_alt_names p) \<and> \<not> is_ca p \<and>
      extended_key_usages p = [ServerAuth] \<and> KeyCertSign \<notin> set (key_usages p)" by auto
  with sans p i w' show ?thesis by blast
qed

definition demo_rcgen :: rcgen where
  "demo_rcgen = \<lparr> names_of = (\<lambda>n. Some [DnsName n]), dns_ok = (\<lambda>_. True), fresh_key = Some [7], self_signed = (\<lambda>_ _. Some [1]),
     key_ok = (\<lambda>_. True), issuer_ok = (\<lambda>_. True), signed_by = (\<lambda>p _ _. Some (replicate (length (subject_alt_names p)) 2)) \<rparr>"

definition demo_pki :: file_system where
  "demo_pki = [''pki/ca.pem'' \<mapsto> ([1], 420), ''pki/ca.key'' \<mapsto> ([9], 384)]"

lemma demo_rcgen_simps:
  "names_of demo_rcgen n = Some [DnsName n]" "dns_ok demo_rcgen d" "fresh_key demo_rcgen = Some [7]"
  "signed_by demo_rcgen p key i = Some (replicate (length (subject_alt_names p)) 2)" "writable demo_lib path"
  by (simp_all add: demo_rcgen_def demo_lib_def)

lemma demo_ca: "load_signing_ca demo_rcgen demo_pki ''pki/ca.pem'' ''pki/ca.key'' = Inr ([1], [9])"
proof -
  have "utf8_valid [1]" "utf8_valid [9]" by code_simp+
  then show ?thesis by (simp add: load_signing_ca_def read_text_def demo_rcgen_def demo_pki_def)
qed

theorem server_cert_exact_witness:
  "\<exists>fs'. generate_server_cert demo_lib demo_rcgen ''pki'' ''pki/ca.pem'' ''pki/ca.key'' ''h'' [''h''] [] ''server'' demo_pki =
     (Inr (''pki/server.pem'', ''pki/server.key''), fs') \<and> (\<exists>key. fs' ''pki/server.key'' = Some (key, 384)) \<and>
     fs' ''pki/ca.key'' = Some ([9], 384)"
proof -
  obtain fs' where g: "generate_server_cert demo_lib demo_rcgen ''pki'' ''pki/ca.pem'' ''pki/ca.key'' ''h'' [''h''] [] ''server'' demo_pki =
     (Inr (''pki/server.pem'', ''pki/server.key''), fs')"
    by (simp add: generate_server_cert_def issue_def demo_ca server_params_def params_new_def write_pair_def write_pem_def
        write_secret_pem_def path_join_def demo_rcgen_simps)
  note ex = server_cert_exact [OF g]
  then have "fs' ''pki/ca.key'' = demo_pki ''pki/ca.key''" by force
  then have "fs' ''pki/ca.key'' = Some ([9], 384)" by (simp add: demo_pki_def)
  moreover from ex have "\<exists>key. fs' ''pki/server.key'' = Some (key, 384)" by (elim conjE exE) (rule exI)
  ultimately show ?thesis using g by (intro exI [of _ fs'] conjI)
qed

text \<open>Without a file stem a client certificate is named after its common name, so the common name \<^verbatim>\<open>ca\<close> in the
  directory of the authority replaces the authority's own key by the client's.\<close>

lemma client_named_ca_replaces_ca:
  assumes "run_cert lib rc (CertClient dir ca (path_join dir ''ca.key'') ''ca'' None) fs = (Wrote (Inr out), fs')"
  shows "snd out = path_join dir ''ca.key'' \<and> (\<exists>key. fresh_key rc = Some key \<and> fs' (path_join dir ''ca.key'') = Some (key, 384))"
proof -
  from assms obtain key cert where k: "fresh_key rc = Some key"
    and w: "write_pair lib (path_join dir (''ca'' @ ''.pem'')) (path_join dir (''ca'' @ ''.key'')) cert key fs = (Inr out, fs')"
    by (auto simp: run_cert_def generate_client_cert_def issue_def split: if_splits sum.splits option.splits prod.splits)
  from write_pair_Inr(1,2) [OF w path_join_stem] k show ?thesis by simp
qed

section \<open>A binary with embedded credentials\<close>

lemma write_if_some_Inr:
  assumes "write_if_some lib dir name contents secret fs = (Inr r, fs')"
  shows "r = map_option (\<lambda>_. path_join dir name) contents"
    and "\<And>bs. contents = Some bs \<Longrightarrow> \<exists>m. fs' (path_join dir name) = Some (bs, m) \<and> (secret \<longrightarrow> m = 384)"
    and "\<And>p. p \<noteq> path_join dir name \<Longrightarrow> fs' p = fs p"
  using assms
  by (auto simp: write_if_some_def Let_def set_mode_def write_file_def split: option.splits if_splits)

lemma fs_bind_Inr: "fs_bind m f = (Inr b, fs') \<longleftrightarrow> (\<exists>a fs. m = (Inr a, fs) \<and> f a fs = (Inr b, fs'))"
  by (auto simp: fs_bind_def split: prod.splits sum.splits)

text \<open>A server built with an embedded certificate and key and started without TLS flags serves that identity: the
  credentials are written out, found again under the paths the TLS mode names, with the key private to its owner, and the
  identity loaded is the one the embedded bytes stand for; with an embedded CA clients must show a certificate.\<close>

lemma embedded_identity_exact:
  assumes "EMBED_SERVER_CERT e = Some cert" "EMBED_SERVER_KEY e = Some key"
    and "parse_certs lib cert = Some chain" "chain \<noteq> []" "parse_key lib key = Some (Some k)"
    and "materialize_uncached lib dir e fs = (Inr em, fs')"
  shows "\<exists>tls. resolve_server_tls home False False None None None None em = Inr tls \<and>
    load_server_identity lib gen tls fs' = (Inr (chain, k), fs') \<and>
    (EMBED_CA e = None \<longrightarrow> (\<exists>c p. tls = Provided c p)) \<and>
    (\<forall>b. EMBED_CA e = Some b \<longrightarrow> (\<exists>c p ca m. tls = Mtls c p ca \<and> fs' ca = Some (b, m))) \<and>
    (\<exists>p. em_server_key em = Some p \<and> fs' p = Some (key, 384))"
proof -
  let ?j = "path_join dir"
  from assms(1) have any: "any_byte_embedded e" by (simp add: any_byte_embedded_def)
  from assms(6) any obtain ca f1 sc f2 sk f3 cc f4 ck where
    w: "write_if_some lib dir ''ca.pem'' (EMBED_CA e) False fs = (Inr ca, f1)"
      "write_if_some lib dir ''server.pem'' (EMBED_SERVER_CERT e) False f1 = (Inr sc, f2)"
      "write_if_some lib dir ''server.key'' (EMBED_SERVER_KEY e) True f2 = (Inr sk, f3)"
      "write_if_some lib dir ''client.pem'' (EMBED_CLIENT_CERT e) False f3 = (Inr cc, f4)"
      "write_if_some lib dir ''client.key'' (EMBED_CLIENT_KEY e) True f4 = (Inr ck, fs')"
    and em: "em = no_paths e \<lparr> em_ca := ca, em_server_cert := sc, em_server_key := sk, em_client_cert := cc, em_client_key := ck \<rparr>"
    by (auto simp: materialize_uncached_def fs_bind_Inr split: if_splits)
  have ne: "?j ''server.pem'' \<noteq> ?j ''server.key''" "?j ''server.pem'' \<noteq> ?j ''client.pem''" "?j ''server.pem'' \<noteq> ?j ''client.key''"
    "?j ''server.key'' \<noteq> ?j ''client.pem''" "?j ''server.key'' \<noteq> ?j ''client.key''" "?j ''ca.pem'' \<noteq> ?j ''server.pem''"
    "?j ''ca.pem'' \<noteq> ?j ''server.key''" "?j ''ca.pem'' \<noteq> ?j ''client.pem''" "?j ''ca.pem'' \<noteq> ?j ''client.key''"
    by (simp_all add: path_join_inject)
  note k = write_if_some_Inr(3) [OF w(2)] write_if_some_Inr(3) [OF w(3)] write_if_some_Inr(3) [OF w(4)] write_if_some_Inr(3) [OF w(5)]
  obtain m where c: "fs' (?j ''server.pem'') = Some (cert, m)"
    using write_if_some_Inr(2) [OF w(2) assms(1)] k ne by auto
  have s: "fs' (?j ''server.key'') = Some (key, 384)" using write_if_some_Inr(2) [OF w(3) assms(2)] k ne by auto
  have paths: "sc = Some (?j ''server.pem'')" "sk = Some (?j ''server.key'')" "ca = map_option (\<lambda>_. ?j ''ca.pem'') (EMBED_CA e)"
    using write_if_some_Inr(1) [OF w(1)] write_if_some_Inr(1) [OF w(2)] write_if_some_Inr(1) [OF w(3)] assms(1,2) by simp_all
  have "\<exists>m. fs' (?j ''ca.pem'') = Some (b, m)" if "EMBED_CA e = Some b" for b
    using write_if_some_Inr(2) [OF w(1) that] k ne by auto
  with c s paths assms(3-5) show ?thesis
    by (cases "EMBED_CA e") (simp_all add: em resolve_server_tls_def load_server_identity_def load_pem_identity_def load_pem_certs_def)
qed

end
