(* ===== verification/Admin.thy ===== *)
theory Admin
  imports Registry_Inv "HOL-Library.Product_Lexorder"
begin

text \<open>
  The read-only admin API (\<^verbatim>\<open>src/src/server/admin.rs\<close> and the DTOs at the end of
  \<^verbatim>\<open>src/src/server/state.rs\<close>): every handler as a function of the server's state. Matching of URL paths,
  JSON and HTTP belong to the libraries; a request is a value of \<^verbatim>\<open>api_request\<close>, an answer the DTO
  that is serialised, or \<^verbatim>\<open>NotFound\<close>.
\<close>

section \<open>DTOs\<close>

record server_info_dto =
  si_version :: string
  si_listen_addr :: string
  si_started_at_ms :: u64
  si_uptime_ms :: u64
  si_client_count :: nat
  si_tunnel_count :: nat
  si_active_conn_count :: nat

record client_summary_dto =
  cs_id :: u64
  cs_remote :: string
  cs_connected_at_ms :: u64
  cs_tunnel_count :: nat
  cs_active_conn_count :: u64
  cs_total_conns :: u64
  cs_bytes_in :: u64
  cs_bytes_out :: u64

record tunnel_dto =
  td_id :: u64
  td_client_id :: u64
  td_direction :: string
  td_kind :: string
  td_spec :: string
  td_opened_at_ms :: u64
  td_active_conn_count :: u64
  td_total_conns :: u64
  td_active_bytes_in :: u64
  td_active_bytes_out :: u64
  td_bytes_in :: u64
  td_bytes_out :: u64

record conn_dto =
  cd_id :: u64
  cd_tunnel_id :: u64
  cd_client_id :: u64
  cd_opened_at_ms :: u64
  cd_peer :: "string option"
  cd_bytes_in :: u64
  cd_bytes_out :: u64

definition client_summary_from :: "server_state \<Rightarrow> client_entry \<Rightarrow> client_summary_dto" where
  "client_summary_from st c =
     (let t = client_entry_totals st c in
      \<lparr> cs_id = cl_id c, cs_remote = show_sock (cl_remote c), cs_connected_at_ms = unix_ms (cl_connected_at c),
        cs_tunnel_count = length (cl_tunnels c), cs_active_conn_count = active_conns t, cs_total_conns = tot_conns t,
        cs_bytes_in = active_in t + tot_cumulative_in t, cs_bytes_out = active_out t + tot_cumulative_out t \<rparr>)"

definition tunnel_dto_from :: "server_state \<Rightarrow> tunnel_entry \<Rightarrow> tunnel_dto" where
  "tunnel_dto_from st e =
     (let t = tunnel_entry_totals st e in
      \<lparr> td_id = tn_id e, td_client_id = tn_client_id e,
        td_direction = (case tn_direction e of Forward \<Rightarrow> ''forward'' | Reverse \<Rightarrow> ''reverse''),
        td_kind = (case tn_kind e of remote_kind.Tcp _ _ \<Rightarrow> ''tcp'' | remote_kind.Udp _ _ \<Rightarrow> ''udp'' | Socks5 _ \<Rightarrow> ''socks5''),
        td_spec = tn_spec e, td_opened_at_ms = unix_ms (tn_opened_at e),
        td_active_conn_count = active_conns t, td_total_conns = tot_conns t,
        td_active_bytes_in = active_in t, td_active_bytes_out = active_out t,
        td_bytes_in = active_in t + tot_cumulative_in t, td_bytes_out = active_out t + tot_cumulative_out t \<rparr>)"

definition conn_dto_from :: "conn_entry \<Rightarrow> conn_dto" where
  "conn_dto_from c =
     (case snapshot (cn_counters c) of (i, out) \<Rightarrow>
      \<lparr> cd_id = cn_id c, cd_tunnel_id = cn_tunnel_id c, cd_client_id = cn_client_id c,
        cd_opened_at_ms = unix_ms (cn_opened_at c), cd_peer = cn_peer c, cd_bytes_in = i, cd_bytes_out = out \<rparr>)"

text \<open>A clock that went back before the start counts as no uptime.\<close>

definition server_info :: "string \<Rightarrow> nat \<Rightarrow> server_state \<Rightarrow> server_info_dto" where
  "server_info version now st =
     \<lparr> si_version = version, si_listen_addr = show_sock (listen_addr st), si_started_at_ms = unix_ms (started_at st),
       si_uptime_ms = word_of_nat (now - started_at st), si_client_count = client_count st,
       si_tunnel_count = tunnel_count st, si_active_conn_count = conn_count st \<rparr>"

section \<open>Handlers\<close>

definition list_clients :: "server_state \<Rightarrow> client_summary_dto list" where
  "list_clients st = sort_key cs_id (map (client_summary_from st) (clients_snapshot st))"

definition client_tunnel_dtos :: "server_state \<Rightarrow> client_entry \<Rightarrow> tunnel_dto list" where
  "client_tunnel_dtos st c =
     sort_key td_id (map (\<lambda>r. tunnel_dto_from st (tunnel_heap st ! r)) (dm_values (cl_tunnels c)))"

definition tunnel_conn_dtos :: "server_state \<Rightarrow> tunnel_entry \<Rightarrow> conn_dto list" where
  "tunnel_conn_dtos st t =
     sort_key cd_id (map (\<lambda>r. conn_dto_from (conn_heap st ! r)) (dm_values (tn_conns t)))"

definition get_client :: "server_state \<Rightarrow> u64 \<Rightarrow> (client_summary_dto \<times> tunnel_dto list) option" where
  "get_client st i = map_option (\<lambda>c. (client_summary_from st c, client_tunnel_dtos st c)) (client st i)"

definition list_client_tunnels :: "server_state \<Rightarrow> u64 \<Rightarrow> tunnel_dto list option" where
  "list_client_tunnels st i = map_option (client_tunnel_dtos st) (client st i)"

definition list_tunnels :: "server_state \<Rightarrow> tunnel_dto list" where
  "list_tunnels st = sort_key (\<lambda>t. (td_client_id t, td_id t)) (map (tunnel_dto_from st) (tunnels_snapshot st))"

definition get_tunnel :: "server_state \<Rightarrow> u64 \<Rightarrow> (tunnel_dto \<times> conn_dto list) option" where
  "get_tunnel st i = map_option (\<lambda>t. (tunnel_dto_from st t, tunnel_conn_dtos st t)) (tunnel st i)"

definition list_tunnel_conns :: "server_state \<Rightarrow> u64 \<Rightarrow> conn_dto list option" where
  "list_tunnel_conns st i = map_option (tunnel_conn_dtos st) (tunnel st i)"

definition list_conns :: "server_state \<Rightarrow> conn_dto list" where
  "list_conns st =
     sort_key (\<lambda>c. (cd_client_id c, cd_tunnel_id c, cd_id c)) (map conn_dto_from (conns_snapshot st))"

definition get_conn :: "server_state \<Rightarrow> u64 \<Rightarrow> conn_dto option" where
  "get_conn st i = map_option conn_dto_from (live_conn st i)"

definition list_client_conns :: "server_state \<Rightarrow> u64 \<Rightarrow> conn_dto list option" where
  "list_client_conns st i =
     map_option (\<lambda>c. sort_key (\<lambda>d. (cd_tunnel_id d, cd_id d))
       (concat (map (\<lambda>t. map (\<lambda>r. conn_dto_from (conn_heap st ! r)) (dm_values (tn_conns (tunnel_heap st ! t))))
         (dm_values (cl_tunnels c))))) (client st i)"

definition default_history_limit :: nat where
  "default_history_limit = 50"

definition list_history :: "nat option \<Rightarrow> server_state \<Rightarrow> history_entry list" where
  "list_history limit st = history_snapshot (case limit of None \<Rightarrow> default_history_limit | Some n \<Rightarrow> n) st"

datatype api_request =
  GetServer
| ListClients
| GetClient u64
| ListClientTunnels u64
| ListClientConns u64
| ListTunnels
| GetTunnel u64
| ListTunnelConns u64
| ListConns
| GetConn u64
| ListHistory "nat option"

datatype api_response =
  ServerInfo server_info_dto
| Clients "client_summary_dto list"
| ClientDetail client_summary_dto "tunnel_dto list"
| Tunnels "tunnel_dto list"
| TunnelDetail tunnel_dto "conn_dto list"
| Conns "conn_dto list"
| Conn conn_dto
| History "history_entry list"
| NotFound

definition or_not_found :: "('a \<Rightarrow> api_response) \<Rightarrow> 'a option \<Rightarrow> api_response" where
  "or_not_found f x = (case x of None \<Rightarrow> NotFound | Some a \<Rightarrow> f a)"

definition router :: "string \<Rightarrow> nat \<Rightarrow> server_state \<Rightarrow> api_request \<Rightarrow> api_response" where
  "router version now st req =
     (case req of
        GetServer \<Rightarrow> ServerInfo (server_info version now st)
      | ListClients \<Rightarrow> Clients (list_clients st)
      | GetClient i \<Rightarrow> or_not_found (\<lambda>(s, ts). ClientDetail s ts) (get_client st i)
      | ListClientTunnels i \<Rightarrow> or_not_found Tunnels (list_client_tunnels st i)
      | ListClientConns i \<Rightarrow> or_not_found Conns (list_client_conns st i)
      | ListTunnels \<Rightarrow> Tunnels (list_tunnels st)
      | GetTunnel i \<Rightarrow> or_not_found (\<lambda>(t, cs). TunnelDetail t cs) (get_tunnel st i)
      | ListTunnelConns i \<Rightarrow> or_not_found Conns (list_tunnel_conns st i)
      | ListConns \<Rightarrow> Conns (list_conns st)
      | GetConn i \<Rightarrow> or_not_found Conn (get_conn st i)
      | ListHistory limit \<Rightarrow> History (list_history limit st))"

section \<open>What the listings show\<close>

lemma values_image:
  "dm_ok m \<Longrightarrow> set (map f (dm_values m)) = {e. \<exists>i. map_option f (dm_get m i) = Some e}"
  unfolding set_map using dm.in_vals [of m] by (auto simp: image_iff) blast

lemma snapshot_sets:
  assumes "wf_state st"
  shows "set (tunnels_snapshot st) = {e. \<exists>i. tunnel st i = Some e}"
    and "set (clients_snapshot st) = {e. \<exists>i. client st i = Some e}"
    and "set (conns_snapshot st) = {e. \<exists>i. live_conn st i = Some e}"
  unfolding tunnels_snapshot_def clients_snapshot_def conns_snapshot_def tunnel_def client_def live_conn_def
  by (rule values_image, use assms in \<open>simp add: wf_state_def clients_ok_def\<close>)+

text \<open>Over a state whose entries carry the id they are stored under.\<close>

lemma dm_values_distinct:
  assumes "dm_ok m" "\<And>i r. dm_get m i = Some r \<Longrightarrow> f r = i"
  shows "distinct (map f (dm_values m))"
proof -
  have "map_of m i = Some r" if "(i, r) \<in> set m" for i r
    using that assms(1) by (simp add: dm_ok_def)
  then have "map f (dm_values m) = map fst m"
    using assms(2) by (auto simp: dm_values_def dm_get_def)
  with assms(1) show ?thesis by (simp add: dm_ok_def)
qed

lemma listing_ids_distinct:
  assumes "wf_state st"
  shows "distinct (map td_id (list_tunnels st))" "distinct (map cd_id (list_conns st))"
    "distinct (map cs_id (list_clients st))"
proof -
  from assms have cl: "clients_ok st" and ix: "index_ok st" and cn: "conns_ok st" by (simp_all add: wf_state_def)
  have perm: "distinct (map f (sort_key g xs)) = distinct (map f xs)" for f :: "'a \<Rightarrow> 'b" and g :: "'a \<Rightarrow> 'c::linorder" and xs
    by (metis mset_map mset_sort mset_eq_imp_distinct_iff)
  have "distinct (map (\<lambda>r. tn_id (tunnel_heap st ! r)) (dm_values (tunnels st)))"
    using cl index_ref [OF ix cl] by (intro dm_values_distinct) (auto simp: clients_ok_def)
  moreover have "distinct (map (\<lambda>r. cn_id (conn_heap st ! r)) (dm_values (live_conns st)))"
  proof (rule dm_values_distinct)
    show "dm_ok (live_conns st)" using cl by (simp add: clients_ok_def)
    fix i r assume "dm_get (live_conns st) i = Some r"
    with cn obtain t where "t < length (tunnel_heap st)" "dm_get (tn_conns (tunnel_heap st ! t)) i = Some r"
      unfolding conns_ok_def by blast
    from conn_ref [OF cn this] show "cn_id (conn_heap st ! r) = i" by simp
  qed
  moreover have "distinct (map (\<lambda>r. cl_id (client_heap st ! r)) (dm_values (clients st)))"
    using cl client_ref [OF cl] by (intro dm_values_distinct) (auto simp: clients_ok_def)
  ultimately show "distinct (map td_id (list_tunnels st))" "distinct (map cd_id (list_conns st))"
    "distinct (map cs_id (list_clients st))"
    by (simp_all add: list_tunnels_def list_conns_def list_clients_def perm tunnels_snapshot_def conns_snapshot_def
        clients_snapshot_def tunnel_dto_from_def conn_dto_from_def client_summary_from_def snapshot_def Let_def comp_def)
qed

text \<open>C38. The admin listings are complete, free of duplicates and ordered: in every consistent state they show exactly
  the entries that a lookup by id finds, tunnels by client and id, conns by client, tunnel and id, and clients by id.\<close>

theorem admin_listings_exact:
  assumes "wf_state st"
  shows "set (list_tunnels st) = {tunnel_dto_from st e |e i. tunnel st i = Some e} \<and>
    set (list_conns st) = {conn_dto_from e |e i. live_conn st i = Some e} \<and>
    set (list_clients st) = {client_summary_from st e |e i. client st i = Some e} \<and>
    distinct (map td_id (list_tunnels st)) \<and> distinct (map cd_id (list_conns st)) \<and> distinct (map cs_id (list_clients st)) \<and>
    sorted (map (\<lambda>t. (td_client_id t, td_id t)) (list_tunnels st)) \<and>
    sorted (map (\<lambda>c. (cd_client_id c, cd_tunnel_id c, cd_id c)) (list_conns st)) \<and>
    sorted (map cs_id (list_clients st))"
  using listing_ids_distinct [OF assms] snapshot_sets [OF assms]
  by (auto simp: list_tunnels_def list_conns_def list_clients_def)

theorem admin_listings_exact_witness:
  "set (list_tunnels demo_state) = {tunnel_dto_from demo_state e |e i. tunnel demo_state i = Some e}"
  using admin_listings_exact [OF reachable_wf [OF demo_reachable]] by simp

text \<open>The byte counts of the API are the traffic the tunnel carried.\<close>

lemma api_bytes:
  assumes "registry_reachable st log" "dm_get (tunnels st) i = Some t" "get_tunnel st i = Some (d, cs)"
  shows "(td_bytes_in d, td_bytes_out d) = logged t log"
proof -
  from index_ref [OF _ _ assms(2)] reachable_wf [OF assms(1)] have t: "t < length (tunnel_heap st)"
    by (simp add: wf_state_def)
  from assms(2,3) have "d = tunnel_dto_from st (tunnel_heap st ! t)" by (auto simp: get_tunnel_def tunnel_def)
  with bytes_reachable [OF assms(1) t] show ?thesis by (simp add: tunnel_bytes_def tunnel_dto_from_def Let_def)
qed

end
