(* ===== verification/Api_Json.thy ===== *)
theory Api_Json
  imports Admin "HOL-Library.Char_ord" "HOL-Library.List_Lexorder" "HOL-Library.Countable"
begin

text \<open>
  The JSON of the admin API: what the DTOs at the end of \<^verbatim>\<open>src/src/server/state.rs\<close> serialise to, the answers of
  \<^verbatim>\<open>src/src/server/admin.rs\<close> with their status, and how the row structs of \<^verbatim>\<open>src/src/ctl/mod.rs\<close> are read back.
  \<^verbatim>\<open>json\<close> has the shape of \<^verbatim>\<open>serde_json::Value\<close>; the text of a value, in both directions, is the library's, of which
  \<^verbatim>\<open>json_ok\<close> states the one law used: parsing what was written gives the value back, with the members of every object
  in the order of their keys, as its map keeps them.
\<close>

section \<open>Values\<close>

datatype json_number = PosInt u64 | NegInt "64 word" | Float "64 word"

datatype json =
  JNull
| JBool bool
| JNumber json_number
| JString string
| JArray "json list"
| JObject "(string \<times> json) list"

record json_lib =
  from_slice :: "bytes \<Rightarrow> string + json"
  to_vec :: "json \<Rightarrow> bytes"
  pretty :: "json \<Rightarrow> string"
  type_error :: "json \<Rightarrow> string \<Rightarrow> string"

primrec sort_keys :: "json \<Rightarrow> json" where
  "sort_keys JNull = JNull"
| "sort_keys (JBool b) = JBool b"
| "sort_keys (JNumber n) = JNumber n"
| "sort_keys (JString s) = JString s"
| "sort_keys (JArray vs) = JArray (map sort_keys vs)"
| "sort_keys (JObject kvs) = JObject (sort_key fst (map (map_prod id sort_keys) kvs))"

primrec distinct_keys :: "json \<Rightarrow> bool" where
  "distinct_keys JNull = True"
| "distinct_keys (JBool b) = True"
| "distinct_keys (JNumber n) = True"
| "distinct_keys (JString s) = True"
| "distinct_keys (JArray vs) = list_all id (map distinct_keys vs)"
| "distinct_keys (JObject kvs) = (distinct (map fst kvs) \<and> list_all snd (map (map_prod id distinct_keys) kvs))"

definition json_ok :: "json_lib \<Rightarrow> bool" where
  "json_ok lib \<longleftrightarrow> (\<forall>v. distinct_keys v \<longrightarrow> from_slice lib (to_vec lib v) = Inr (sort_keys v))"

section \<open>What the server serialises\<close>

definition num :: "u64 \<Rightarrow> json" where
  "num n = JNumber (PosInt n)"

definition usize :: "nat \<Rightarrow> json" where
  "usize n = num (word_of_nat n)"

definition server_info_json :: "server_info_dto \<Rightarrow> json" where
  "server_info_json s = JObject
     [(''version'', JString (si_version s)), (''listen_addr'', JString (si_listen_addr s)),
      (''started_at_ms'', num (si_started_at_ms s)), (''uptime_ms'', num (si_uptime_ms s)),
      (''client_count'', usize (si_client_count s)), (''tunnel_count'', usize (si_tunnel_count s)),
      (''active_conn_count'', usize (si_active_conn_count s))]"

text \<open>The members of a struct; a detail answer flattens those of its summary and adds the list.\<close>

definition client_summary_members :: "client_summary_dto \<Rightarrow> (string \<times> json) list" where
  "client_summary_members c =
     [(''id'', num (cs_id c)), (''remote'', JString (cs_remote c)), (''connected_at_ms'', num (cs_connected_at_ms c)),
      (''tunnel_count'', usize (cs_tunnel_count c)), (''active_conn_count'', num (cs_active_conn_count c)),
      (''total_conns'', num (cs_total_conns c)), (''bytes_in'', num (cs_bytes_in c)), (''bytes_out'', num (cs_bytes_out c))]"

definition tunnel_members :: "tunnel_dto \<Rightarrow> (string \<times> json) list" where
  "tunnel_members t =
     [(''id'', num (td_id t)), (''client_id'', num (td_client_id t)), (''direction'', JString (td_direction t)),
      (''kind'', JString (td_kind t)), (''spec'', JString (td_spec t)), (''opened_at_ms'', num (td_opened_at_ms t)),
      (''active_conn_count'', num (td_active_conn_count t)), (''total_conns'', num (td_total_conns t)),
      (''active_bytes_in'', num (td_active_bytes_in t)), (''active_bytes_out'', num (td_active_bytes_out t)),
      (''bytes_in'', num (td_bytes_in t)), (''bytes_out'', num (td_bytes_out t))]"

definition conn_json :: "conn_dto \<Rightarrow> json" where
  "conn_json c = JObject
     [(''id'', num (cd_id c)), (''tunnel_id'', num (cd_tunnel_id c)), (''client_id'', num (cd_client_id c)),
      (''opened_at_ms'', num (cd_opened_at_ms c)), (''peer'', case cd_peer c of None \<Rightarrow> JNull | Some p \<Rightarrow> JString p),
      (''bytes_in'', num (cd_bytes_in c)), (''bytes_out'', num (cd_bytes_out c))]"

definition client_detail_json :: "client_summary_dto \<Rightarrow> tunnel_dto list \<Rightarrow> json" where
  "client_detail_json summary ts =
     JObject (client_summary_members summary @ [(''tunnels'', JArray (map (\<lambda>t. JObject (tunnel_members t)) ts))])"

definition tunnel_detail_json :: "tunnel_dto \<Rightarrow> conn_dto list \<Rightarrow> json" where
  "tunnel_detail_json summary cs = JObject (tunnel_members summary @ [(''conns'', JArray (map conn_json cs))])"

definition history_json :: "history_entry \<Rightarrow> json" where
  "history_json h = JObject
     [(''client_id'', num (hs_client_id h)), (''remote'', JString (hs_remote h)), (''connected_at_ms'', num (hs_connected_at h)),
      (''disconnected_at_ms'', num (hs_disconnected_at h)), (''reason'', JString (hs_reason h)),
      (''bytes_in'', num (hs_bytes_in h)), (''bytes_out'', num (hs_bytes_out h)), (''total_conns'', num (hs_total_conns h))]"

text \<open>The status and the body of an answer.\<close>

definition response_status :: "api_response \<Rightarrow> nat" where
  "response_status r = (case r of NotFound \<Rightarrow> 404 | _ \<Rightarrow> 200)"

definition response_json :: "api_response \<Rightarrow> json" where
  "response_json r =
     (case r of
        ServerInfo s \<Rightarrow> server_info_json s
      | Clients cs \<Rightarrow> JArray (map (\<lambda>c. JObject (client_summary_members c)) cs)
      | ClientDetail c ts \<Rightarrow> client_detail_json c ts
      | Tunnels ts \<Rightarrow> JArray (map (\<lambda>t. JObject (tunnel_members t)) ts)
      | TunnelDetail t cs \<Rightarrow> tunnel_detail_json t cs
      | Conns cs \<Rightarrow> JArray (map conn_json cs)
      | Conn c \<Rightarrow> conn_json c
      | History hs \<Rightarrow> JArray (map history_json hs)
      | NotFound \<Rightarrow> JObject [(''error'', JString ''not found'')])"

section \<open>What the client reads\<close>

text \<open>The members a derived \<^verbatim>\<open>Deserialize\<close> looks at: those of an object by name, those of an array by position; with a
  flattened field only those of an object. Unknown members are ignored. The decoders below report the first faulty
  member in the order of the struct, with the library's message for a value of another type.\<close>

definition struct_members :: "json_lib \<Rightarrow> string \<Rightarrow> string list \<Rightarrow> json \<Rightarrow> string + (string \<Rightarrow> json option)" where
  "struct_members lib what names v =
     (case v of
        JObject kvs \<Rightarrow> Inr (map_of kvs)
      | JArray vs \<Rightarrow> (if length vs = length names then Inr (map_of (zip names vs)) else Inl (type_error lib v what))
      | _ \<Rightarrow> Inl (type_error lib v what))"

definition flat_members :: "json_lib \<Rightarrow> string \<Rightarrow> json \<Rightarrow> string + (string \<Rightarrow> json option)" where
  "flat_members lib what v = (case v of JObject kvs \<Rightarrow> Inr (map_of kvs) | _ \<Rightarrow> Inl (type_error lib v what))"

definition required :: "(string \<Rightarrow> json option) \<Rightarrow> string \<Rightarrow> string + json" where
  "required get name = ok_or (''missing field `'' @ name @ ''`'') (get name)"

definition u64_field :: "json_lib \<Rightarrow> (string \<Rightarrow> json option) \<Rightarrow> string \<Rightarrow> string + u64" where
  "u64_field lib get name =
     and_then (required get name) (\<lambda>v. case v of JNumber (PosInt n) \<Rightarrow> Inr n | _ \<Rightarrow> Inl (type_error lib v ''u64''))"

definition usize_field :: "json_lib \<Rightarrow> (string \<Rightarrow> json option) \<Rightarrow> string \<Rightarrow> string + nat" where
  "usize_field lib get name =
     and_then (required get name) (\<lambda>v. case v of JNumber (PosInt n) \<Rightarrow> Inr (unat n) | _ \<Rightarrow> Inl (type_error lib v ''usize''))"

definition string_field :: "json_lib \<Rightarrow> (string \<Rightarrow> json option) \<Rightarrow> string \<Rightarrow> string + string" where
  "string_field lib get name =
     and_then (required get name) (\<lambda>v. case v of JString s \<Rightarrow> Inr s | _ \<Rightarrow> Inl (type_error lib v ''a string''))"

definition optional_string_field :: "json_lib \<Rightarrow> (string \<Rightarrow> json option) \<Rightarrow> string \<Rightarrow> string + string option" where
  "optional_string_field lib get name =
     (case get name of
        None \<Rightarrow> Inr None
      | Some JNull \<Rightarrow> Inr None
      | Some (JString s) \<Rightarrow> Inr (Some s)
      | Some v \<Rightarrow> Inl (type_error lib v ''option''))"

fun dec_all :: "(json \<Rightarrow> string + 'd) \<Rightarrow> json list \<Rightarrow> string + 'd list" where
  "dec_all dec [] = Inr []"
| "dec_all dec (v # vs) = and_then (dec v) (\<lambda>d. and_then (dec_all dec vs) (\<lambda>ds. Inr (d # ds)))"

definition dec_vec :: "json_lib \<Rightarrow> (json \<Rightarrow> string + 'd) \<Rightarrow> json \<Rightarrow> string + 'd list" where
  "dec_vec lib dec v = (case v of JArray vs \<Rightarrow> dec_all dec vs | _ \<Rightarrow> Inl (type_error lib v ''a sequence''))"

definition vec_field :: "json_lib \<Rightarrow> (json \<Rightarrow> string + 'd) \<Rightarrow> (string \<Rightarrow> json option) \<Rightarrow> string \<Rightarrow> string + 'd list" where
  "vec_field lib dec get name = and_then (required get name) (dec_vec lib dec)"

text \<open>The rows; those of tunnels leave out the bytes of the conns that are still open.\<close>

record tunnel_row =
  tr_id :: u64
  tr_client_id :: u64
  tr_direction :: string
  tr_kind :: string
  tr_spec :: string
  tr_opened_at_ms :: u64
  tr_active_conn_count :: u64
  tr_total_conns :: u64
  tr_bytes_in :: u64
  tr_bytes_out :: u64

definition dec_server :: "json_lib \<Rightarrow> json \<Rightarrow> string + server_info_dto" where
  "dec_server lib v =
     and_then (struct_members lib ''struct ServerInfo'' [''version'', ''listen_addr'', ''started_at_ms'', ''uptime_ms'',
       ''client_count'', ''tunnel_count'', ''active_conn_count''] v) (\<lambda>get.
     and_then (string_field lib get ''version'') (\<lambda>version.
     and_then (string_field lib get ''listen_addr'') (\<lambda>listen.
     and_then (u64_field lib get ''started_at_ms'') (\<lambda>started.
     and_then (u64_field lib get ''uptime_ms'') (\<lambda>uptime.
     and_then (usize_field lib get ''client_count'') (\<lambda>clients.
     and_then (usize_field lib get ''tunnel_count'') (\<lambda>tunnels.
     and_then (usize_field lib get ''active_conn_count'') (\<lambda>conns.
     Inr \<lparr> si_version = version, si_listen_addr = listen, si_started_at_ms = started, si_uptime_ms = uptime,
       si_client_count = clients, si_tunnel_count = tunnels, si_active_conn_count = conns \<rparr>))))))))"

definition client_summary_fields :: "json_lib \<Rightarrow> (string \<Rightarrow> json option) \<Rightarrow> string + client_summary_dto" where
  "client_summary_fields lib get =
     and_then (u64_field lib get ''id'') (\<lambda>i.
     and_then (string_field lib get ''remote'') (\<lambda>remote.
     and_then (u64_field lib get ''connected_at_ms'') (\<lambda>connected.
     and_then (usize_field lib get ''tunnel_count'') (\<lambda>tunnels.
     and_then (u64_field lib get ''active_conn_count'') (\<lambda>active.
     and_then (u64_field lib get ''total_conns'') (\<lambda>total.
     and_then (u64_field lib get ''bytes_in'') (\<lambda>received.
     and_then (u64_field lib get ''bytes_out'') (\<lambda>sent.
     Inr \<lparr> cs_id = i, cs_remote = remote, cs_connected_at_ms = connected, cs_tunnel_count = tunnels,
       cs_active_conn_count = active, cs_total_conns = total, cs_bytes_in = received, cs_bytes_out = sent \<rparr>))))))))"

definition tunnel_row_fields :: "json_lib \<Rightarrow> (string \<Rightarrow> json option) \<Rightarrow> string + tunnel_row" where
  "tunnel_row_fields lib get =
     and_then (u64_field lib get ''id'') (\<lambda>i.
     and_then (u64_field lib get ''client_id'') (\<lambda>client.
     and_then (string_field lib get ''direction'') (\<lambda>direction.
     and_then (string_field lib get ''kind'') (\<lambda>kind.
     and_then (string_field lib get ''spec'') (\<lambda>spec.
     and_then (u64_field lib get ''opened_at_ms'') (\<lambda>opened.
     and_then (u64_field lib get ''active_conn_count'') (\<lambda>active.
     and_then (u64_field lib get ''total_conns'') (\<lambda>total.
     and_then (u64_field lib get ''bytes_in'') (\<lambda>received.
     and_then (u64_field lib get ''bytes_out'') (\<lambda>sent.
     Inr \<lparr> tr_id = i, tr_client_id = client, tr_direction = direction, tr_kind = kind, tr_spec = spec,
       tr_opened_at_ms = opened, tr_active_conn_count = active, tr_total_conns = total, tr_bytes_in = received,
       tr_bytes_out = sent \<rparr>))))))))))"

definition dec_client :: "json_lib \<Rightarrow> json \<Rightarrow> string + client_summary_dto" where
  "dec_client lib v = and_then (struct_members lib ''struct ClientSummary'' [''id'', ''remote'', ''connected_at_ms'',
     ''tunnel_count'', ''active_conn_count'', ''total_conns'', ''bytes_in'', ''bytes_out''] v) (client_summary_fields lib)"

definition dec_tunnel :: "json_lib \<Rightarrow> json \<Rightarrow> string + tunnel_row" where
  "dec_tunnel lib v = and_then (struct_members lib ''struct TunnelRow'' [''id'', ''client_id'', ''direction'', ''kind'', ''spec'',
     ''opened_at_ms'', ''active_conn_count'', ''total_conns'', ''bytes_in'', ''bytes_out''] v) (tunnel_row_fields lib)"

definition dec_conn :: "json_lib \<Rightarrow> json \<Rightarrow> string + conn_dto" where
  "dec_conn lib v =
     and_then (struct_members lib ''struct ConnRow'' [''id'', ''tunnel_id'', ''client_id'', ''opened_at_ms'', ''peer'', ''bytes_in'',
       ''bytes_out''] v) (\<lambda>get.
     and_then (u64_field lib get ''id'') (\<lambda>i.
     and_then (u64_field lib get ''tunnel_id'') (\<lambda>tunnel.
     and_then (u64_field lib get ''client_id'') (\<lambda>client.
     and_then (u64_field lib get ''opened_at_ms'') (\<lambda>opened.
     and_then (optional_string_field lib get ''peer'') (\<lambda>peer.
     and_then (u64_field lib get ''bytes_in'') (\<lambda>received.
     and_then (u64_field lib get ''bytes_out'') (\<lambda>sent.
     Inr \<lparr> cd_id = i, cd_tunnel_id = tunnel, cd_client_id = client, cd_opened_at_ms = opened, cd_peer = peer,
       cd_bytes_in = received, cd_bytes_out = sent \<rparr>))))))))"

definition dec_history_row :: "json_lib \<Rightarrow> json \<Rightarrow> string + history_entry" where
  "dec_history_row lib v =
     and_then (struct_members lib ''struct HistoryRow'' [''client_id'', ''remote'', ''connected_at_ms'', ''disconnected_at_ms'',
       ''reason'', ''bytes_in'', ''bytes_out'', ''total_conns''] v) (\<lambda>get.
     and_then (u64_field lib get ''client_id'') (\<lambda>client.
     and_then (string_field lib get ''remote'') (\<lambda>remote.
     and_then (u64_field lib get ''connected_at_ms'') (\<lambda>connected.
     and_then (u64_field lib get ''disconnected_at_ms'') (\<lambda>disconnected.
     and_then (string_field lib get ''reason'') (\<lambda>reason.
     and_then (u64_field lib get ''bytes_in'') (\<lambda>received.
     and_then (u64_field lib get ''bytes_out'') (\<lambda>sent.
     and_then (u64_field lib get ''total_conns'') (\<lambda>total.
     Inr \<lparr> hs_client_id = client, hs_remote = remote, hs_connected_at = connected, hs_disconnected_at = disconnected,
       hs_reason = reason, hs_bytes_in = received, hs_bytes_out = sent, hs_total_conns = total \<rparr>)))))))))"

definition dec_client_detail :: "json_lib \<Rightarrow> json \<Rightarrow> string + client_summary_dto \<times> tunnel_row list" where
  "dec_client_detail lib v =
     and_then (flat_members lib ''struct ClientDetail'' v) (\<lambda>get.
     and_then (vec_field lib (dec_tunnel lib) get ''tunnels'') (\<lambda>ts.
     and_then (client_summary_fields lib get) (\<lambda>summary. Inr (summary, ts))))"

definition dec_tunnel_detail :: "json_lib \<Rightarrow> json \<Rightarrow> string + tunnel_row \<times> conn_dto list" where
  "dec_tunnel_detail lib v =
     and_then (flat_members lib ''struct TunnelDetail'' v) (\<lambda>get.
     and_then (vec_field lib (dec_conn lib) get ''conns'') (\<lambda>cs.
     and_then (tunnel_row_fields lib get) (\<lambda>summary. Inr (summary, cs))))"

section \<open>Reading back what was written\<close>

lemma sort_keys_members:
  assumes "distinct (map fst kvs)"
  shows "map_of (sort_key fst (map (map_prod id sort_keys) kvs)) k = map_option sort_keys (map_of kvs k)"
proof -
  let ?m = "map (map_prod id sort_keys) kvs"
  have fst: "map fst ?m = map fst kvs" by (simp add: comp_def)
  have "distinct (map fst (sort_key fst ?m))"
    using assms fst by (metis mset_map mset_sort mset_eq_imp_distinct_iff)
  with assms fst have "map_of (sort_key fst ?m) = map_of ?m"
    by (subst map_of_inject_set) simp_all
  moreover have "map_of ?m k = map_option sort_keys (map_of kvs k)"
    by (induction kvs) auto
  ultimately show ?thesis by simp
qed

lemma struct_members_sorted:
  assumes "distinct (map fst kvs)"
  shows "struct_members lib what names (sort_keys (JObject kvs)) = Inr (\<lambda>k. map_option sort_keys (map_of kvs k))"
    and "flat_members lib what (sort_keys (JObject kvs)) = Inr (\<lambda>k. map_option sort_keys (map_of kvs k))"
  using assms by (simp_all add: struct_members_def flat_members_def sort_keys_members fun_eq_iff)

lemmas json_field_defs = num_def usize_def u64_field_def usize_field_def string_field_def optional_string_field_def required_def
  ok_or_def

definition row_of :: "tunnel_dto \<Rightarrow> tunnel_row" where
  "row_of t = \<lparr> tr_id = td_id t, tr_client_id = td_client_id t, tr_direction = td_direction t, tr_kind = td_kind t,
     tr_spec = td_spec t, tr_opened_at_ms = td_opened_at_ms t, tr_active_conn_count = td_active_conn_count t,
     tr_total_conns = td_total_conns t, tr_bytes_in = td_bytes_in t, tr_bytes_out = td_bytes_out t \<rparr>"

lemma dec_all_map: "(\<And>x. x \<in> set xs \<Longrightarrow> dec (f x) = Inr (g x)) \<Longrightarrow> dec_all dec (map f xs) = Inr (map g xs)"
  by (induction xs) simp_all

lemma members_distinct:
  "distinct (map fst (client_summary_members c))" "distinct (map fst (tunnel_members t))"
  by (simp_all add: client_summary_members_def tunnel_members_def)

lemma dec_server_sorted:
  assumes "si_client_count s < 2 ^ 64" "si_tunnel_count s < 2 ^ 64" "si_active_conn_count s < 2 ^ 64"
  shows "dec_server lib (sort_keys (server_info_json s)) = Inr s"
  using assms unfolding server_info_json_def dec_server_def
  by (subst struct_members_sorted) (simp_all add: json_field_defs unsigned_of_nat take_bit_nat_eq_self)

lemma client_summary_sorted:
  assumes "\<And>k. k \<noteq> ''tunnels'' \<Longrightarrow> get k = map_option sort_keys (map_of (client_summary_members c) k)"
    and "cs_tunnel_count c < 2 ^ 64"
  shows "client_summary_fields lib get = Inr c"
  using assms(2) by (simp add: client_summary_fields_def client_summary_members_def assms(1) json_field_defs unsigned_of_nat take_bit_nat_eq_self)

lemma tunnel_row_sorted:
  assumes "\<And>k. k \<noteq> ''conns'' \<Longrightarrow> get k = map_option sort_keys (map_of (tunnel_members t) k)"
  shows "tunnel_row_fields lib get = Inr (row_of t)"
  by (simp add: tunnel_row_fields_def tunnel_members_def assms json_field_defs row_of_def)

lemma dec_client_sorted:
  "cs_tunnel_count c < 2 ^ 64 \<Longrightarrow> dec_client lib (sort_keys (JObject (client_summary_members c))) = Inr c"
  unfolding dec_client_def struct_members_sorted [OF members_distinct(1)] by (simp add: client_summary_sorted)

lemma dec_tunnel_sorted: "dec_tunnel lib (sort_keys (JObject (tunnel_members t))) = Inr (row_of t)"
  unfolding dec_tunnel_def struct_members_sorted [OF members_distinct(2)] by (simp add: tunnel_row_sorted)

lemma dec_conn_sorted: "dec_conn lib (sort_keys (conn_json c)) = Inr c"
  unfolding conn_json_def dec_conn_def
  by (subst struct_members_sorted) (simp_all add: json_field_defs split: option.split)

lemma dec_history_row_sorted: "dec_history_row lib (sort_keys (history_json h)) = Inr h"
  unfolding history_json_def dec_history_row_def
  by (subst struct_members_sorted) (simp_all add: json_field_defs)

lemma dec_client_detail_sorted:
  assumes "cs_tunnel_count c < 2 ^ 64"
  shows "dec_client_detail lib (sort_keys (client_detail_json c ts)) = Inr (c, map row_of ts)"
proof -
  let ?kvs = "client_summary_members c @ [(''tunnels'', JArray (map (\<lambda>t. JObject (tunnel_members t)) ts))]"
  have d: "distinct (map fst ?kvs)" by (simp add: client_summary_members_def)
  have "client_summary_fields lib (\<lambda>k. map_option sort_keys (map_of ?kvs k)) = Inr c"
    using assms by (intro client_summary_sorted) (simp_all add: map_add_def split: option.split)
  moreover have "map_of ?kvs ''tunnels'' = Some (JArray (map (\<lambda>t. JObject (tunnel_members t)) ts))"
    by (simp add: client_summary_members_def)
  moreover have "dec_all (dec_tunnel lib) (map (\<lambda>t. sort_keys (JObject (tunnel_members t))) ts) = Inr (map row_of ts)"
    by (rule dec_all_map) (rule dec_tunnel_sorted)
  ultimately show ?thesis
    unfolding dec_client_detail_def client_detail_json_def struct_members_sorted(2) [OF d]
    by (simp add: vec_field_def required_def ok_or_def dec_vec_def comp_def del: map_of_append)
qed

lemma dec_tunnel_detail_sorted:
  "dec_tunnel_detail lib (sort_keys (tunnel_detail_json t cs)) = Inr (row_of t, cs)"
proof -
  let ?kvs = "tunnel_members t @ [(''conns'', JArray (map conn_json cs))]"
  have d: "distinct (map fst ?kvs)" by (simp add: tunnel_members_def)
  have "tunnel_row_fields lib (\<lambda>k. map_option sort_keys (map_of ?kvs k)) = Inr (row_of t)"
    by (intro tunnel_row_sorted) (simp add: map_add_def split: option.split)
  moreover have "map_of ?kvs ''conns'' = Some (JArray (map conn_json cs))" by (simp add: tunnel_members_def)
  moreover have "dec_all (dec_conn lib) (map (\<lambda>c. sort_keys (conn_json c)) cs) = Inr (map (\<lambda>c. c) cs)"
    by (rule dec_all_map) (rule dec_conn_sorted)
  ultimately show ?thesis
    unfolding dec_tunnel_detail_def tunnel_detail_json_def struct_members_sorted(2) [OF d]
    by (simp add: vec_field_def required_def ok_or_def dec_vec_def comp_def del: map_of_append)
qed

text \<open>Every answer is a value the law covers.\<close>

lemma response_distinct_keys: "distinct_keys (response_json r)"
  by (cases r)
    (simp_all add: response_json_def server_info_json_def client_detail_json_def tunnel_detail_json_def conn_json_def
      history_json_def client_summary_members_def tunnel_members_def num_def usize_def list_all_iff split: option.split)

text \<open>A library that satisfies the law: JSON values are countable, so that a text can stand for each of them.\<close>

instance json_number :: countable
  by countable_datatype

instance json :: countable
  by countable_datatype

definition demo_json :: json_lib where
  "demo_json = \<lparr> from_slice = (\<lambda>bs. Inr (sort_keys (from_nat (length bs)))), to_vec = (\<lambda>v. replicate (to_nat v) 0),
     pretty = (\<lambda>_. ''{}''), type_error = (\<lambda>_ what. ''invalid type: expected '' @ what) \<rparr>"

lemma demo_json_ok: "json_ok demo_json"
  by (simp add: json_ok_def demo_json_def)

end
