(* ===== verification/Ctl.thy ===== *)
theory Ctl
  imports Api_Json
begin

text \<open>
  \<^verbatim>\<open>rusnel ctl\<close> (\<^verbatim>\<open>src/src/ctl/mod.rs\<close> and \<^verbatim>\<open>run_ctl\<close> of \<^verbatim>\<open>src/src/main.rs\<close>): the path each
  subcommand asks for, the handling of the answer and the tables; and the route table of \<^verbatim>\<open>src/src/server/admin.rs\<close>
  these paths meet. HTTP over the socket is the libraries': \<^verbatim>\<open>fetch\<close> gives the status and the body of an answer. The last
  theorem joins the two ends: what a command prints is the table of what the server's registry holds.
\<close>

section \<open>Tables\<close>

record table =
  headers :: "string list"
  rows :: "string list list"

definition table_new :: "string list \<Rightarrow> table" where
  "table_new hs = \<lparr> headers = hs, rows = [] \<rparr>"

definition table_row :: "string list \<Rightarrow> table \<Rightarrow> table" where
  "table_row cells t = t \<lparr> rows := rows t @ [cells] \<rparr>"

text \<open>Padding counts characters, while widths are lengths in bytes.\<close>

definition char_count :: "string \<Rightarrow> nat" where
  "char_count s = length (filter (\<lambda>c. \<not> is_cont (word_of_nat (of_char c))) s)"

definition pad :: "nat \<Rightarrow> string \<Rightarrow> string" where
  "pad w s = s @ replicate (w - char_count s) (CHR '' '')"

fun push_cells :: "string list \<Rightarrow> nat list \<Rightarrow> string" where
  "push_cells [] ws = []"
| "push_cells [c] ws = c"
| "push_cells (c # cs) ws = pad (hd ws) c @ ''  '' @ push_cells cs (tl ws)"

definition push_row :: "string list \<Rightarrow> nat list \<Rightarrow> string" where
  "push_row cells widths = push_cells cells widths @ [CHR 0x0A]"

fun widen :: "nat list \<Rightarrow> string list \<Rightarrow> nat list" where
  "widen (w # ws) (c # cs) = (if length c > w then length c else w) # widen ws cs"
| "widen ws [] = ws"
| "widen [] cs = []"

definition widths :: "table \<Rightarrow> nat list" where
  "widths t = foldl widen (map length (headers t)) (rows t)"

definition render :: "table \<Rightarrow> string" where
  "render t = concat (map (\<lambda>r. push_row r (widths t)) (headers t # rows t))"

section \<open>Renderers\<close>

datatype format = JsonFormat | TableFormat

definition fields :: "(string \<times> string) list \<Rightarrow> string" where
  "fields kvs = join [CHR 0x0A] (map (\<lambda>(k, v). pad 18 k @ v) kvs)"

definition render_with :: "json_lib \<Rightarrow> (json \<Rightarrow> string + 'd) \<Rightarrow> ('d \<Rightarrow> string) \<Rightarrow> json \<Rightarrow> format \<Rightarrow> string + string" where
  "render_with lib dec body payload fmt =
     (case fmt of
        JsonFormat \<Rightarrow> Inr (pretty lib payload)
      | TableFormat \<Rightarrow> and_then (dec payload) (\<lambda>d. Inr (body d)))"

definition server_text :: "server_info_dto \<Rightarrow> string" where
  "server_text s = fields
     [(''version'', si_version s), (''listen'', si_listen_addr s), (''started-at-ms'', show_word (si_started_at_ms s)),
      (''uptime-ms'', show_word (si_uptime_ms s)), (''clients'', show_nat (si_client_count s)),
      (''tunnels'', show_nat (si_tunnel_count s)), (''active-conns'', show_nat (si_active_conn_count s))]"

definition render_server :: "json_lib \<Rightarrow> json \<Rightarrow> format \<Rightarrow> string + string" where
  "render_server lib = render_with lib (dec_server lib) server_text"

definition client_cells :: "client_summary_dto \<Rightarrow> string list" where
  "client_cells r =
     [show_word (cs_id r), cs_remote r, show_word (cs_connected_at_ms r), show_nat (cs_tunnel_count r),
      show_word (cs_active_conn_count r), show_word (cs_total_conns r), show_word (cs_bytes_in r), show_word (cs_bytes_out r)]"

definition clients_text :: "client_summary_dto list \<Rightarrow> string" where
  "clients_text rs = render (fold (\<lambda>r. table_row (client_cells r)) rs
     (table_new [''ID'', ''REMOTE'', ''CONNECTED-MS'', ''TUNNELS'', ''ACTIVE'', ''TOTAL'', ''IN'', ''OUT'']))"

definition render_clients :: "json_lib \<Rightarrow> json \<Rightarrow> format \<Rightarrow> string + string" where
  "render_clients lib = render_with lib (dec_vec lib (dec_client lib)) clients_text"

definition conn_cells :: "conn_dto \<Rightarrow> string list" where
  "conn_cells r =
     [show_word (cd_id r), show_word (cd_tunnel_id r), show_word (cd_client_id r), show_word (cd_opened_at_ms r),
      (case cd_peer r of Some p \<Rightarrow> p | None \<Rightarrow> ''-''), show_word (cd_bytes_in r), show_word (cd_bytes_out r)]"

definition render_conn_rows :: "conn_dto list \<Rightarrow> string" where
  "render_conn_rows rs = render (fold (\<lambda>r. table_row (conn_cells r)) rs
     (table_new [''ID'', ''TUNNEL'', ''CLIENT'', ''OPENED-MS'', ''PEER'', ''IN'', ''OUT'']))"

definition tunnel_cells :: "tunnel_row \<Rightarrow> string list" where
  "tunnel_cells r =
     [show_word (tr_id r), show_word (tr_client_id r), tr_direction r, tr_kind r, tr_spec r, show_word (tr_opened_at_ms r),
      show_word (tr_active_conn_count r), show_word (tr_total_conns r), show_word (tr_bytes_in r), show_word (tr_bytes_out r)]"

definition render_tunnel_rows :: "tunnel_row list \<Rightarrow> string" where
  "render_tunnel_rows rs = render (fold (\<lambda>r. table_row (tunnel_cells r)) rs
     (table_new [''ID'', ''CLIENT'', ''DIR'', ''KIND'', ''SPEC'', ''OPENED-MS'', ''ACTIVE'', ''TOTAL'', ''IN'', ''OUT'']))"

definition client_detail_text :: "client_summary_dto \<Rightarrow> tunnel_row list \<Rightarrow> string" where
  "client_detail_text s ts = fields
     [(''id'', show_word (cs_id s)), (''remote'', cs_remote s), (''connected-ms'', show_word (cs_connected_at_ms s)),
      (''tunnels'', show_nat (cs_tunnel_count s)), (''active-conns'', show_word (cs_active_conn_count s)),
      (''total-conns'', show_word (cs_total_conns s)), (''bytes-in'', show_word (cs_bytes_in s)),
      (''bytes-out'', show_word (cs_bytes_out s))] @ [CHR 0x0A] @
     (if ts = [] then [] else [CHR 0x0A] @ render_tunnel_rows ts)"

definition render_client_detail :: "json_lib \<Rightarrow> json \<Rightarrow> format \<Rightarrow> string + string" where
  "render_client_detail lib = render_with lib (dec_client_detail lib) (\<lambda>(s, ts). client_detail_text s ts)"

definition tunnel_detail_text :: "tunnel_row \<Rightarrow> conn_dto list \<Rightarrow> string" where
  "tunnel_detail_text s cs = fields
     [(''id'', show_word (tr_id s)), (''client'', show_word (tr_client_id s)), (''direction'', tr_direction s),
      (''kind'', tr_kind s), (''spec'', tr_spec s), (''opened-ms'', show_word (tr_opened_at_ms s)),
      (''active-conns'', show_word (tr_active_conn_count s)), (''total-conns'', show_word (tr_total_conns s)),
      (''bytes-in'', show_word (tr_bytes_in s)), (''bytes-out'', show_word (tr_bytes_out s))] @ [CHR 0x0A] @
     (if cs = [] then [] else [CHR 0x0A] @ render_conn_rows cs)"

definition render_tunnel_detail :: "json_lib \<Rightarrow> json \<Rightarrow> format \<Rightarrow> string + string" where
  "render_tunnel_detail lib = render_with lib (dec_tunnel_detail lib) (\<lambda>(s, cs). tunnel_detail_text s cs)"

definition render_conns :: "json_lib \<Rightarrow> json \<Rightarrow> format \<Rightarrow> string + string" where
  "render_conns lib = render_with lib (dec_vec lib (dec_conn lib)) render_conn_rows"

definition render_tunnels :: "json_lib \<Rightarrow> json \<Rightarrow> format \<Rightarrow> string + string" where
  "render_tunnels lib = render_with lib (dec_vec lib (dec_tunnel lib)) render_tunnel_rows"

definition history_cells :: "history_entry \<Rightarrow> string list" where
  "history_cells r =
     [show_word (hs_client_id r), hs_remote r, show_word (hs_connected_at r), show_word (hs_disconnected_at r),
      show_word (hs_total_conns r), show_word (hs_bytes_in r), show_word (hs_bytes_out r), hs_reason r]"

definition history_text :: "history_entry list \<Rightarrow> string" where
  "history_text rs = render (fold (\<lambda>r. table_row (history_cells r)) rs
     (table_new [''CLIENT'', ''REMOTE'', ''CONNECTED-MS'', ''DISCONNECTED-MS'', ''SESSIONS'', ''IN'', ''OUT'', ''REASON'']))"

definition render_history :: "json_lib \<Rightarrow> json \<Rightarrow> format \<Rightarrow> string + string" where
  "render_history lib = render_with lib (dec_vec lib (dec_history_row lib)) history_text"

section \<open>Commands\<close>

datatype ctl_action =
  CtlServer
| CtlClients
| CtlClient u64
| CtlClientConns u64
| CtlTunnels
| CtlTunnel u64
| CtlTunnelConns u64
| CtlConns
| CtlHistory "u64 option"

definition ctl_path :: "ctl_action \<Rightarrow> string" where
  "ctl_path a =
     (case a of
        CtlServer \<Rightarrow> ''/api/v1/server''
      | CtlClients \<Rightarrow> ''/api/v1/clients''
      | CtlClient i \<Rightarrow> ''/api/v1/clients/'' @ show_word i
      | CtlClientConns i \<Rightarrow> ''/api/v1/clients/'' @ show_word i @ ''/conns''
      | CtlTunnels \<Rightarrow> ''/api/v1/tunnels''
      | CtlTunnel i \<Rightarrow> ''/api/v1/tunnels/'' @ show_word i
      | CtlTunnelConns i \<Rightarrow> ''/api/v1/tunnels/'' @ show_word i @ ''/conns''
      | CtlConns \<Rightarrow> ''/api/v1/conns''
      | CtlHistory None \<Rightarrow> ''/api/v1/history''
      | CtlHistory (Some n) \<Rightarrow> ''/api/v1/history?limit='' @ show_word n)"

definition ctl_render :: "json_lib \<Rightarrow> ctl_action \<Rightarrow> json \<Rightarrow> format \<Rightarrow> string + string" where
  "ctl_render lib a =
     (case a of
        CtlServer \<Rightarrow> render_server lib
      | CtlClients \<Rightarrow> render_clients lib
      | CtlClient _ \<Rightarrow> render_client_detail lib
      | CtlClientConns _ \<Rightarrow> render_conns lib
      | CtlTunnels \<Rightarrow> render_tunnels lib
      | CtlTunnel _ \<Rightarrow> render_tunnel_detail lib
      | CtlTunnelConns _ \<Rightarrow> render_conns lib
      | CtlConns \<Rightarrow> render_conns lib
      | CtlHistory _ \<Rightarrow> render_history lib)"

text \<open>\<^verbatim>\<open>ctl::get\<close>; \<^term>\<open>status_text\<close> prints a status code with its reason.\<close>

definition ctl_get ::
  "(string \<Rightarrow> string + nat \<times> bytes) \<Rightarrow> (nat \<Rightarrow> string) \<Rightarrow> json_lib \<Rightarrow> string \<Rightarrow> string + json" where
  "ctl_get fetch status_text lib path =
     and_then (fetch path) (\<lambda>(status, body).
     if \<not> (200 \<le> status \<and> status < 300)
     then Inl (''admin API returned '' @ status_text status @ '': '' @ from_utf8_lossy body)
     else map_err (\<lambda>e. ''parsing JSON response for GET '' @ path @ '': '' @ e) (from_slice lib body))"

definition end_line :: "string \<Rightarrow> string" where
  "end_line output = (if output \<noteq> [] \<and> last output = CHR 0x0A then output else output @ [CHR 0x0A])"

definition run_ctl ::
  "(string \<Rightarrow> string + nat \<times> bytes) \<Rightarrow> (nat \<Rightarrow> string) \<Rightarrow> json_lib \<Rightarrow> bool \<Rightarrow> ctl_action \<Rightarrow> string + string" where
  "run_ctl fetch status_text lib json action =
     (let fmt = (if json then JsonFormat else TableFormat) in
      and_then (ctl_get fetch status_text lib (ctl_path action)) (\<lambda>payload.
      and_then (ctl_render lib action payload fmt) (\<lambda>output.
      Inr (end_line output))))"

definition flatten_error :: "string list \<Rightarrow> string" where
  "flatten_error chain = join '': '' chain"

section \<open>The routes of the server\<close>

text \<open>The route table: a pattern, the handler's extractor and the request it stands for.\<close>

datatype handler =
  Plain api_request
| WithId "u64 \<Rightarrow> api_request"
| WithLimit "nat option \<Rightarrow> api_request"

definition routes :: "(string \<times> handler) list" where
  "routes =
     [(''/api/v1/server'', Plain GetServer),
      (''/api/v1/clients'', Plain ListClients),
      (''/api/v1/clients/:id'', WithId GetClient),
      (''/api/v1/clients/:id/tunnels'', WithId ListClientTunnels),
      (''/api/v1/clients/:id/conns'', WithId ListClientConns),
      (''/api/v1/tunnels'', Plain ListTunnels),
      (''/api/v1/tunnels/:id'', WithId GetTunnel),
      (''/api/v1/tunnels/:id/conns'', WithId ListTunnelConns),
      (''/api/v1/conns'', Plain ListConns),
      (''/api/v1/conns/:id'', WithId GetConn),
      (''/api/v1/history'', WithLimit ListHistory)]"

text \<open>What the router does with a table: \<^term>\<open>matches\<close> gives the captures of a pattern on a path, and the
  extractors read a capture and a query string; \<^term>\<open>refuse\<close> is the framework's own answer, status and body, to a
  request that no route takes or whose extractor fails.\<close>

record web_lib =
  matches :: "string \<Rightarrow> string \<Rightarrow> string list option"
  extract_id :: "string \<Rightarrow> u64 option"
  extract_limit :: "string \<Rightarrow> nat option option"
  refuse :: "string \<Rightarrow> nat \<times> bytes"

definition dispatch_route :: "web_lib \<Rightarrow> handler \<Rightarrow> string list \<Rightarrow> string \<Rightarrow> api_request option" where
  "dispatch_route web h caps query =
     (case h of
        Plain r \<Rightarrow> Some r
      | WithId f \<Rightarrow> (case caps of [c] \<Rightarrow> map_option f (extract_id web c) | _ \<Rightarrow> None)
      | WithLimit f \<Rightarrow> map_option f (extract_limit web query))"

definition split_query :: "string \<Rightarrow> string \<times> string" where
  "split_query uri = (case split_once (CHR ''?'') uri of Some (p, q) \<Rightarrow> (p, q) | None \<Rightarrow> (uri, []))"

definition route :: "web_lib \<Rightarrow> string \<Rightarrow> api_request option" where
  "route web uri =
     (case split_query uri of (path, query) \<Rightarrow>
      case List.find (\<lambda>(p, _). matches web p path \<noteq> None) routes of
        None \<Rightarrow> None
      | Some (p, h) \<Rightarrow> dispatch_route web h (the (matches web p path)) query)"

definition serve :: "web_lib \<Rightarrow> json_lib \<Rightarrow> string \<Rightarrow> nat \<Rightarrow> server_state \<Rightarrow> string \<Rightarrow> nat \<times> bytes" where
  "serve web lib version now st uri =
     (case route web uri of
        None \<Rightarrow> refuse web uri
      | Some req \<Rightarrow>
          let r = router version now st req in (response_status r, to_vec lib (response_json r)))"

section \<open>Columns line up\<close>

lemma char_count_append [simp]: "char_count (s @ t) = char_count s + char_count t"
  by (simp add: char_count_def)

lemma char_count_le: "char_count s \<le> length s"
  by (simp add: char_count_def)

lemma char_count_spaces [simp]: "char_count (replicate n (CHR '' '')) = n"
  by (simp add: char_count_def is_cont_def)

lemma char_count_pad: "char_count s \<le> w \<Longrightarrow> char_count (pad w s) = w"
  by (simp add: pad_def)

lemma push_cells_column:
  assumes "length ws = length cells" "\<And>j. j < length cells \<Longrightarrow> char_count (cells ! j) \<le> ws ! j" "i < length cells"
  shows "\<exists>pre post. push_cells cells ws = pre @ cells ! i @ post \<and> char_count pre = (\<Sum>j<i. ws ! j + 2)"
  using assms
proof (induction cells ws arbitrary: i rule: push_cells.induct)
  case (3 c d cs ws)
  then obtain w vs where ws: "ws = w # vs" by (cases ws) auto
  show ?case
  proof (cases i)
    case 0
    show ?thesis by (rule exI [of _ "[]"]) (simp add: 0 ws pad_def char_count_def)
  next
    case (Suc k)
    have "char_count ((d # cs) ! j) \<le> tl ws ! j" if "j < length (d # cs)" for j
      using "3.prems"(2) [of "Suc j"] that by (simp add: ws)
    with "3.IH" [of k] "3.prems" Suc ws obtain pre post
      where post: "push_cells (d # cs) vs = pre @ (d # cs) ! k @ post" and pre: "char_count pre = (\<Sum>j<k. vs ! j + 2)"
      by auto
    have w: "char_count (pad w c) = w" using "3.prems"(2) [of 0] ws by (simp add: char_count_pad)
    have two: "char_count ''  '' = 2" using char_count_spaces [of 2] by (simp add: numeral_2_eq_2)
    have "char_count (pad w c @ ''  '' @ pre) = w + (2 + (\<Sum>j<k. vs ! j + 2))"
      by (simp only: char_count_append w two pre)
    also have "\<dots> = (\<Sum>j<i. ws ! j + 2)" by (simp add: Suc ws sum.lessThan_Suc_shift del: sum.lessThan_Suc)
    finally have "char_count (pad w c @ ''  '' @ pre) = (\<Sum>j<i. ws ! j + 2)" .
    moreover have "push_cells (c # d # cs) ws = (pad w c @ ''  '' @ pre) @ (c # d # cs) ! i @ post" using post by (simp add: Suc ws)
    ultimately show ?thesis by blast
  qed
next
  case (2 c ws)
  then have "push_cells [c] ws = [] @ [c] ! i @ []" "char_count [] = (\<Sum>j<i. ws ! j + 2)" by (simp_all add: char_count_def)
  then show ?case by blast
qed simp

lemma widen_length [simp]: "length (widen ws cs) = length ws"
  by (induction ws cs rule: widen.induct) auto

lemma widen_ge: "i < length ws \<Longrightarrow> ws ! i \<le> widen ws cs ! i"
  by (induction ws cs arbitrary: i rule: widen.induct) (auto simp: nth_Cons split: nat.splits)

lemma widen_cell: "i < length ws \<Longrightarrow> i < length cs \<Longrightarrow> length (cs ! i) \<le> widen ws cs ! i"
  by (induction ws cs arbitrary: i rule: widen.induct) (auto simp: nth_Cons split: nat.splits)

lemma foldl_widen_length [simp]: "length (foldl widen ws rs) = length ws"
  by (induction rs arbitrary: ws) auto

lemma foldl_widen_ge: "i < length ws \<Longrightarrow> ws ! i \<le> foldl widen ws rs ! i"
proof (induction rs arbitrary: ws)
  case (Cons r rs)
  from Cons.IH [of "widen ws r"] Cons.prems widen_ge [OF Cons.prems, of r] show ?case by simp
qed simp

lemma foldl_widen_cell:
  "r \<in> set rs \<Longrightarrow> i < length ws \<Longrightarrow> i < length r \<Longrightarrow> length (r ! i) \<le> foldl widen ws rs ! i"
proof (induction rs arbitrary: ws)
  case (Cons q rs)
  show ?case
  proof (cases "r = q")
    case True
    with widen_cell [of i ws r] foldl_widen_ge [of i "widen ws q" rs] Cons.prems show ?thesis by simp
  next
    case False
    with Cons.IH [of "widen ws q"] Cons.prems show ?thesis by simp
  qed
qed simp

lemma widths_cell:
  assumes "r \<in> set (headers t # rows t)" "i < length (headers t)" "i < length r"
  shows "length (r ! i) \<le> widths t ! i"
proof (cases "r \<in> set (rows t)")
  case True
  with assms foldl_widen_cell [of r "rows t" i "map length (headers t)"] show ?thesis by (simp add: widths_def)
next
  case False
  with assms foldl_widen_ge [of i "map length (headers t)" "rows t"] show ?thesis by (simp add: widths_def)
qed

text \<open>The columns of a table line up: in the line of the headers and in the line of every row the cell of column \<open>i\<close>
  begins after the same number of characters, also when cells hold characters of several bytes, although widths are
  measured in bytes and padding in characters.\<close>

theorem table_columns_align:
  assumes "\<forall>r\<in>set (rows t). length r = length (headers t)" "r \<in> set (headers t # rows t)" "i < length (headers t)"
  shows "\<exists>pre post. push_row r (widths t) = pre @ r ! i @ post \<and> char_count pre = (\<Sum>j<i. widths t ! j + 2)"
proof -
  from assms have len: "length r = length (headers t)" by auto
  have "char_count (r ! j) \<le> widths t ! j" if "j < length r" for j
    using char_count_le [of "r ! j"] widths_cell [OF assms(2), of j] that len by simp
  from push_cells_column [of "widths t" r i, OF _ this] len assms(3) show ?thesis
    by (fastforce simp: push_row_def widths_def)
qed

theorem table_columns_align_witness:
  "\<exists>pre post. push_row [''7'', ''x''] (widths (table_row [''7'', ''x''] (table_new [''ID'', ''OUT'']))) = pre @ ''x'' @ post \<and>
     char_count pre = 4"
proof -
  let ?t = "table_row [''7'', ''x''] (table_new [''ID'', ''OUT''])"
  have "\<exists>pre post. push_row [''7'', ''x''] (widths ?t) = pre @ [''7'', ''x''] ! 1 @ post \<and> char_count pre = (\<Sum>j<1. widths ?t ! j + 2)"
    by (rule table_columns_align) (simp_all add: table_row_def table_new_def)
  then show ?thesis by (simp add: widths_def table_row_def table_new_def eval_nat_numeral)
qed

section \<open>Every command reaches its handler\<close>

fun split_all :: "char \<Rightarrow> string \<Rightarrow> string list" where
  "split_all c [] = [[]]"
| "split_all c (x # xs) =
     (if x = c then [] # split_all c xs
      else case split_all c xs of s # ss \<Rightarrow> (x # s) # ss | [] \<Rightarrow> [[x]])"

text \<open>A segment \<^verbatim>\<open>:name\<close> of a pattern captures one segment of the path, every other stands for itself.\<close>

fun match_segments :: "string list \<Rightarrow> string list \<Rightarrow> string list option" where
  "match_segments [] [] = Some []"
| "match_segments (p # ps) (s # ss) =
     (if p \<noteq> [] \<and> hd p = CHR '':'' then (if s = [] then None else map_option (Cons s) (match_segments ps ss))
      else if p = s then match_segments ps ss else None)"
| "match_segments _ _ = None"

definition ctl_request :: "ctl_action \<Rightarrow> api_request" where
  "ctl_request a =
     (case a of
        CtlServer \<Rightarrow> GetServer
      | CtlClients \<Rightarrow> ListClients
      | CtlClient i \<Rightarrow> GetClient i
      | CtlClientConns i \<Rightarrow> ListClientConns i
      | CtlTunnels \<Rightarrow> ListTunnels
      | CtlTunnel i \<Rightarrow> GetTunnel i
      | CtlTunnelConns i \<Rightarrow> ListTunnelConns i
      | CtlConns \<Rightarrow> ListConns
      | CtlHistory n \<Rightarrow> ListHistory (map_option unat n))"

lemma split_all_none: "c \<notin> set s \<Longrightarrow> split_all c s = [s]"
  by (induction s) auto

lemma split_all_append: "c \<notin> set s \<Longrightarrow> split_all c (s @ c # t) = s # split_all c t"
  by (induction s) auto

lemma split_once_absent: "c \<notin> set s \<Longrightarrow> split_once c s = None"
  by (induction s) auto

lemma split_once_append: "c \<notin> set s \<Longrightarrow> split_once c (s @ t) = map_option (\<lambda>(a, b). (s @ a, b)) (split_once c t)"
  by (induction s) (auto simp: option.map_comp comp_def option.map_id split: prod.splits intro!: option.map_cong)

lemma show_word_no_punct:
  "CHR ''/'' \<notin> set (show_word i)" "CHR ''?'' \<notin> set (show_word i)" "show_word i \<noteq> []"
proof -
  have "is_digit 16 c" if "c \<in> set (show_word i)" for c
    using that show_nat_digits [of c "unat i"] is_digit_mono [of 10 c 16] by simp
  moreover have "\<not> is_digit 16 (CHR ''?'')" by (simp add: is_digit_def to_digit_def)
  ultimately show "CHR ''/'' \<notin> set (show_word i)" "CHR ''?'' \<notin> set (show_word i)" by auto
qed simp

text \<open>What is documented of the framework: a pattern matches segment by segment, and the extractors read decimal ids, an
  absent and a decimal limit.\<close>

definition web_ok :: "web_lib \<Rightarrow> bool" where
  "web_ok web \<longleftrightarrow>
     (\<forall>p s. matches web p s = match_segments (split_all (CHR ''/'') p) (split_all (CHR ''/'') s)) \<and>
     (\<forall>i. extract_id web (show_word i) = Some i) \<and>
     extract_limit web [] = Some None \<and> (\<forall>n. extract_limit web (''limit='' @ show_word n) = Some (Some (unat (n :: u64))))"

lemma ctl_requests_routed:
  assumes "web_ok web"
  shows "route web (ctl_path a) = Some (ctl_request a)"
proof -
  from assms have w: "\<And>p s. matches web p s = match_segments (split_all (CHR ''/'') p) (split_all (CHR ''/'') s)"
    "\<And>i. extract_id web (show_word i) = Some i" "extract_limit web [] = Some None"
    "\<And>n. extract_limit web (''limit='' @ show_word n) = Some (Some (unat (n :: u64)))"
    by (simp_all only: web_ok_def)
  show ?thesis
  proof (cases a)
    case (CtlHistory l)
    then show ?thesis
      by (cases l) (simp_all add: ctl_path_def ctl_request_def route_def split_query_def routes_def w(1,3) dispatch_route_def
          w(4) [simplified])
  qed (simp_all add: ctl_path_def ctl_request_def route_def split_query_def routes_def w(1,2) dispatch_route_def
      split_all_none split_all_append split_once_absent split_once_append show_word_no_punct)
qed

definition demo_web :: web_lib where
  "demo_web = \<lparr> matches = (\<lambda>p s. match_segments (split_all (CHR ''/'') p) (split_all (CHR ''/'') s)),
     extract_id = (\<lambda>s. case parse_uint 10 18446744073709551615 s of Inr n \<Rightarrow> Some (word_of_nat n) | Inl _ \<Rightarrow> None),
     extract_limit = (\<lambda>q. if q = [] then Some None
       else case strip_prefix ''limit='' q of
         Some s \<Rightarrow> (case parse_uint 10 18446744073709551615 s of Inr n \<Rightarrow> Some (Some n) | Inl _ \<Rightarrow> None)
       | None \<Rightarrow> None),
     refuse = (\<lambda>_. (404, [])) \<rparr>"

lemma demo_web_ok: "web_ok demo_web"
proof -
  have p: "parse_uint 10 18446744073709551615 (show_word (i :: u64)) = Inr (unat i)" for i
    using unsigned_less [of i, where ?'a = nat] by (simp add: show_nat_def parse_uint_show_radix)
  show ?thesis by (simp add: web_ok_def demo_web_def p strip_prefix_def)
qed

section \<open>What a command prints\<close>

text \<open>The text of an answer.\<close>

definition response_text :: "api_response \<Rightarrow> string" where
  "response_text r =
     (case r of
        ServerInfo s \<Rightarrow> server_text s
      | Clients cs \<Rightarrow> clients_text cs
      | ClientDetail c ts \<Rightarrow> client_detail_text c (map row_of ts)
      | Tunnels ts \<Rightarrow> render_tunnel_rows (map row_of ts)
      | TunnelDetail t cs \<Rightarrow> tunnel_detail_text (row_of t) cs
      | Conns cs \<Rightarrow> render_conn_rows cs
      | History hs \<Rightarrow> history_text hs
      | _ \<Rightarrow> [])"

text \<open>Lengths of collections in memory fit in a \<^verbatim>\<open>usize\<close>.\<close>

definition counts_fit :: "server_state \<Rightarrow> bool" where
  "counts_fit st \<longleftrightarrow> client_count st < 2 ^ 64 \<and> tunnel_count st < 2 ^ 64 \<and> conn_count st < 2 ^ 64 \<and>
     (\<forall>c\<in>set (clients_snapshot st). length (cl_tunnels c) < 2 ^ 64)"

lemma client_summary_fits:
  assumes "wf_state st" "counts_fit st" "c \<in> set (clients_snapshot st)"
  shows "cs_tunnel_count (client_summary_from st c) < 2 ^ 64"
  using assms by (simp add: counts_fit_def client_summary_from_def Let_def)

lemma dec_vec_sorted:
  assumes "\<And>x. x \<in> set xs \<Longrightarrow> dec (sort_keys (f x)) = Inr (g x)"
  shows "dec_vec lib dec (sort_keys (JArray (map f xs))) = Inr (map g xs)"
  using dec_all_map [of xs dec "\<lambda>x. sort_keys (f x)" g] assms by (simp add: dec_vec_def comp_def)

lemma dec_clients_sorted:
  assumes "wf_state st" "counts_fit st"
  shows "dec_vec lib (dec_client lib) (sort_keys (response_json (Clients (list_clients st)))) = Inr (list_clients st)"
  using dec_vec_sorted [of "list_clients st" "dec_client lib" "\<lambda>c. JObject (client_summary_members c)" "\<lambda>c. c" lib]
    client_summary_fits [OF assms] dec_client_sorted
  by (auto simp: response_json_def list_clients_def)

lemma get_client_fits:
  "wf_state st \<Longrightarrow> counts_fit st \<Longrightarrow> get_client st i = Some (c, ts) \<Longrightarrow> cs_tunnel_count c < 2 ^ 64"
  using snapshot_sets(2) [of st] client_summary_fits [of st] by (auto simp: get_client_def)

lemma render_exact:
  assumes "wf_state st" "counts_fit st" "router version now st (ctl_request a) = r" "r \<noteq> NotFound"
  shows "ctl_render lib a (sort_keys (response_json r)) TableFormat = Inr (response_text r)"
proof -
  note conns = dec_vec_sorted [of _ "dec_conn lib" conn_json "\<lambda>c. c" lib, OF dec_conn_sorted, unfolded map_ident]
  note tunnels = dec_vec_sorted [of _ "dec_tunnel lib" "\<lambda>t. JObject (tunnel_members t)" row_of lib, OF dec_tunnel_sorted]
  note hist = dec_vec_sorted [of _ "dec_history_row lib" history_json "\<lambda>h. h" lib, OF dec_history_row_sorted, unfolded map_ident]
  have info: "dec_server lib (sort_keys (server_info_json (server_info version now st))) = Inr (server_info version now st)"
    using assms(2) by (intro dec_server_sorted) (simp_all add: counts_fit_def server_info_def)
  note clients = dec_clients_sorted [OF assms(1,2), of lib]
  show ?thesis
    using assms(3,4) conns tunnels hist info clients get_client_fits [OF assms(1,2)]
    by (cases a)
      (auto simp: ctl_request_def router_def or_not_found_def ctl_render_def render_with_def response_json_def response_text_def
        render_server_def render_clients_def render_client_detail_def render_conns_def render_tunnels_def
        render_tunnel_detail_def render_history_def dec_client_detail_sorted dec_tunnel_detail_sorted
        simp del: sort_keys.simps split: option.splits)
qed

text \<open>What \<^verbatim>\<open>rusnel ctl\<close> shows is what the server holds: asked over the admin socket, every subcommand reaches the handler
  it means with its id or limit, its answer survives the trip through JSON, flattened details and absent peers included,
  and the output is the table of the handler's answer on the server's registry, or that answer's JSON with \<^verbatim>\<open>--json\<close>. An
  unknown id is the server's 404, reported as an error. It is assumed that the framework and the JSON library do what they
  document, and that no collection in memory has more elements than a \<^verbatim>\<open>usize\<close> counts.\<close>

lemma ctl_shows_registry:
  fixes version :: string and now :: nat and st :: server_state and a :: ctl_action
  defines r_def: "r \<equiv> router version now st (ctl_request a)"
  assumes "web_ok web" "json_ok lib" "wf_state st" "counts_fit st"
  shows "run_ctl (\<lambda>uri. Inr (serve web lib version now st uri)) status_text lib as_json a =
    (if r = NotFound
     then Inl (''admin API returned '' @ status_text 404 @ '': '' @ from_utf8_lossy (to_vec lib (response_json NotFound)))
     else Inr (end_line (if as_json then pretty lib (sort_keys (response_json r)) else response_text r)))"
proof -
  have answer: "serve web lib version now st (ctl_path a) = (response_status r, to_vec lib (response_json r))"
    using ctl_requests_routed [OF assms(2), of a] by (simp add: serve_def r_def Let_def)
  have parsed: "from_slice lib (to_vec lib (response_json r)) = Inr (sort_keys (response_json r))"
    using assms(3) response_distinct_keys by (simp add: json_ok_def)
  show ?thesis
  proof (cases "r = NotFound")
    case True
    then show ?thesis using answer by (simp add: run_ctl_def ctl_get_def response_status_def Let_def)
  next
    case False
    then have "response_status r = 200" by (cases r) (simp_all add: response_status_def)
    moreover have "ctl_render lib a v JsonFormat = Inr (pretty lib v)" for v
      by (cases a) (simp_all add: ctl_render_def render_with_def render_server_def render_clients_def render_client_detail_def
          render_conns_def render_tunnels_def render_tunnel_detail_def render_history_def)
    ultimately show ?thesis
      using False answer parsed render_exact [OF assms(4,5) _ False, of version now a lib] r_def
      by (simp add: run_ctl_def ctl_get_def)
  qed
qed

end
