(* ===== verification/Lifecycle.thy ===== *)
theory Lifecycle
  imports Ctl Endpoint
begin

text \<open>
  A server process from start to stop: \<^verbatim>\<open>run_async\<close> and \<^verbatim>\<open>spawn_admin\<close> of \<^verbatim>\<open>src/src/server/mod.rs\<close> around the accept loop
  of \<^verbatim>\<open>Session\<close>, and \<^verbatim>\<open>bind\<close>, \<^verbatim>\<open>serve\<close> and \<^verbatim>\<open>accept_loop\<close> of \<^verbatim>\<open>src/src/server/admin.rs\<close>. The part of the file system
  they touch maps a path to a file, a socket with the process that bound it and its mode, or a directory; whether a call succeeds is the
  operating system's choice, and of the creation of parent directories only that is kept.
\<close>

section \<open>The admin socket\<close>

datatype node =
  RegularFile bytes nat
| SocketFile nat nat
| Directory

type_synonym node_system = "string \<rightharpoonup> node"

record os =
  os_remove_ok :: "string \<Rightarrow> bool"
  os_mkdir_ok :: "string \<Rightarrow> bool"
  os_bind_ok :: "string \<Rightarrow> bool"
  os_chmod_ok :: "string \<Rightarrow> bool"
  os_umask_mode :: nat

definition remove_file :: "os \<Rightarrow> string \<Rightarrow> node_system \<Rightarrow> node_system option" where
  "remove_file os path fs =
     (case fs path of
        None \<Rightarrow> None
      | Some Directory \<Rightarrow> None
      | Some _ \<Rightarrow> if os_remove_ok os path then Some (fs(path := None)) else None)"

text \<open>\<^verbatim>\<open>UnixListener::bind\<close> makes the socket file with the mode the umask leaves.\<close>

definition bind_socket :: "os \<Rightarrow> nat \<Rightarrow> string \<Rightarrow> node_system \<Rightarrow> node_system option" where
  "bind_socket os pid path fs =
     (if fs path = None \<and> os_bind_ok os path then Some (fs(path \<mapsto> SocketFile pid (os_umask_mode os))) else None)"

text \<open>\<^verbatim>\<open>Path::parent\<close> of a path without a trailing slash.\<close>

definition parent_dir :: "string \<Rightarrow> string option" where
  "parent_dir path =
     (case rsplit_once (CHR ''/'') path of
        None \<Rightarrow> if path = [] then None else Some []
      | Some (d, n) \<Rightarrow> if d = [] then (if n = [] then None else Some ''/'') else Some d)"

datatype admin_error = RemoveStale string | CreateSocketDir string | BindSocket string | ChmodSocket string

text \<open>The result and the states the file system goes through.\<close>

definition admin_bind :: "os \<Rightarrow> nat \<Rightarrow> string \<Rightarrow> node_system \<Rightarrow> (admin_error + unit) \<times> node_system list" where
  "admin_bind os pid path fs =
     (case (if fs path \<noteq> None then remove_file os path fs else Some fs) of
        None \<Rightarrow> (Inl (RemoveStale path), [fs])
      | Some fs1 \<Rightarrow>
         (case (case parent_dir path of Some d \<Rightarrow> if d \<noteq> [] \<and> \<not> os_mkdir_ok os d then Some d else None | None \<Rightarrow> None) of
            Some d \<Rightarrow> (Inl (CreateSocketDir d), [fs1])
          | None \<Rightarrow>
             (case bind_socket os pid path fs1 of
                None \<Rightarrow> (Inl (BindSocket path), [fs1])
              | Some fs2 \<Rightarrow>
                  if os_chmod_ok os path then (Inr (), [fs1, fs2, fs2(path \<mapsto> SocketFile pid 384)])
                  else (Inl (ChmodSocket path), [fs1, fs2]))))"

section \<open>A process\<close>

text \<open>The admin task: absent, spawned, serving, or ended. Its accept loop goes on after an error and never returns.\<close>

datatype admin_task = NoAdmin | Spawned | Serving_Admin | Exited

record process =
  pr_pid :: nat
  pr_path :: "string option"
  pr_server :: server
  pr_admin :: admin_task
  pr_running :: bool

definition process_start :: "nat \<Rightarrow> nat \<Rightarrow> socket_addr \<Rightarrow> server_config \<Rightarrow> process" where
  "process_start pid now listen cfg =
     \<lparr> pr_pid = pid, pr_path = sc_admin_socket cfg, pr_server = server_new now listen (sc_max_connections cfg),
       pr_admin = (case sc_admin_socket cfg of None \<Rightarrow> NoAdmin | Some _ \<Rightarrow> Spawned), pr_running = True \<rparr>"

text \<open>\<^verbatim>\<open>AdminRuns\<close>: the spawned task is scheduled and binds. \<^verbatim>\<open>Asked\<close>: a request on the admin socket, at a time. \<^verbatim>\<open>CtrlC\<close>:
  the signal, upon which the endpoint is closed, the admin task aborted and the socket file removed. \<^verbatim>\<open>AcceptEnds\<close>: the
  endpoint was closed otherwise and the loop is left.\<close>

datatype process_event =
  AdminRuns
| Happens "nat \<times> server_event"
| Asked nat string
| CtrlC
| AcceptEnds

definition spawn_admin :: "os \<Rightarrow> process \<Rightarrow> node_system \<Rightarrow> process \<times> node_system" where
  "spawn_admin os p fs =
     (case (pr_admin p, pr_path p) of
        (Spawned, Some path) \<Rightarrow>
          (case admin_bind os (pr_pid p) path fs of
             (Inl _, fss) \<Rightarrow> (p\<lparr>pr_admin := Exited\<rparr>, last fss)
           | (Inr _, fss) \<Rightarrow> (p\<lparr>pr_admin := Serving_Admin\<rparr>, last fss))
      | _ \<Rightarrow> (p, fs))"

definition shutdown_process :: "os \<Rightarrow> process \<Rightarrow> node_system \<Rightarrow> process \<times> node_system" where
  "shutdown_process os p fs =
     (p\<lparr>pr_admin := (if pr_admin p = NoAdmin then NoAdmin else Exited), pr_running := False\<rparr>,
      case pr_path p of
        None \<Rightarrow> fs
      | Some path \<Rightarrow> (case remove_file os path fs of None \<Rightarrow> fs | Some fs' \<Rightarrow> fs'))"

definition process_step ::
  "server_policy \<Rightarrow> os \<Rightarrow> (nat \<Rightarrow> server_state \<Rightarrow> string \<Rightarrow> nat \<times> bytes) \<Rightarrow> process_event \<Rightarrow> process \<times> node_system \<Rightarrow>
   (nat \<times> bytes) option \<times> process \<times> node_system" where
  "process_step pol os answer ev = (\<lambda>(p, fs).
     if \<not> pr_running p then (None, p, fs)
     else case ev of
       AdminRuns \<Rightarrow> (None, spawn_admin os p fs)
     | Happens e \<Rightarrow> (None, p\<lparr>pr_server := server_step pol e (pr_server p)\<rparr>, fs)
     | Asked now uri \<Rightarrow>
         (if pr_admin p = Serving_Admin then Some (answer now (reg (pr_server p)) uri) else None, p, fs)
     | CtrlC \<Rightarrow> (None, shutdown_process os p fs)
     | AcceptEnds \<Rightarrow> (None, p\<lparr>pr_running := False\<rparr>, fs))"

fun process_run ::
  "server_policy \<Rightarrow> os \<Rightarrow> (nat \<Rightarrow> server_state \<Rightarrow> string \<Rightarrow> nat \<times> bytes) \<Rightarrow> process_event list \<Rightarrow> process \<times> node_system \<Rightarrow>
   process \<times> node_system" where
  "process_run pol os answer [] x = x"
| "process_run pol os answer (e # es) x = process_run pol os answer es (snd (process_step pol os answer e x))"

definition happened :: "process_event list \<Rightarrow> (nat \<times> server_event) list" where
  "happened es = concat (map (\<lambda>e. case e of Happens h \<Rightarrow> [h] | _ \<Rightarrow> []) es)"

section \<open>The socket file over the life of a process\<close>

lemma remove_file_cases:
  "remove_file os path fs = Some fs' \<Longrightarrow> fs' = fs(path := None)"
  by (auto simp: remove_file_def split: option.splits node.splits if_splits)

lemma admin_bind_states:
  assumes "admin_bind os pid path fs = (r, fss)"
  shows "r = Inr () \<Longrightarrow> last fss path = Some (SocketFile pid 384)"
    and "q \<noteq> path \<Longrightarrow> last fss q = fs q"
    and "fs path \<noteq> Some Directory \<Longrightarrow> last fss path \<noteq> Some Directory"
  using assms remove_file_cases [of os path fs]
  by (auto simp: admin_bind_def bind_socket_def split: option.splits if_splits)

text \<open>What holds of a process and its socket file at every moment, when nothing else touches that path.\<close>

definition socket_inv :: "node_system \<Rightarrow> process \<times> node_system \<Rightarrow> bool" where
  "socket_inv fs0 = (\<lambda>(p, fs).
     (case pr_path p of
        None \<Rightarrow> fs = fs0 \<and> pr_admin p = NoAdmin
      | Some path \<Rightarrow>
          (\<forall>q. q \<noteq> path \<longrightarrow> fs q = fs0 q) \<and> fs path \<noteq> Some Directory \<and>
          (pr_admin p = Serving_Admin \<longrightarrow> fs path = Some (SocketFile (pr_pid p) 384)) \<and>
          (pr_admin p = Spawned \<longrightarrow> fs path = fs0 path)))"

lemma process_step_inv:
  assumes "socket_inv fs0 x"
  shows "socket_inv fs0 (snd (process_step pol os answer e x))"
    and "pr_path (fst (snd (process_step pol os answer e x))) = pr_path (fst x)"
    and "pr_pid (fst (snd (process_step pol os answer e x))) = pr_pid (fst x)"
proof -
  obtain p fs where x: "x = (p, fs)" by (cases x)
  have bind: "socket_inv fs0 (spawn_admin os p fs)" "pr_path (fst (spawn_admin os p fs)) = pr_path p"
    "pr_pid (fst (spawn_admin os p fs)) = pr_pid p"
    using assms admin_bind_states [of os "pr_pid p" "the (pr_path p)" fs]
    by (auto simp: x socket_inv_def spawn_admin_def split: option.splits admin_task.splits prod.splits sum.splits)
  have stop: "socket_inv fs0 (shutdown_process os p fs)"
    using assms remove_file_cases [of os "the (pr_path p)" fs]
    by (auto simp: x socket_inv_def shutdown_process_def split: option.splits)
  show "socket_inv fs0 (snd (process_step pol os answer e x))"
    using assms bind(1) stop by (cases e) (auto simp: x process_step_def socket_inv_def split: option.splits)
  show "pr_path (fst (snd (process_step pol os answer e x))) = pr_path (fst x)"
    and "pr_pid (fst (snd (process_step pol os answer e x))) = pr_pid (fst x)"
    using bind(2,3) by (cases e; simp add: x process_step_def shutdown_process_def)+
qed

lemma process_run_append:
  "process_run pol os answer (es @ fs) x = process_run pol os answer fs (process_run pol os answer es x)"
  by (induction es arbitrary: x) simp_all

lemma process_run_inv:
  assumes "socket_inv fs0 x"
  shows "socket_inv fs0 (process_run pol os answer es x) \<and>
    pr_path (fst (process_run pol os answer es x)) = pr_path (fst x) \<and>
    pr_pid (fst (process_run pol os answer es x)) = pr_pid (fst x)"
  using assms
proof (induction es arbitrary: x)
  case (Cons e es)
  from Cons.IH [OF process_step_inv(1) [OF Cons.prems, of pol os answer e]] process_step_inv(2,3) [OF Cons.prems, of pol os answer e]
  show ?case by simp
qed simp

lemma socket_inv_start:
  "sc_admin_socket cfg = None \<or> fs (the (sc_admin_socket cfg)) \<noteq> Some Directory \<Longrightarrow> socket_inv fs (process_start pid now listen cfg, fs)"
  by (auto simp: socket_inv_def process_start_def split: option.splits)


section \<open>The API answers from the live registry\<close>

lemma process_server:
  "pr_running (fst (process_run pol os answer es x)) \<Longrightarrow>
   pr_server (fst (process_run pol os answer es x)) = server_run pol (happened es) (pr_server (fst x))"
proof (induction es arbitrary: x)
  case Nil
  then show ?case by (simp add: happened_def server_run_def)
next
  case (Cons e es)
  obtain p fs where x: "x = (p, fs)" by (cases x)
  have stays: "pr_running (fst (process_run pol os answer es y)) \<Longrightarrow> pr_running (fst y)" for y es
  proof (induction es arbitrary: y)
    case (Cons e es)
    then have "pr_running (fst (snd (process_step pol os answer e y)))" by simp
    then show ?case by (cases y) (auto simp: process_step_def split: if_splits)
  qed simp
  have run: "pr_running (fst (snd (process_step pol os answer e x)))" using Cons.prems stays by simp
  have "pr_server (fst (snd (process_step pol os answer e x))) = server_run pol (happened [e]) (pr_server p)"
    using run
    by (cases e) (auto simp: x process_step_def happened_def server_run_def spawn_admin_def shutdown_process_def
        split: if_splits admin_task.splits option.splits prod.splits sum.splits)
  with Cons show ?case by (simp add: x happened_def server_run_def)
qed


definition demo_os :: os where
  "demo_os = \<lparr> os_remove_ok = (\<lambda>_. True), os_mkdir_ok = (\<lambda>_. True), os_bind_ok = (\<lambda>_. True), os_chmod_ok = (\<lambda>_. True), os_umask_mode = 493 \<rparr>"

definition demo_server_config :: server_config where
  "demo_server_config = \<lparr> sc_host = V4 (Ipv4 127 0 0 1), sc_port = 80, sc_allow_reverse = False, sc_allow_socks = False, sc_tls = Insecure,
     sc_congestion = Cubic, sc_max_connections = Some 1, sc_admin_socket = Some ''/run/a.sock'' \<rparr>"

lemmas process_simps = process_step_def process_start_def spawn_admin_def admin_bind_def bind_socket_def remove_file_def
  shutdown_process_def parent_dir_def demo_os_def demo_server_config_def

lemma demo_process:
  "\<exists>p fs'. process_run demo_policy demo_os answer (AdminRuns # map Happens demo_events)
       (process_start 7 0 demo_addr demo_server_config, [''/run/a.sock'' \<mapsto> SocketFile 3 384]) = (p, fs') \<and>
     pr_running p \<and> pr_admin p = Serving_Admin"
proof -
  let ?x = "snd (process_step demo_policy demo_os answer AdminRuns
     (process_start 7 0 demo_addr demo_server_config, [''/run/a.sock'' \<mapsto> SocketFile 3 384]))"
  have "rsplit_once (CHR ''/'') ''/run/a.sock'' = Some (''/run'', ''a.sock'')" by code_simp
  then have x: "pr_running (fst ?x)" "pr_admin (fst ?x) = Serving_Admin" by (simp_all add: process_simps)
  have "pr_running (fst (process_run demo_policy demo_os answer (map Happens hs) y)) \<and>
      pr_admin (fst (process_run demo_policy demo_os answer (map Happens hs) y)) = Serving_Admin"
    if "pr_running (fst y)" "pr_admin (fst y) = Serving_Admin" for hs y
    using that
  proof (induction hs arbitrary: y)
    case (Cons h hs)
    obtain p fs where y: "y = (p, fs)" by (cases y)
    from Cons.IH [of "(p\<lparr>pr_server := server_step demo_policy h (pr_server p)\<rparr>, fs)"] Cons.prems
    show ?case by (simp add: y process_step_def)
  qed simp
  from this [OF x, of demo_events] show ?thesis by (metis process_run.simps(2) prod.collapse)
qed

lemma happened_map: "happened (AdminRuns # map Happens hs) = hs"
  by (induction hs) (simp_all add: happened_def)



section \<open>What the bind does to others\<close>

text \<open>The bind removes whatever file is at the path, a regular one too, and the socket is reachable with the umask's mode until
  the mode is set.\<close>

theorem admin_bind_effects:
  assumes "os_remove_ok os path" "os_bind_ok os path" "os_chmod_ok os path" "\<And>d. os_mkdir_ok os d" "fs path = Some (RegularFile contents m)"
  shows "admin_bind os pid path fs =
    (Inr (), [fs(path := None), fs(path \<mapsto> SocketFile pid (os_umask_mode os)), fs(path \<mapsto> SocketFile pid 384)])"
  using assms by (simp add: admin_bind_def remove_file_def bind_socket_def split: option.split)

text \<open>Two servers of one user share the default path. The second takes the socket over from the first, whose API can no longer
  be reached although it goes on serving; and when the first is stopped it removes the socket of the second.\<close>

theorem second_server_loses_socket:
  assumes "os_remove_ok os path" "os_bind_ok os path" "os_chmod_ok os path" "\<And>d. os_mkdir_ok os d"
    and "pr_path p1 = Some path" "pr_path p2 = Some path" "pr_admin p1 = Serving_Admin" "pr_admin p2 = Spawned"
    and "fs path = Some (SocketFile (pr_pid p1) 384)"
  shows "\<exists>p2' fs'. spawn_admin os p2 fs = (p2', fs') \<and> fs' path = Some (SocketFile (pr_pid p2) 384) \<and>
    pr_admin p2' = Serving_Admin \<and> snd (shutdown_process os p1 fs') path = None"
  using assms by (simp add: spawn_admin_def admin_bind_def remove_file_def bind_socket_def shutdown_process_def split: option.split)

theorem admin_bind_effects_witness:
  "fst (admin_bind demo_os 7 ''/x'' [''/x'' \<mapsto> RegularFile [1] 420]) = Inr ()"
  using admin_bind_effects [of demo_os "''/x''" "[''/x'' \<mapsto> RegularFile [1] 420]" "[1]" 420 7] by (simp add: demo_os_def)

theorem second_server_loses_socket_witness:
  "\<exists>p fs'. spawn_admin demo_os (process_start 8 0 demo_addr demo_server_config) [''/run/a.sock'' \<mapsto> SocketFile 7 384] = (p, fs') \<and>
     pr_admin p = Serving_Admin \<and>
     snd (shutdown_process demo_os (process_start 7 0 demo_addr demo_server_config \<lparr>pr_admin := Serving_Admin\<rparr>) fs') ''/run/a.sock'' = None"
  using second_server_loses_socket [of demo_os "''/run/a.sock''" "process_start 7 0 demo_addr demo_server_config \<lparr>pr_admin := Serving_Admin\<rparr>"
      "process_start 8 0 demo_addr demo_server_config" "[''/run/a.sock'' \<mapsto> SocketFile 7 384]"]
  by (auto simp: demo_os_def process_start_def demo_server_config_def)

end
