(* ===== verification/Program.thy ===== *)
theory Program
  imports Cert Lifecycle
begin

text \<open>
  The program as a whole: the build script (\<^verbatim>\<open>src/build.rs\<close>) that bakes credentials and default arguments into the binary, and
  \<^verbatim>\<open>main\<close> of \<^verbatim>\<open>src/src/main.rs\<close>, which picks the arguments, and per mode prepares logging, credentials and the
  configuration. Parsing of arguments (\<^verbatim>\<open>clap\<close>) and shell splitting (\<^verbatim>\<open>shlex\<close>) are the libraries'; the environment of a
  build is a map of variables and a map of the files that exist.
\<close>

section \<open>The build script\<close>

definition path_vars :: "string list" where
  "path_vars = [''RUSNEL_EMBED_CA'', ''RUSNEL_EMBED_SERVER_CERT'', ''RUSNEL_EMBED_SERVER_KEY'', ''RUSNEL_EMBED_CLIENT_CERT'',
     ''RUSNEL_EMBED_CLIENT_KEY'']"

definition string_vars :: "string list" where
  "string_vars = [''RUSNEL_EMBED_SERVER_ADDR'', ''RUSNEL_EMBED_FINGERPRINT'', ''RUSNEL_EMBED_SERVER_NAME'']"

definition const_for_var :: "string \<Rightarrow> string" where
  "const_for_var v = (case strip_prefix ''RUSNEL_'' v of Some r \<Rightarrow> r | None \<Rightarrow> v)"

record build_env =
  be_var :: "string \<rightharpoonup> string"
  be_file :: "string \<rightharpoonup> bytes"
  be_split :: "string \<Rightarrow> string list option"

definition absolutize :: "build_env \<Rightarrow> string \<Rightarrow> string" where
  "absolutize be p =
     (if p \<noteq> [] \<and> hd p = CHR ''/'' then p
      else path_join (case be_var be ''CARGO_MANIFEST_DIR'' of Some d \<Rightarrow> d | None \<Rightarrow> ''.'') p)"

datatype build_error = MissingFile string string | BadQuoting string

text \<open>The constants of the generated file, by name.\<close>

datatype embed_const =
  BytesConst "bytes option"
| StrConst "string option"
| ArgsConst "string list option"

definition path_const :: "build_env \<Rightarrow> string \<Rightarrow> build_error + string \<times> embed_const" where
  "path_const be var =
     (case be_var be var of
        Some p \<Rightarrow>
          if p \<noteq> [] then
            let path = absolutize be p in
            (case be_file be path of
               None \<Rightarrow> Inl (MissingFile var path)
             | Some contents \<Rightarrow> Inr (const_for_var var, BytesConst (Some contents)))
          else Inr (const_for_var var, BytesConst None)
      | None \<Rightarrow> Inr (const_for_var var, BytesConst None))"

definition string_const :: "build_env \<Rightarrow> string \<Rightarrow> string \<times> embed_const" where
  "string_const be var =
     (const_for_var var, StrConst (case be_var be var of Some s \<Rightarrow> if s \<noteq> [] then Some s else None | None \<Rightarrow> None))"

definition args_const :: "build_env \<Rightarrow> build_error + string \<times> embed_const" where
  "args_const be =
     (case be_var be ''RUSNEL_EMBED_ARGS'' of
        Some s \<Rightarrow>
          if trim s \<noteq> [] then
            (case be_split be s of
               None \<Rightarrow> Inl (BadQuoting s)
             | Some parts \<Rightarrow> Inr (''EMBED_ARGS'', ArgsConst (if parts = [] then None else Some parts)))
          else Inr (''EMBED_ARGS'', ArgsConst None)
      | None \<Rightarrow> Inr (''EMBED_ARGS'', ArgsConst None))"

fun path_consts :: "build_env \<Rightarrow> string list \<Rightarrow> build_error + (string \<times> embed_const) list" where
  "path_consts be [] = Inr []"
| "path_consts be (v # vs) = and_then (path_const be v) (\<lambda>c. and_then (path_consts be vs) (\<lambda>cs. Inr (c # cs)))"

definition build_main :: "build_env \<Rightarrow> build_error + (string \<times> embed_const) list" where
  "build_main be =
     and_then (path_consts be path_vars) (\<lambda>ps.
     and_then (args_const be) (\<lambda>a.
     Inr (ps @ map (string_const be) string_vars @ [a])))"

text \<open>The constants as the program that includes the file sees them.\<close>

definition bytes_of :: "(string \<times> embed_const) list \<Rightarrow> string \<Rightarrow> bytes option" where
  "bytes_of cs n = (case map_of cs n of Some (BytesConst b) \<Rightarrow> b | _ \<Rightarrow> None)"

definition str_of :: "(string \<times> embed_const) list \<Rightarrow> string \<Rightarrow> string option" where
  "str_of cs n = (case map_of cs n of Some (StrConst s) \<Rightarrow> s | _ \<Rightarrow> None)"

definition args_of :: "(string \<times> embed_const) list \<Rightarrow> string list option" where
  "args_of cs = (case map_of cs ''EMBED_ARGS'' of Some (ArgsConst a) \<Rightarrow> a | _ \<Rightarrow> None)"

definition included :: "(string \<times> embed_const) list \<Rightarrow> embedded" where
  "included cs =
     \<lparr> EMBED_CA = bytes_of cs ''EMBED_CA'', EMBED_SERVER_CERT = bytes_of cs ''EMBED_SERVER_CERT'',
       EMBED_SERVER_KEY = bytes_of cs ''EMBED_SERVER_KEY'', EMBED_CLIENT_CERT = bytes_of cs ''EMBED_CLIENT_CERT'',
       EMBED_CLIENT_KEY = bytes_of cs ''EMBED_CLIENT_KEY'', EMBED_SERVER_ADDR = str_of cs ''EMBED_SERVER_ADDR'',
       EMBED_FINGERPRINT = str_of cs ''EMBED_FINGERPRINT'', EMBED_SERVER_NAME = str_of cs ''EMBED_SERVER_NAME'',
       EMBED_ARGS = args_of cs \<rparr>"

section \<open>Logging\<close>

datatype log_sink = Stderr

record logger =
  lg_filter :: string
  lg_sink :: log_sink
  lg_ansi :: bool
  lg_timestamps :: bool
  lg_format :: log_format

text \<open>\<^term>\<open>rust_log\<close> is the filter of the environment, if it is set and valid.\<close>

definition init_simple_logger :: "string option \<Rightarrow> bool \<Rightarrow> string \<Rightarrow> logger" where
  "init_simple_logger rust_log ansi directive =
     \<lparr> lg_filter = (case rust_log of Some f \<Rightarrow> f | None \<Rightarrow> directive), lg_sink = Stderr, lg_ansi = ansi, lg_timestamps = False,
       lg_format = Compact \<rparr>"

definition init_logging :: "string option \<Rightarrow> bool \<Rightarrow> bool \<Rightarrow> bool \<Rightarrow> bool \<Rightarrow> log_format \<Rightarrow> logger" where
  "init_logging rust_log stderr_tty verbose debug quiet fmt =
     \<lparr> lg_filter = (case rust_log of Some f \<Rightarrow> f | None \<Rightarrow> default_directive verbose debug quiet), lg_sink = Stderr,
       lg_ansi = stderr_tty, lg_timestamps = True, lg_format = fmt \<rparr>"

section \<open>The program\<close>

datatype mode =
  ServerMode "string option" server_cli
| ClientMode "string option" client_cli
| CtlMode "string option" bool ctl_action
| CertMode cert_action

text \<open>How a run ends or what it starts; a failed \<^verbatim>\<open>ctl\<close> prints its message and exits with status 1.\<close>

datatype outcome =
  ProviderExit
| UsageExit string
| ServerOutcome "server_config launched"
| ClientOutcome "client_config launched"
| CtlPrinted string
| CtlFailed string
| CertOutcome cert_result

text \<open>What a run depends on: the environment, the libraries, the temporary directory of the process and the HTTP client.\<close>

record system =
  sy_env :: environment
  sy_lib :: crypto_lib
  sy_rcgen :: rcgen
  sy_json :: json_lib
  sy_provider_ok :: bool
  sy_clap :: "string list \<Rightarrow> string + mode \<times> (string \<Rightarrow> bool)"
  sy_temp :: string
  sy_show_identity_error :: "identity_error \<Rightarrow> string"
  sy_fetch :: "string \<Rightarrow> string \<Rightarrow> string + nat \<times> bytes"
  sy_status_text :: "nat \<Rightarrow> string"

text \<open>The credentials are written out after the configuration file has been read and, for a client, checked.\<close>

definition before_embedding :: "'a launched \<Rightarrow> bool" where
  "before_embedding r =
     (case r of
        Exit _ why \<Rightarrow> (case why of ConfigFile _ \<Rightarrow> True | BadSection _ \<Rightarrow> True | NoServer \<Rightarrow> True | NoRemotes \<Rightarrow> True | _ \<Rightarrow> False)
      | Run _ _ \<Rightarrow> False)"

definition with_embedding ::
  "system \<Rightarrow> embedded \<Rightarrow> (environment \<Rightarrow> 'a launched) \<Rightarrow> file_system \<Rightarrow> 'a launched \<times> file_system" where
  "with_embedding sy e start fs =
     (case materialize_uncached (sy_lib sy) (sy_temp sy) e fs of
        (m, fs') \<Rightarrow>
          let r = start (sy_env sy \<lparr> env_embedded := map_err (sy_show_identity_error sy) m \<rparr>) in
          (r, if before_embedding r then fs else fs'))"

definition rusnel_main :: "system \<Rightarrow> embedded \<Rightarrow> string list \<Rightarrow> file_system \<Rightarrow> outcome \<times> file_system" where
  "rusnel_main sy e raw fs =
     (if \<not> sy_provider_ok sy then (ProviderExit, fs)
      else case sy_clap sy (resolve_argv (EMBED_ARGS e) raw) of
        Inl u \<Rightarrow> (UsageExit u, fs)
      | Inr (md, explicit) \<Rightarrow>
         (case md of
            ServerMode config cli \<Rightarrow>
              (case with_embedding sy e (\<lambda>env. main_server env explicit config cli) fs of (r, fs') \<Rightarrow> (ServerOutcome r, fs'))
          | ClientMode config cli \<Rightarrow>
              (case with_embedding sy e (\<lambda>env. main_client env explicit config cli) fs of (r, fs') \<Rightarrow> (ClientOutcome r, fs'))
          | CtlMode sock as_json action \<Rightarrow>
              (let path = (case sock of Some p \<Rightarrow> p | None \<Rightarrow> default_socket_path (env_home (sy_env sy)) (env_euid (sy_env sy))) in
               case run_ctl (sy_fetch sy path) (sy_status_text sy) (sy_json sy) as_json action of
                 Inr out \<Rightarrow> (CtlPrinted out, fs)
               | Inl msg \<Rightarrow> (CtlFailed (''ctl: '' @ msg), fs))
          | CertMode action \<Rightarrow>
              (case run_cert (sy_lib sy) (sy_rcgen sy) action fs of (r, fs') \<Rightarrow> (CertOutcome r, fs'))))"

section \<open>A build without embedding\<close>

definition no_embedded :: embedded where
  "no_embedded = \<lparr> EMBED_CA = None, EMBED_SERVER_CERT = None, EMBED_SERVER_KEY = None, EMBED_CLIENT_CERT = None,
     EMBED_CLIENT_KEY = None, EMBED_SERVER_ADDR = None, EMBED_FINGERPRINT = None, EMBED_SERVER_NAME = None, EMBED_ARGS = None \<rparr>"

text \<open>What a successful build bakes in, constant by constant.\<close>

definition baked_bytes :: "build_env \<Rightarrow> string \<Rightarrow> bytes option" where
  "baked_bytes be var =
     (case be_var be var of Some p \<Rightarrow> if p \<noteq> [] then be_file be (absolutize be p) else None | None \<Rightarrow> None)"

lemma path_const_baked: "path_const be var = Inr c \<Longrightarrow> c = (const_for_var var, BytesConst (baked_bytes be var))"
  by (auto simp: path_const_def baked_bytes_def Let_def split: option.splits if_splits)

lemma path_consts_baked:
  "path_consts be vs = Inr cs \<Longrightarrow> cs = map (\<lambda>v. (const_for_var v, BytesConst (baked_bytes be v))) vs"
  by (induction vs arbitrary: cs) (auto simp: and_then_Inr_iff dest: path_const_baked)

lemma build_baked:
  assumes "build_main be = Inr cs"
  shows "EMBED_CA (included cs) = baked_bytes be ''RUSNEL_EMBED_CA''"
    and "EMBED_SERVER_CERT (included cs) = baked_bytes be ''RUSNEL_EMBED_SERVER_CERT''"
    and "EMBED_SERVER_KEY (included cs) = baked_bytes be ''RUSNEL_EMBED_SERVER_KEY''"
    and "\<And>s parts. be_var be ''RUSNEL_EMBED_ARGS'' = Some s \<Longrightarrow> trim s \<noteq> [] \<Longrightarrow> be_split be s = Some parts \<Longrightarrow> parts \<noteq> [] \<Longrightarrow>
      EMBED_ARGS (included cs) = Some parts"
proof -
  from assms obtain a where "args_const be = Inr a"
    "cs = map (\<lambda>v. (const_for_var v, BytesConst (baked_bytes be v))) path_vars @ map (string_const be) string_vars @ [a]"
    by (auto simp: build_main_def and_then_Inr_iff dest: path_consts_baked)
  then show "EMBED_CA (included cs) = baked_bytes be ''RUSNEL_EMBED_CA''"
    and "EMBED_SERVER_CERT (included cs) = baked_bytes be ''RUSNEL_EMBED_SERVER_CERT''"
    and "EMBED_SERVER_KEY (included cs) = baked_bytes be ''RUSNEL_EMBED_SERVER_KEY''"
    and "\<And>s parts. be_var be ''RUSNEL_EMBED_ARGS'' = Some s \<Longrightarrow> trim s \<noteq> [] \<Longrightarrow> be_split be s = Some parts \<Longrightarrow> parts \<noteq> [] \<Longrightarrow>
      EMBED_ARGS (included cs) = Some parts"
    by (auto simp: included_def bytes_of_def args_of_def path_vars_def string_vars_def const_for_var_def strip_prefix_def
        string_const_def args_const_def)
qed

lemma neutral_included:
  assumes "\<And>v. v \<in> set (path_vars @ string_vars) \<Longrightarrow> be_var be v \<in> {None, Some []}"
    and "case be_var be ''RUSNEL_EMBED_ARGS'' of None \<Rightarrow> True | Some s \<Rightarrow> trim s = []"
  shows "\<exists>cs. build_main be = Inr cs \<and> included cs = no_embedded"
proof -
  have p: "path_const be v = Inr (const_for_var v, BytesConst None)" if "v \<in> set path_vars" for v
    using assms(1) [of v] that by (auto simp: path_const_def)
  have s: "string_const be v = (const_for_var v, StrConst None)" if "v \<in> set string_vars" for v
    using assms(1) [of v] that by (auto simp: string_const_def)
  have a: "args_const be = Inr (''EMBED_ARGS'', ArgsConst None)"
    using assms(2) by (auto simp: args_const_def split: option.splits)
  show ?thesis
    using p s by (simp add: build_main_def a path_vars_def string_vars_def included_def no_embedded_def bytes_of_def str_of_def
        args_of_def const_for_var_def strip_prefix_def)
qed

lemma no_embedding:
  "with_embedding sy no_embedded start fs = (start (sy_env sy \<lparr> env_embedded := Inr no_creds \<rparr>), fs)"
  by (simp add: with_embedding_def materialize_uncached_def any_byte_embedded_def no_embedded_def no_paths_def no_creds_def)

text \<open>Embedding is opt-in: built with none of the variables set, or only empty ones, the program is the plain one: it runs on
  the arguments it was given, writes no credentials, and chooses its TLS mode from flags and file alone.\<close>

theorem neutral_build:
  assumes "\<And>v. v \<in> set (path_vars @ string_vars) \<Longrightarrow> be_var be v \<in> {None, Some []}"
    and "case be_var be ''RUSNEL_EMBED_ARGS'' of None \<Rightarrow> True | Some s \<Rightarrow> trim s = []" "sy_provider_ok sy"
  shows "\<exists>cs. build_main be = Inr cs \<and> \<not> any_embedded (included cs) \<and>
    (let env = sy_env sy \<lparr> env_embedded := Inr no_creds \<rparr> in
     case sy_clap sy raw of
       Inl u \<Rightarrow> rusnel_main sy (included cs) raw fs = (UsageExit u, fs)
     | Inr (ServerMode config cli, explicit) \<Rightarrow>
         rusnel_main sy (included cs) raw fs = (ServerOutcome (main_server env explicit config cli), fs)
     | Inr (ClientMode config cli, explicit) \<Rightarrow>
         rusnel_main sy (included cs) raw fs = (ClientOutcome (main_client env explicit config cli), fs)
     | _ \<Rightarrow> True)"
proof -
  from neutral_included [OF assms(1,2)] obtain cs where cs: "build_main be = Inr cs" "included cs = no_embedded" by blast
  have any: "\<not> any_embedded no_embedded" by (simp add: any_embedded_def any_byte_embedded_def no_embedded_def)
  have "resolve_argv (EMBED_ARGS no_embedded) raw = raw" by (simp add: resolve_argv_def no_embedded_def)
  with cs any assms(3) show ?thesis
    by (simp add: rusnel_main_def no_embedding Let_def split: sum.split prod.split mode.split)
qed


section \<open>Drop and run\<close>

lemma main_server_embedded:
  assumes "env_embedded env = Inr em" "\<not> sv_insecure cli" "\<not> sv_tls_self_signed cli" "sv_tls_cert cli = None"
    "sv_tls_state_dir cli = None" "sv_tls_key cli = None" "sv_tls_ca cli = None"
    "resolve_server_tls (env_home env) False False None None None None em = Inr tls"
  obtains d cfg where "main_server env explicit None cli = Run d cfg" "sc_tls cfg = tls" "sc_host cfg = sv_host cli"
    "sc_port cfg = sv_port cli" "sc_congestion cfg = sv_congestion cli"
  using assms by (simp add: main_server_def load_section_def merge_server_with_file_def)

lemma materialize_writable:
  assumes "\<And>p. writable lib p"
  shows "\<exists>em fs'. materialize_uncached lib dir e fs = (Inr em, fs')"
proof -
  have w: "\<exists>r f. write_if_some lib dir n c s fs = (Inr r, f)" for n c s fs
    using assms by (auto simp: write_if_some_def Let_def split: option.split)
  show ?thesis
  proof (cases "any_byte_embedded e")
    case True
    obtain ca f1 where 1: "write_if_some lib dir ''ca.pem'' (EMBED_CA e) False fs = (Inr ca, f1)" using w by blast
    obtain sc f2 where 2: "write_if_some lib dir ''server.pem'' (EMBED_SERVER_CERT e) False f1 = (Inr sc, f2)" using w by blast
    obtain sk f3 where 3: "write_if_some lib dir ''server.key'' (EMBED_SERVER_KEY e) True f2 = (Inr sk, f3)" using w by blast
    obtain cc f4 where 4: "write_if_some lib dir ''client.pem'' (EMBED_CLIENT_CERT e) False f3 = (Inr cc, f4)" using w by blast
    obtain ck f5 where 5: "write_if_some lib dir ''client.key'' (EMBED_CLIENT_KEY e) True f4 = (Inr ck, f5)" using w by blast
    show ?thesis using True assms 1 2 3 4 5 by (simp add: materialize_uncached_def fs_bind_def)
  qed (simp add: materialize_uncached_def)
qed

text \<open>C24. Drop and run: a binary built with a server certificate, its key, a CA and default arguments that name the server mode
  without TLS flags, started with no arguments, serves exactly the baked-in identity, whose key it has written out for its
  owner alone, and asks every client for a certificate of the baked-in CA; the files the build read may be gone by then.
  It is assumed that the baked-in files are PEM the library takes and that the temporary directory can be written.\<close>

theorem drop_and_run_server:
  fixes sy :: system
  defines "lib \<equiv> sy_lib sy"
  assumes build: "build_main be = Inr cs" "baked_bytes be ''RUSNEL_EMBED_SERVER_CERT'' = Some cert"
      "baked_bytes be ''RUSNEL_EMBED_SERVER_KEY'' = Some key" "baked_bytes be ''RUSNEL_EMBED_CA'' = Some ca"
      "be_var be ''RUSNEL_EMBED_ARGS'' = Some s" "trim s \<noteq> []" "be_split be s = Some parts" "parts \<noteq> []"
    and pem: "parse_certs lib cert = Some chain" "chain \<noteq> []" "parse_key lib key = Some (Some k)"
      "parse_certs lib ca = Some roots" "roots \<noteq> []" "list_all (root_ok lib) roots" "verifier_ok lib roots" "cert_ok lib (chain, k)"
    and run: "sy_provider_ok sy" "\<And>p. writable lib p" "sy_clap sy (prog # parts) = Inr (ServerMode None cli, explicit)"
    and flags: "\<not> sv_insecure cli" "\<not> sv_tls_self_signed cli" "sv_tls_cert cli = None" "sv_tls_state_dir cli = None"
      "sv_tls_key cli = None" "sv_tls_ca cli = None"
  shows "\<exists>d cfg fs' srv. rusnel_main sy (included cs) [prog] fs = (ServerOutcome (Run d cfg), fs') \<and>
    create_server_endpoint lib gen (\<lambda>_. True) (sc_host cfg) (sc_port cfg) (sc_tls cfg) (sc_congestion cfg) fs' = (Inr srv, fs') \<and>
    sq_identity srv = (chain, k) \<and> sq_auth srv = RequireCertFrom roots \<and> (\<exists>p. fs' p = Some (key, 384))"
proof -
  let ?e = "included cs"
  note e = build_baked(1-3) [OF build(1)] build_baked(4) [OF build(1,5-8)]
  obtain em fs' where m: "materialize_uncached lib (sy_temp sy) ?e fs = (Inr em, fs')"
    using materialize_writable [of lib "sy_temp sy" ?e fs] run(2) by blast
  let ?env = "sy_env sy \<lparr> env_embedded := Inr em \<rparr>"
  obtain tls where "resolve_server_tls (env_home ?env) False False None None None None em = Inr tls"
      "load_server_identity lib gen tls fs' = (Inr (chain, k), fs')" "\<exists>c p a md. tls = Mtls c p a \<and> fs' a = Some (ca, md)"
      "\<exists>p. fs' p = Some (key, 384)"
    using embedded_identity_exact [OF _ _ pem(1-3) m, where home = "env_home ?env" and gen = gen] e(1-3) build(2-4) by auto blast
  then obtain c p a md where tls: "resolve_server_tls (env_home ?env) False False None None None None em = Inr tls"
      "load_server_identity lib gen tls fs' = (Inr (chain, k), fs')" "tls = Mtls c p a" "fs' a = Some (ca, md)"
      "\<exists>p. fs' p = Some (key, 384)" by blast
  obtain d cfg where cfg: "main_server ?env explicit None cli = Run d cfg" "sc_tls cfg = tls" "sc_host cfg = sv_host cli"
      "sc_port cfg = sv_port cli" "sc_congestion cfg = sv_congestion cli"
    using main_server_embedded [of ?env em cli tls explicit] tls(1) flags by auto
  have argv: "resolve_argv (EMBED_ARGS ?e) [prog] = prog # parts" using e(4) by (simp add: resolve_argv_def)
  have "rusnel_main sy ?e [prog] fs = (ServerOutcome (Run d cfg), fs')"
    using run(1,3) argv m cfg(1) by (simp add: rusnel_main_def with_embedding_def lib_def before_embedding_def)
  moreover have "load_root_store lib fs' a = Inr roots" using tls(4) pem(4-6) by (simp add: load_root_store_def load_pem_certs_def)
  ultimately show ?thesis
    using tls cfg pem(7,8) by (simp add: create_server_endpoint_def build_quic_server_config_def install_def)
qed

definition demo_build :: build_env where
  "demo_build = \<lparr> be_var = [''RUSNEL_EMBED_SERVER_CERT'' \<mapsto> ''/c'', ''RUSNEL_EMBED_SERVER_KEY'' \<mapsto> ''/k'', ''RUSNEL_EMBED_CA'' \<mapsto> ''/a'',
       ''RUSNEL_EMBED_ARGS'' \<mapsto> ''server''],
     be_file = [''/c'' \<mapsto> [1], ''/k'' \<mapsto> [2], ''/a'' \<mapsto> [3]], be_split = (\<lambda>s. Some [s]) \<rparr>"

definition demo_system :: system where
  "demo_system = \<lparr> sy_env = demo_env, sy_lib = demo_lib, sy_rcgen = demo_rcgen, sy_json = demo_json, sy_provider_ok = True,
     sy_clap = (\<lambda>argv. if argv = [''rusnel'', ''server''] then Inr (ServerMode None (demo_server_cli \<lparr> sv_insecure := False \<rparr>), \<lambda>_. False)
       else Inl ''usage''),
     sy_temp = ''/t'', sy_show_identity_error = (\<lambda>_. []), sy_fetch = (\<lambda>_ _. Inl []), sy_status_text = (\<lambda>_. []) \<rparr>"

theorem drop_and_run_server_witness:
  "\<exists>cs d cfg fs' srv. build_main demo_build = Inr cs \<and>
     rusnel_main demo_system (included cs) [''rusnel''] Map.empty = (ServerOutcome (Run d cfg), fs') \<and>
     create_server_endpoint demo_lib None (\<lambda>_. True) (sc_host cfg) (sc_port cfg) (sc_tls cfg) (sc_congestion cfg) fs' = (Inr srv, fs') \<and>
     sq_identity srv = ([[1]], [2]) \<and> sq_auth srv = RequireCertFrom [[3]]"
proof -
  have trim: "trim ''server'' = ''server''" by (rule trim_id) (auto simp: whitespace_def char_of_eq_iff)
  have vars: "be_var demo_build ''RUSNEL_EMBED_SERVER_CERT'' = Some ''/c''" "be_var demo_build ''RUSNEL_EMBED_SERVER_KEY'' = Some ''/k''"
    "be_var demo_build ''RUSNEL_EMBED_CA'' = Some ''/a''" "be_var demo_build ''RUSNEL_EMBED_ARGS'' = Some ''server''"
    "be_var demo_build ''RUSNEL_EMBED_CLIENT_CERT'' = None" "be_var demo_build ''RUSNEL_EMBED_CLIENT_KEY'' = None"
    by (simp_all add: demo_build_def)
  have files: "be_file demo_build ''/c'' = Some [1]" "be_file demo_build ''/k'' = Some [2]" "be_file demo_build ''/a'' = Some [3]"
    "be_split demo_build s = Some [s]" for s by (simp_all add: demo_build_def)
  have sys: "sy_lib demo_system = demo_lib" "sy_provider_ok demo_system"
    "sy_clap demo_system [''rusnel'', ''server''] = Inr (ServerMode None (demo_server_cli \<lparr> sv_insecure := False \<rparr>), \<lambda>_. False)"
    by (simp_all add: demo_system_def)
  obtain cs where cs: "build_main demo_build = Inr cs"
    by (simp add: build_main_def path_vars_def path_const_def args_const_def vars files absolutize_def trim)
  have "\<exists>d cfg fs' srv. rusnel_main demo_system (included cs) [''rusnel''] Map.empty = (ServerOutcome (Run d cfg), fs') \<and>
      create_server_endpoint (sy_lib demo_system) None (\<lambda>_. True) (sc_host cfg) (sc_port cfg) (sc_tls cfg) (sc_congestion cfg) fs' =
        (Inr srv, fs') \<and>
      sq_identity srv = ([[1]], [2]) \<and> sq_auth srv = RequireCertFrom [[3]] \<and> (\<exists>p. fs' p = Some ([2], 384))"
    by (rule drop_and_run_server [OF cs, where ca = "[3]" and cert = "[1]" and s = "''server''" and parts = "[''server'']"
          and explicit = "\<lambda>_. False" and cli = "demo_server_cli \<lparr> sv_insecure := False \<rparr>"])
      (simp_all add: baked_bytes_def vars files absolutize_def trim sys demo_lib_def demo_server_cli_def)
  with cs sys(1) show ?thesis by auto
qed

theorem neutral_build_witness:
  "\<exists>cs. build_main \<lparr> be_var = Map.empty, be_file = Map.empty, be_split = (\<lambda>_. None) \<rparr> = Inr cs \<and>
     rusnel_main demo_system (included cs) [''rusnel''] Map.empty = (UsageExit ''usage'', Map.empty)"
proof -
  let ?be = "\<lparr> be_var = Map.empty, be_file = Map.empty, be_split = (\<lambda>_. None) \<rparr> :: build_env"
  have "sy_clap demo_system [''rusnel''] = Inl ''usage''" "sy_provider_ok demo_system" by (simp_all add: demo_system_def)
  with neutral_build [of ?be demo_system "[''rusnel'']" Map.empty] show ?thesis by auto
qed

end
