(* ===== verification/Spec2Isabelle.thy ===== *)
theory Spec2Isabelle
  imports Tunnel Args Program
begin

text \<open>
  \<^bold>\<open>Rusnel\<close> tunnels TCP and UDP over one QUIC connection. A client (\<^verbatim>\<open>src/src/client\<close>) connects to a server
  (\<^verbatim>\<open>src/src/server\<close>), declares its remotes in one session hello and gets a tunnel id for each. A connection accepted
  by the listener of a remote then opens a stream that starts with an \<^verbatim>\<open>OpenConn\<close> message and goes on with raw bytes
  or length-prefixed datagrams. A forward remote listens on the client, a reverse one on the server; \<^verbatim>\<open>socks\<close> remotes
  pick the target per connection. The server keeps its clients, tunnels and conns in a registry that the admin API
  reads out, \<^verbatim>\<open>rusnel ctl\<close> is the client of that API, and \<^verbatim>\<open>rusnel cert\<close> makes the certificates. This development
  models that program function by function and proves its components correct.

  \<^bold>\<open>Theories and what they model.\<close>
  \<^item> \<^verbatim>\<open>Rusnel_Prelude\<close>: \<^verbatim>\<open>Result\<close> as a sum type with early return, searching and splitting of strings, byte orders,
    and the record \<^verbatim>\<open>conn\<close> of a byte connection: input still to read, output written, room before the writer fails,
    and whether it was finished.
  \<^item> \<^verbatim>\<open>Rust_Text\<close>: the standard library's text of integers and addresses and \<^verbatim>\<open>from_utf8_lossy\<close>. The locale
    \<^verbatim>\<open>addr_text\<close> states that printing and parsing agree and is interpreted for IPv4, IPv6 and both.
  \<^item> \<^verbatim>\<open>Remote\<close> (\<^verbatim>\<open>common/remote.rs\<close>): remotes, wire messages and the parser. The parser accepts exactly a grammar stated
    apart from it, its results are well formed, and canonical text parses back.
  \<^item> \<^verbatim>\<open>Counted\<close> (\<^verbatim>\<open>common/counted.rs\<close>): 64-bit wrapping byte counters and the counting reader.
  \<^item> \<^verbatim>\<open>Framing\<close> (\<^verbatim>\<open>common/tunnel.rs\<close>, \<^verbatim>\<open>common/utils.rs\<close>, the datagram frames of \<^verbatim>\<open>common/udp.rs\<close>): the locale
    \<^verbatim>\<open>framed_stream\<close> is what both kinds of frames promise, interpreted for control messages and for datagrams.
  \<^item> \<^verbatim>\<open>Flow_Table\<close>: the table of per-source conns shared by the UDP listener and the SOCKS5 relay, run over events.
  \<^item> \<^verbatim>\<open>Udp\<close> (\<^verbatim>\<open>common/udp.rs\<close>), \<^verbatim>\<open>Socks\<close> (\<^verbatim>\<open>common/socks.rs\<close>), \<^verbatim>\<open>Proxy\<close> (\<^verbatim>\<open>common/proxy.rs\<close>), \<^verbatim>\<open>Tcp\<close>
    (\<^verbatim>\<open>common/tcp.rs\<close>): the data planes. What enters a tunnel leaves it unchanged and in order, for every order of
    polling; flows of different sources do not mix; handshakes accept exactly what the protocol allows; the proxy's
    handshake works with this program's own SOCKS5 server.
  \<^item> \<^verbatim>\<open>Registry\<close> and \<^verbatim>\<open>Registry_Inv\<close> (\<^verbatim>\<open>server/state.rs\<close>): the live state. A shared entry (\<^verbatim>\<open>Arc\<close>) is an index into a heap
    and a \<^verbatim>\<open>DashMap\<close> an association list that meets the locale \<^verbatim>\<open>dash_map\<close>. Every reachable state is consistent, byte
    counts are conserved from a conn to its tunnel and its client, and the history is a bounded view of the disconnects.
  \<^item> \<^verbatim>\<open>Directory\<close>: an abstract directory of clients, tunnels and conns, and the simulation of every registry operation
    by a step of it.
  \<^item> \<^verbatim>\<open>Session\<close> and \<^verbatim>\<open>Session_Inv\<close> (\<^verbatim>\<open>server/mod.rs\<close>): hello, policy, dispatch, one session and the accept loop, as state
    machines over events. For every interleaving of sessions the tables stay consistent, the reverse and SOCKS policy
    and the cap on connections hold, and a session that ends takes its entries with it.
  \<^item> \<^verbatim>\<open>Listeners\<close> (\<^verbatim>\<open>tunnel_tcp_client\<close>, \<^verbatim>\<open>tunnel_socks_client\<close>, \<^verbatim>\<open>handle_socks_udp_associate\<close>, \<^verbatim>\<open>run_udp_conn\<close>,
    \<^verbatim>\<open>spawn_reverse_handler\<close>): the task behind each accepted connection, with what it registers and closes.
  \<^item> \<^verbatim>\<open>Tunnel\<close> (the second half of \<^verbatim>\<open>handle_open_conn\<close>, \<^verbatim>\<open>client_accept_reverse_conn\<close>, \<^verbatim>\<open>tunnel_udp_server\<close>,
    \<^verbatim>\<open>spawn_udp_conn\<close>): the accepting end of a conn, and the two ends put together: forward and reverse TCP conns and forward
    UDP conns are transparent from one application to the other, and accounted to their tunnel. The stream between the ends
    is reliable and ordered (\<^verbatim>\<open>carried\<close>), which is what QUIC provides.
  \<^item> \<^verbatim>\<open>Client\<close> (\<^verbatim>\<open>client/mod.rs\<close>, parts of \<^verbatim>\<open>lib.rs\<close>): address order, connection race, reconnect loop, session, reverse
    conns.
  \<^item> \<^verbatim>\<open>Admin\<close> (\<^verbatim>\<open>server/admin.rs\<close>), \<^verbatim>\<open>Api_Json\<close> (the serialised forms in \<^verbatim>\<open>server/state.rs\<close> and \<^verbatim>\<open>ctl/mod.rs\<close>) and \<^verbatim>\<open>Ctl\<close>
    (\<^verbatim>\<open>ctl/mod.rs\<close>, \<^verbatim>\<open>run_ctl\<close> of \<^verbatim>\<open>main.rs\<close>): the handlers, the route table, the JSON both sides speak, and the paths and
    tables of the commands. Listings are exact, and what a command prints is the table of what the registry holds.
  \<^item> \<^verbatim>\<open>Lifecycle\<close> (\<^verbatim>\<open>run_async\<close> and \<^verbatim>\<open>spawn_admin\<close> of \<^verbatim>\<open>server/mod.rs\<close>, \<^verbatim>\<open>bind\<close> and \<^verbatim>\<open>serve\<close> of \<^verbatim>\<open>server/admin.rs\<close>): a server
    process over its events, with the admin socket in the file system. The socket is private while it is served and gone after
    an orderly stop, and the API answers from the live registry at every moment.
  \<^item> \<^verbatim>\<open>Tls\<close> (\<^verbatim>\<open>common/tls.rs\<close>, identities of \<^verbatim>\<open>common/quic.rs\<close>), \<^verbatim>\<open>Cert\<close> (\<^verbatim>\<open>cert.rs\<close>, \<^verbatim>\<open>embedded.rs\<close>), \<^verbatim>\<open>Cli\<close> (\<^verbatim>\<open>main.rs\<close>,
    \<^verbatim>\<open>config_file.rs\<close>): how flags, file and embedded credentials become a configuration.
  \<^item> \<^verbatim>\<open>Endpoint\<close> (\<^verbatim>\<open>common/quic.rs\<close>, the control connection of \<^verbatim>\<open>common/proxy.rs\<close>): transport settings, endpoints and verifiers.
    Composed with \<^verbatim>\<open>Cli\<close> and the pool of \<^verbatim>\<open>Client\<close>: a client not asked to be insecure talks only to an authenticated
    server, and every attempt goes through a socket of the right address family.
  \<^item> \<^verbatim>\<open>Args\<close> (the argument declarations of \<^verbatim>\<open>main.rs\<close>): conflicts, requirements and defaults; the TLS flags of an accepted
    command line are honoured.
  \<^item> \<^verbatim>\<open>Program\<close> (\<^verbatim>\<open>build.rs\<close>, \<^verbatim>\<open>main\<close> and the loggers of \<^verbatim>\<open>main.rs\<close>): what a build bakes in and how the binary starts, up to the
    endpoint of a server that is dropped and run without arguments.

  \<^bold>\<open>Time and concurrency.\<close> Concurrent tasks are state machines over a list of events, and the theorems quantify over all
  lists, so over every interleaving at the granularity of one registry call, one poll or one datagram. Timers,
  arriving bytes, failures of the system and the order in which attempts finish are events or arguments. A conn registered by
  a reverse listener is kept apart in a session (\<^verbatim>\<open>detached\<close>), because the code spawns it outside the session's
  task set.

  \<^bold>\<open>Bounds.\<close> Loops recurse over the bytes or events that are left; the only count of rounds is that of the trimming
  in \<^verbatim>\<open>Tls\<close>, the length of the text, of which every round drops at least one byte. Lengths, ports, ids and
  byte counts are words of their width where the code can wrap or saturate. Heap references are natural numbers, since an
  \<^verbatim>\<open>Arc\<close> has no bound of its own.

  \<^bold>\<open>Parameters.\<close> The MessagePack codec, the name resolver, SHA-256, the certificate and PEM libraries, TOML, the text of
  JSON, HTTP routing and transport, argument parsing, shell splitting, and the TLS library's checks of chains and signatures are
  arguments of the definitions that use them. The theorems that rely on one state the documented behaviour as a hypothesis
  (decoding inverts encoding, a printed PEM parses back, a route matches segment by segment, accepted arguments satisfy the
  declared constraints) and are applied to a concrete instance by their witness.

  \<^bold>\<open>Not modelled.\<close> The QUIC protocol and the TLS handshake are the libraries'; the model has the settings, the verifiers and
  the effects the program relies on. The log messages themselves, the runtime (\<^verbatim>\<open>build_runtime\<close>), waiting for endpoints to go
  idle and help texts have no effect on the state. The socket methods of the proxied socket that only forward to the inner
  socket are left out, and so are pooled receive buffers, which change allocation only, and \<^verbatim>\<open>ensure_socket_exists\<close>, which
  nothing calls.
\<close>

end
